(* ===== verification/Disco_Prelude.thy ===== *)
theory Disco_Prelude
  imports Main "HOL-Library.Word" "HOL-Library.Monad_Syntax" "HOL-Library.Sublist"
begin

text \<open>
  Shared vocabulary of the development: the machine types of the C sources
  (\<^verbatim>\<open>uint64_t\<close> logical-block numbers, \<^verbatim>\<open>int8_t\<close> acknowledgement counters, ...),
  the compile-time constants of \<^verbatim>\<open>common/discoC_sys_def.h\<close> that several components
  use, the collections of rewrite rules the component theories fill, and generic
  lemmas on lists, counting and words.
\<close>

named_theorems fsm_defs "definitions of the state-machine handlers"
named_theorems md_defs "definitions of the metadata operations"

type_synonym u8 = "8 word"
type_synonym u16 = "16 word"
type_synonym u32 = "32 word"
type_synonym u64 = "64 word"

subsection \<open>Constants of \<^verbatim>\<open>discoC_sys_def.h\<close>\<close>

text \<open>The replica limit, the number of logical blocks one I/O request may span and the
  largest metadata-allocation request.\<close>

definition MAX_NUM_REPLICA :: nat where
  "MAX_NUM_REPLICA = 3"

definition MAX_LBS_PER_IOR :: nat where
  "MAX_LBS_PER_IOR = 33"

definition MAX_LBS_PER_ALLOCMD_REQ :: nat where
  "MAX_LBS_PER_ALLOCMD_REQ = 32"

definition BIT_LEN_DMS_LB_SIZE :: nat where
  "BIT_LEN_DMS_LB_SIZE = 12"

text \<open>Error numbers of the kernel.\<close>

definition EPERM :: int where
  "EPERM = 1"

definition ENOENT :: int where
  "ENOENT = 2"

definition E2BIG :: int where
  "E2BIG = 7"

definition ENOMEM :: int where
  "ENOMEM = 12"

definition EEXIST :: int where
  "EEXIST = 17"

definition EINVAL :: int where
  "EINVAL = 22"

subsection \<open>Counting in lists\<close>

text \<open>Occurrences of elements with a property.\<close>

definition count_if :: "('a \<Rightarrow> bool) \<Rightarrow> 'a list \<Rightarrow> nat" where
  "count_if P xs = length (filter P xs)"

lemma count_if_Nil [simp]: "count_if P [] = 0"
  by (simp add: count_if_def)

lemma count_if_Cons [simp]: "count_if P (x # xs) = (if P x then Suc (count_if P xs) else count_if P xs)"
  by (simp add: count_if_def)

lemma count_if_append [simp]: "count_if P (xs @ ys) = count_if P xs + count_if P ys"
  by (simp add: count_if_def)

lemma count_if_eq_0_iff: "count_if P xs = 0 \<longleftrightarrow> (\<forall>x \<in> set xs. \<not> P x)"
  by (auto simp: count_if_def filter_empty_conv)

lemma count_if_le_length: "count_if P xs \<le> length xs"
  by (simp add: count_if_def)

lemma count_if_mono: "(\<And>x. x \<in> set xs \<Longrightarrow> P x \<Longrightarrow> Q x) \<Longrightarrow> count_if P xs \<le> count_if Q xs"
proof (induction xs)
  case (Cons x xs)
  then show ?case by fastforce
qed simp

lemma count_if_remove1: "x \<in> set xs \<Longrightarrow> count_if P xs = count_if P (remove1 x xs) + of_bool (P x)"
  by (induction xs) (auto simp: count_if_def)

text \<open>If at most one position of a list has a property, two such positions are the same one.\<close>

lemma count_if_le_1_unique:
  assumes "count_if P xs \<le> 1" "i < length xs" "j < length xs" "P (xs ! i)" "P (xs ! j)"
  shows "i = j"
proof (rule ccontr)
  assume "i \<noteq> j"
  then have "card {i, j} = 2" by simp
  moreover have "{i, j} \<subseteq> {k. k < length xs \<and> P (xs ! k)}" using assms by auto
  moreover have "finite {k. k < length xs \<and> P (xs ! k)}" by simp
  ultimately have "2 \<le> card {k. k < length xs \<and> P (xs ! k)}" by (metis card_mono)
  with assms(1) show False by (simp add: count_if_def length_filter_conv_card)
qed

end
