(* ===== verification/Fsm_Spec.thy ===== *)
theory Fsm_Spec
  imports Disco_Prelude
begin

text \<open>
  The contract shared by the request state machines of the client.  Every machine of the
  program has the same shape: a caller (an application thread, a socket sender, a receiver,
  a timer, the housekeeping thread) offers an event and is told which action it may carry out;
  the update runs under the machine's lock, so concurrent callers are serialised in some order.
  A run is therefore the list of events in that order, together with the actions the callers
  were given.  The locales below state what the clients of a machine rely on -- a permission
  that is handed out at most once, a pipeline of actions granted in order, a token that
  is gained before it is spent, a machine that can always be driven to its end -- and derive the
  consequences for arbitrary interleavings.
\<close>

type_synonym ('s, 'e, 'a) fsm = "'s \<Rightarrow> 'e \<Rightarrow> 'a \<times> 's"

primrec fsm_run :: "('s, 'e, 'a) fsm \<Rightarrow> 's \<Rightarrow> 'e list \<Rightarrow> ('e \<times> 'a) list \<times> 's" where
  "fsm_run step s [] = ([], s)"
| "fsm_run step s (e # es) =
     (let r = step s e; rs = fsm_run step (snd r) es in ((e, fst r) # fst rs, snd rs))"

abbreviation fsm_trace :: "('s, 'e, 'a) fsm \<Rightarrow> 's \<Rightarrow> 'e list \<Rightarrow> ('e \<times> 'a) list" where
  "fsm_trace step s es \<equiv> fst (fsm_run step s es)"

abbreviation fsm_final :: "('s, 'e, 'a) fsm \<Rightarrow> 's \<Rightarrow> 'e list \<Rightarrow> 's" where
  "fsm_final step s es \<equiv> snd (fsm_run step s es)"

lemma fsm_run_append:
  "fsm_trace step s (es @ fs) = fsm_trace step s es @ fsm_trace step (fsm_final step s es) fs"
  "fsm_final step s (es @ fs) = fsm_final step (fsm_final step s es) fs"
  by (induction es arbitrary: s) (simp_all add: Let_def)

lemma length_fsm_trace [simp]: "length (fsm_trace step s es) = length es"
  by (induction es arbitrary: s) (simp_all add: Let_def)

lemma fsm_trace_fst: "i < length es \<Longrightarrow> fst (fsm_trace step s es ! i) = es ! i"
  by (induction es arbitrary: s i) (auto simp: Let_def nth_Cons split: nat.splits)

lemma fsm_run_invariant:
  assumes "\<And>s e. I s \<Longrightarrow> I (snd (step s e))" "I s"
  shows "I (fsm_final step s es)"
  using assms(2) by (induction es arbitrary: s) (simp_all add: Let_def assms(1))

subsection \<open>A permission that is granted at most once\<close>

text \<open>\<open>grant e a\<close>: answering event \<open>e\<close> with action \<open>a\<close> hands out the permission.  \<open>closed s\<close>:
  the permission is gone.\<close>

locale fsm_grant =
  fixes step :: "('s, 'e, 'a) fsm"
    and grant :: "'e \<Rightarrow> 'a \<Rightarrow> bool"
    and closed :: "'s \<Rightarrow> bool"
  assumes grant_closes: "grant e (fst (step s e)) \<Longrightarrow> closed (snd (step s e))"
    and closed_stays: "closed s \<Longrightarrow> closed (snd (step s e))"
    and closed_silent: "closed s \<Longrightarrow> \<not> grant e (fst (step s e))"
begin

lemma closed_final: "closed s \<Longrightarrow> closed (fsm_final step s es)"
  by (rule fsm_run_invariant) (rule closed_stays)

lemma closed_no_grant: "closed s \<Longrightarrow> count_if (\<lambda>(e, a). grant e a) (fsm_trace step s es) = 0"
proof (induction es arbitrary: s)
  case (Cons e es)
  then show ?case using closed_silent closed_stays by (simp add: Let_def)
qed simp

lemma granted_at_most_once: "count_if (\<lambda>(e, a). grant e a) (fsm_trace step s es) \<le> 1"
proof (induction es arbitrary: s)
  case (Cons e es)
  show ?case
  proof (cases "grant e (fst (step s e))")
    case True
    then show ?thesis by (simp add: Let_def closed_no_grant grant_closes)
  next
    case False
    then show ?thesis using Cons.IH by (simp add: Let_def)
  qed
qed simp

lemma granted_imp_closed:
  assumes "count_if (\<lambda>(e, a). grant e a) (fsm_trace step s es) \<noteq> 0"
  shows "closed (fsm_final step s es)"
  using assms
proof (induction es arbitrary: s)
  case (Cons e es)
  then show ?case by (cases "grant e (fst (step s e))") (auto simp: Let_def closed_final grant_closes)
qed simp

text \<open>Two calls of one schedule that were both given the permission are the same call.\<close>

lemma one_owner:
  assumes "i < length es" "j < length es"
    and "(\<lambda>(e, a). grant e a) (fsm_trace step s es ! i)"
    and "(\<lambda>(e, a). grant e a) (fsm_trace step s es ! j)"
  shows "i = j"
  using count_if_le_1_unique [OF granted_at_most_once] assms by (metis length_fsm_trace)

end

text \<open>When the permission goes away only by being granted, the number of grants is exact.\<close>

locale fsm_once = fsm_grant step grant closed
  for step :: "('s, 'e, 'a) fsm" and grant :: "'e \<Rightarrow> 'a \<Rightarrow> bool" and closed :: "'s \<Rightarrow> bool" +
  assumes only_grant: "\<not> closed s \<Longrightarrow> closed (snd (step s e)) \<Longrightarrow> grant e (fst (step s e))"
begin

lemma granted_exactly:
  "\<not> closed s \<Longrightarrow> count_if (\<lambda>(e, a). grant e a) (fsm_trace step s es) = of_bool (closed (fsm_final step s es))"
proof (induction es arbitrary: s)
  case (Cons e es)
  show ?case
  proof (cases "closed (snd (step s e))")
    case True
    then show ?thesis using only_grant [OF Cons.prems True] by (simp add: Let_def closed_no_grant closed_final)
  next
    case False
    then have "\<not> grant e (fst (step s e))" using grant_closes by blast
    then show ?thesis using Cons.IH [OF False] by (simp add: Let_def)
  qed
qed simp

end

subsection \<open>A machine that can always be driven to its end\<close>

locale fsm_live = fsm_grant step grant closed
  for step :: "('s, 'e, 'a) fsm" and grant :: "'e \<Rightarrow> 'a \<Rightarrow> bool" and closed :: "'s \<Rightarrow> bool" +
  fixes wf :: "'s \<Rightarrow> bool"
    and finish :: "'s \<Rightarrow> 'e list"
  assumes wf_step: "wf s \<Longrightarrow> wf (snd (step s e))"
    and finish_closes: "wf s \<Longrightarrow> closed (fsm_final step s (finish s))"
begin

lemma wf_final: "wf s \<Longrightarrow> wf (fsm_final step s es)"
  by (rule fsm_run_invariant) (rule wf_step)

lemma can_finish: "wf s \<Longrightarrow> closed (fsm_final step s (es @ finish (fsm_final step s es)))"
  by (simp add: fsm_run_append finish_closes wf_final)

end

subsection \<open>A pipeline of actions, granted in order\<close>

locale fsm_pipeline =
  fixes step :: "('s, 'e, 'a) fsm"
    and stage :: "'s \<Rightarrow> nat"
    and acts :: "'a list"
  assumes acts_distinct: "distinct acts"
    and acts_nonempty: "acts \<noteq> []"
    and stage_bound: "stage s \<le> length acts"
    and advance: "(stage (snd (step s e)) = stage s \<and> fst (step s e) \<notin> set acts) \<or>
      (stage s < length acts \<and> fst (step s e) = acts ! stage s \<and> stage (snd (step s e)) = Suc (stage s))"
begin

lemma pipeline_segment:
  "filter (\<lambda>a. a \<in> set acts) (map snd (fsm_trace step s es)) @ drop (stage (fsm_final step s es)) acts
   = drop (stage s) acts"
proof (induction es arbitrary: s)
  case (Cons e es)
  from advance [of s e] show ?case
  proof
    assume "stage (snd (step s e)) = stage s \<and> fst (step s e) \<notin> set acts"
    then show ?thesis using Cons.IH [of "snd (step s e)"] by (simp add: Let_def)
  next
    assume *: "stage s < length acts \<and> fst (step s e) = acts ! stage s \<and> stage (snd (step s e)) = Suc (stage s)"
    then show ?thesis
      using Cons.IH [of "snd (step s e)"] by (simp add: Let_def Cons_nth_drop_Suc)
  qed
qed simp

lemma pipeline_order:
  assumes "stage s = 0"
  shows "filter (\<lambda>a. a \<in> set acts) (map snd (fsm_trace step s es)) = take (stage (fsm_final step s es)) acts"
  using pipeline_segment [of s es] assms stage_bound [of "fsm_final step s es"]
  by (metis append_take_drop_id append_same_eq drop0)

end

text \<open>The last action of a pipeline is a permission granted at most once.\<close>

sublocale fsm_pipeline \<subseteq> lastact: fsm_grant step "\<lambda>e a. a = last acts" "\<lambda>s. stage s = length acts"
proof unfold_locales
  fix s e
  assume grant: "fst (step s e) = last acts"
  then have "fst (step s e) \<in> set acts" using acts_nonempty by simp
  then have adv: "stage s < length acts" "fst (step s e) = acts ! stage s"
      "stage (snd (step s e)) = Suc (stage s)"
    using advance [of s e] by auto
  have "acts ! stage s = acts ! (length acts - 1)"
    using grant adv(2) acts_nonempty by (simp add: last_conv_nth)
  then have "stage s = length acts - 1"
    using acts_distinct adv(1) acts_nonempty by (simp add: nth_eq_iff_index_eq)
  then show "stage (snd (step s e)) = length acts" using adv acts_nonempty by simp
next
  fix s e
  assume "stage s = length acts"
  then show "stage (snd (step s e)) = length acts" using advance [of s e] by auto
next
  fix s e
  assume "stage s = length acts"
  then have "fst (step s e) \<notin> set acts" using advance [of s e] by auto
  then show "fst (step s e) \<noteq> last acts" using acts_nonempty by auto
qed

subsection \<open>A token that is gained before it is spent\<close>

locale fsm_token =
  fixes step :: "('s, 'e, 'a) fsm"
    and gain :: "'a \<Rightarrow> bool"
    and spend :: "'a \<Rightarrow> bool"
    and held :: "'s \<Rightarrow> bool"
  assumes gain_held: "gain (fst (step s e)) \<Longrightarrow> \<not> spend (fst (step s e)) \<and> \<not> held s \<and> held (snd (step s e))"
    and spend_held: "spend (fst (step s e)) \<Longrightarrow> held s \<and> \<not> held (snd (step s e))"
    and idle_held: "\<not> gain (fst (step s e)) \<Longrightarrow> held (snd (step s e)) \<Longrightarrow> held s"
begin

lemma spend_le_gain:
  "count_if (\<lambda>(e, a). spend a) (fsm_trace step s es) + of_bool (held (fsm_final step s es))
   \<le> count_if (\<lambda>(e, a). gain a) (fsm_trace step s es) + of_bool (held s)"
proof (induction es arbitrary: s)
  case (Cons e es)
  have "of_bool (spend (fst (step s e))) + of_bool (held (snd (step s e)))
      \<le> of_bool (gain (fst (step s e))) + (of_bool (held s) :: nat)"
    using gain_held [of s e] spend_held [of s e] idle_held [of s e] by auto
  with Cons.IH [of "snd (step s e)"] show ?case by (auto simp: Let_def split: if_splits)
qed simp

end

text \<open>Every prefix of a run is a run, so the balance holds at every moment of it.\<close>

context fsm_token
begin

lemma spend_le_gain_always:
  assumes "\<not> held s"
  shows "count_if (\<lambda>(e, a). spend a) (take n (fsm_trace step s es))
     \<le> count_if (\<lambda>(e, a). gain a) (take n (fsm_trace step s es))"
proof -
  have "fsm_trace step s es = fsm_trace step s (take n es) @ fsm_trace step (fsm_final step s (take n es)) (drop n es)"
    using fsm_run_append(1) [of step s "take n es" "drop n es"] by simp
  then have "take n (fsm_trace step s es) = fsm_trace step s (take n es)"
    by (cases "n \<le> length es") simp_all
  then show ?thesis using spend_le_gain [of s "take n es"] assms by simp
qed

end

subsection \<open>A flag that mirrors the last action handed out\<close>

text \<open>\<open>up\<close> actions raise the flag, \<open>down\<close> actions lower it; \<open>flag\<close> reads it off the state.\<close>

primrec last_signal :: "('a \<Rightarrow> bool) \<Rightarrow> ('a \<Rightarrow> bool) \<Rightarrow> bool \<Rightarrow> ('e \<times> 'a) list \<Rightarrow> bool" where
  "last_signal up down b [] = b"
| "last_signal up down b (x # xs) =
     last_signal up down (if up (snd x) then True else if down (snd x) then False else b) xs"

locale fsm_flag =
  fixes step :: "('s, 'e, 'a) fsm"
    and up :: "'a \<Rightarrow> bool"
    and down :: "'a \<Rightarrow> bool"
    and flag :: "'s \<Rightarrow> bool"
  assumes flag_step: "flag (snd (step s e)) =
    (if up (fst (step s e)) then True else if down (fst (step s e)) then False else flag s)"
begin

lemma flag_truthful: "flag (fsm_final step s es) = last_signal up down (flag s) (fsm_trace step s es)"
  by (induction es arbitrary: s) (simp_all add: Let_def flag_step)

end

subsection \<open>Two machines in one structure\<close>

text \<open>A part of a structure that only its own events touch behaves, inside any interleaving with
  the other events, as if it were alone.  \<open>pe\<close> and \<open>pa\<close> select the events and answers of the part.\<close>

locale fsm_view =
  fixes step :: "('s, 'e, 'a) fsm"
    and part :: "('s, 'f, 'b) fsm"
    and view :: "'s \<Rightarrow> 'v"
    and pe :: "'e \<Rightarrow> 'f option"
    and pa :: "'a \<Rightarrow> 'b option"
  assumes own: "pe e = Some f \<Longrightarrow> view s = view t \<Longrightarrow>
      pa (fst (step s e)) = Some (fst (part t f)) \<and> view (snd (step s e)) = view (snd (part t f))"
    and foreign: "pe e = None \<Longrightarrow> pa (fst (step s e)) = None \<and> view (snd (step s e)) = view s"
begin

lemma view_alone:
  assumes "view s = view t"
  shows "view (fsm_final step s es) = view (fsm_final part t (List.map_filter pe es)) \<and>
    List.map_filter pa (map snd (fsm_trace step s es)) = map snd (fsm_trace part t (List.map_filter pe es))"
  using assms
proof (induction es arbitrary: s t)
  case Nil
  then show ?case by (simp add: List.map_filter_def)
next
  case (Cons e es)
  show ?case
  proof (cases "pe e")
    case None
    with foreign [OF None, of s] Cons.prems have "view (snd (step s e)) = view t" by simp
    from Cons.IH [OF this] show ?thesis using None foreign [OF None, of s]
      by (simp add: List.map_filter_def Let_def)
  next
    case (Some f)
    with own [OF Some Cons.prems] have "view (snd (step s e)) = view (snd (part t f))" by simp
    from Cons.IH [OF this] show ?thesis using Some own [OF Some Cons.prems]
      by (simp add: List.map_filter_def Let_def)
  qed
qed

end

end
