(* ===== verification/Conn_Fsm.thy ===== *)
theory Conn_Fsm
  imports Fsm_Spec
begin

text \<open>
  The driver life-cycle machine (\<^verbatim>\<open>drv_fsm.c\<close>) and the socket-connection machine
  (\<^verbatim>\<open>connection_manager/conn_state_fsm.c\<close>).  The driver machine is table driven; the table
  holds the enumeration values of the states.  The connection machine is one handler per state.
  A machine is the C structure as a record; an update returns the action for the caller and the
  updated structure.
\<close>

subsection \<open>Driver state (\<^verbatim>\<open>drv_fsm.c\<close>)\<close>

datatype drv_state_type_t =
    Drv_init
  | Drv_running
  | Drv_shuting_down
  | Drv_shutdown

datatype drv_state_op_t =
    Drv_init_done
  | Drv_turn_off
  | Drv_off_fail
  | Drv_all_stop

text \<open>The enumeration values: row and column numbers of the transition table.\<close>

definition drv_states :: "drv_state_type_t list" where
  "drv_states = [Drv_init, Drv_running, Drv_shuting_down, Drv_shutdown]"

primrec drv_state_val :: "drv_state_type_t \<Rightarrow> nat" where
  "drv_state_val Drv_init = 0"
| "drv_state_val Drv_running = 1"
| "drv_state_val Drv_shuting_down = 2"
| "drv_state_val Drv_shutdown = 3"

primrec drv_op_val :: "drv_state_op_t \<Rightarrow> nat" where
  "drv_op_val Drv_init_done = 0"
| "drv_op_val Drv_turn_off = 1"
| "drv_op_val Drv_off_fail = 2"
| "drv_op_val Drv_all_stop = 3"

definition drv_state_transition :: "nat list list" where
  "drv_state_transition =
     [[1, 0, 0, 0],
      [1, 2, 1, 1],
      [2, 2, 1, 3],
      [3, 3, 3, 3]]"

text \<open>Returns the old state; the second component is the new one.\<close>

definition update_drv_state :: "drv_state_type_t \<Rightarrow> drv_state_op_t \<Rightarrow> drv_state_type_t \<times> drv_state_type_t" where
  "update_drv_state drvStat drv_op =
     (let old_state = drvStat in
      (old_state, drv_states ! (drv_state_transition ! drv_state_val old_state ! drv_op_val drv_op)))"

text \<open>The locked variant: callers are serialised by the mutex.\<close>

definition update_drv_state_lock :: "drv_state_type_t \<Rightarrow> drv_state_op_t \<Rightarrow> drv_state_type_t \<times> drv_state_type_t" where
  "update_drv_state_lock drvStat drv_op = update_drv_state drvStat drv_op"

lemma drv_state_of_val: "drv_states ! drv_state_val s = s" "drv_state_val s < length drv_states"
  by (cases s; simp add: drv_states_def)+

lemma update_drv_state_lock_simps [simp]:
  "update_drv_state_lock s Drv_init_done = (s, if s = Drv_init then Drv_running else s)"
  "update_drv_state_lock s Drv_turn_off = (s, if s = Drv_running then Drv_shuting_down else s)"
  "update_drv_state_lock s Drv_off_fail = (s, if s = Drv_shuting_down then Drv_running else s)"
  "update_drv_state_lock s Drv_all_stop = (s, if s = Drv_shuting_down then Drv_shutdown else s)"
  by (cases s; simp add: update_drv_state_lock_def update_drv_state_def drv_state_transition_def drv_states_def)+

text \<open>The caller whose all-stop finds the driver shutting down owns the tear-down.\<close>

interpretation drv_off: fsm_grant update_drv_state_lock
    "\<lambda>op old. op = Drv_all_stop \<and> old = Drv_shuting_down" "\<lambda>s. s = Drv_shutdown"
proof unfold_locales
  fix s e
  show "snd (update_drv_state_lock s e) = Drv_shutdown"
    if "e = Drv_all_stop \<and> fst (update_drv_state_lock s e) = Drv_shuting_down"
    using that by auto
  show "snd (update_drv_state_lock s e) = Drv_shutdown" if "s = Drv_shutdown"
    using that by (cases e) simp_all
  show "\<not> (e = Drv_all_stop \<and> fst (update_drv_state_lock s e) = Drv_shuting_down)" if "s = Drv_shutdown"
    using that by auto
qed

lemma drv_started:
  assumes "s \<noteq> Drv_init"
  shows "fsm_final update_drv_state_lock s ops \<noteq> Drv_init"
proof (rule fsm_run_invariant [where I = "\<lambda>s. s \<noteq> Drv_init"])
  show "snd (update_drv_state_lock t op) \<noteq> Drv_init" if "t \<noteq> Drv_init" for t op
    using that by (cases op) simp_all
qed (fact assms)

lemma drv_init_final:
  "fsm_final update_drv_state_lock Drv_init ops = Drv_init \<longleftrightarrow> Drv_init_done \<notin> set ops"
proof (induction ops)
  case (Cons op ops)
  then show ?case using drv_started [of Drv_running ops] by (cases op) (simp_all add: Let_def)
qed simp

lemma drv_going_down:
  assumes "s \<in> {Drv_shuting_down, Drv_shutdown}" "Drv_off_fail \<notin> set ops"
  shows "fsm_final update_drv_state_lock s ops \<in> {Drv_shuting_down, Drv_shutdown}"
  using assms
proof (induction ops arbitrary: s)
  case (Cons op ops)
  then show ?case by (cases op) (auto simp: Let_def)
qed simp

lemma drv_down_run:
  assumes "s \<noteq> Drv_init" "Drv_off_fail \<notin> set bs"
  shows "fsm_final update_drv_state_lock s (Drv_turn_off # bs @ Drv_all_stop # cs) = Drv_shutdown"
proof -
  have "snd (update_drv_state_lock s Drv_turn_off) \<in> {Drv_shuting_down, Drv_shutdown}"
    using assms(1) by (cases s) simp_all
  then have "fsm_final update_drv_state_lock (snd (update_drv_state_lock s Drv_turn_off)) bs
      \<in> {Drv_shuting_down, Drv_shutdown}"
    using drv_going_down assms(2) by blast
  then have "fsm_final update_drv_state_lock s ((Drv_turn_off # bs) @ [Drv_all_stop]) = Drv_shutdown"
    by (auto simp: fsm_run_append Let_def)
  then show ?thesis
    using drv_off.closed_final fsm_run_append(2) [of update_drv_state_lock s "(Drv_turn_off # bs) @ [Drv_all_stop]" cs]
    by simp
qed

lemma drv_shuting_down_split:
  assumes "fsm_final update_drv_state_lock Drv_init ops = Drv_shuting_down"
  shows "\<exists>as bs. ops = as @ Drv_turn_off # bs \<and> Drv_init_done \<in> set as \<and> Drv_off_fail \<notin> set bs"
  using assms
proof (induction ops rule: rev_induct)
  case (snoc op ops)
  let ?s = "fsm_final update_drv_state_lock Drv_init ops"
  show ?case
  proof (cases "?s = Drv_shuting_down")
    case True
    then obtain as bs where "ops = as @ Drv_turn_off # bs" "Drv_init_done \<in> set as" "Drv_off_fail \<notin> set bs"
      using snoc.IH by blast
    moreover have "op \<noteq> Drv_off_fail" using snoc.prems True by (auto simp: fsm_run_append Let_def)
    ultimately show ?thesis by (intro exI [of _ as] exI [of _ "bs @ [op]"]) auto
  next
    case False
    then have "op = Drv_turn_off" "?s = Drv_running"
      using snoc.prems
      by (cases op; simp add: fsm_run_append Let_def split: if_splits)+
    moreover have "Drv_init_done \<in> set ops" using drv_init_final [of ops] \<open>?s = Drv_running\<close> by auto
    ultimately show ?thesis by (intro exI [of _ ops] exI [of _ "[]"]) simp
  qed
qed simp

lemma drv_shutdown_split:
  assumes "fsm_final update_drv_state_lock Drv_init ops = Drv_shutdown"
  shows "\<exists>as bs cs. ops = as @ Drv_turn_off # bs @ Drv_all_stop # cs
           \<and> Drv_init_done \<in> set as \<and> Drv_off_fail \<notin> set bs"
  using assms
proof (induction ops rule: rev_induct)
  case (snoc op ops)
  let ?s = "fsm_final update_drv_state_lock Drv_init ops"
  show ?case
  proof (cases "?s = Drv_shutdown")
    case True
    then obtain as bs cs where "ops = as @ Drv_turn_off # bs @ Drv_all_stop # cs"
        "Drv_init_done \<in> set as" "Drv_off_fail \<notin> set bs"
      using snoc.IH by blast
    then show ?thesis by (intro exI [of _ as] exI [of _ bs] exI [of _ "cs @ [op]"]) simp
  next
    case False
    then have "op = Drv_all_stop" "?s = Drv_shuting_down"
      using snoc.prems
      by (cases op; simp add: fsm_run_append Let_def split: if_splits)+
    moreover obtain as bs where "ops = as @ Drv_turn_off # bs" "Drv_init_done \<in> set as" "Drv_off_fail \<notin> set bs"
      using drv_shuting_down_split \<open>?s = Drv_shuting_down\<close> by blast
    ultimately show ?thesis by (intro exI [of _ as] exI [of _ bs] exI [of _ "[]"]) simp
  qed
qed simp

subsection \<open>Connection state (\<^verbatim>\<open>conn_state_fsm.c\<close>)\<close>

datatype conn_stat_t =
    CONN_S_INIT
  | CONN_S_Connecting
  | CONN_S_Connected
  | CONN_S_ConnectRetry
  | CONN_S_Closing
  | CONN_S_End
  | CONN_S_Unknown

primrec conn_stat_t_val :: "conn_stat_t \<Rightarrow> nat" where
  "conn_stat_t_val CONN_S_INIT = 0"
| "conn_stat_t_val CONN_S_Connecting = 1"
| "conn_stat_t_val CONN_S_Connected = 2"
| "conn_stat_t_val CONN_S_ConnectRetry = 3"
| "conn_stat_t_val CONN_S_Closing = 4"
| "conn_stat_t_val CONN_S_End = 5"
| "conn_stat_t_val CONN_S_Unknown = 6"

lemma conn_stat_t_val_inj: "conn_stat_t_val s = conn_stat_t_val t \<Longrightarrow> s = t"
  by (cases s; cases t) simp_all

instantiation conn_stat_t :: linorder
begin
definition less_eq_conn_stat_t :: "conn_stat_t \<Rightarrow> conn_stat_t \<Rightarrow> bool" where
  "less_eq_conn_stat_t s t \<longleftrightarrow> conn_stat_t_val s \<le> conn_stat_t_val t"
definition less_conn_stat_t :: "conn_stat_t \<Rightarrow> conn_stat_t \<Rightarrow> bool" where
  "less_conn_stat_t s t \<longleftrightarrow> conn_stat_t_val s < conn_stat_t_val t"
instance
  by standard (auto simp: less_eq_conn_stat_t_def less_conn_stat_t_def intro: conn_stat_t_val_inj)
end

record connStat_fsm_t =
  conn_state :: conn_stat_t

datatype conn_TRevent_t =
    CONN_E_Connect
  | CONN_E_Connect_OK
  | CONN_E_Connect_FAIL
  | CONN_E_Connect_Broken
  | CONN_E_STOP
  | CONN_E_STOP_DONE
  | CONN_E_Unknown

datatype conn_action_t =
    CONN_A_NoAction
  | CONN_A_DO_Connect
  | CONN_A_DO_Service
  | CONN_A_DO_Retry
  | CONN_A_DO_Close
  | CONN_A_DO_Free
  | CONN_A_Unknown

primrec conn_action_t_val :: "conn_action_t \<Rightarrow> nat" where
  "conn_action_t_val CONN_A_NoAction = 0"
| "conn_action_t_val CONN_A_DO_Connect = 1"
| "conn_action_t_val CONN_A_DO_Service = 2"
| "conn_action_t_val CONN_A_DO_Retry = 3"
| "conn_action_t_val CONN_A_DO_Close = 4"
| "conn_action_t_val CONN_A_DO_Free = 5"
| "conn_action_t_val CONN_A_Unknown = 6"

lemma conn_action_t_val_inj: "conn_action_t_val s = conn_action_t_val t \<Longrightarrow> s = t"
  by (cases s; cases t) simp_all

instantiation conn_action_t :: linorder
begin
definition less_eq_conn_action_t :: "conn_action_t \<Rightarrow> conn_action_t \<Rightarrow> bool" where
  "less_eq_conn_action_t s t \<longleftrightarrow> conn_action_t_val s \<le> conn_action_t_val t"
definition less_conn_action_t :: "conn_action_t \<Rightarrow> conn_action_t \<Rightarrow> bool" where
  "less_conn_action_t s t \<longleftrightarrow> conn_action_t_val s < conn_action_t_val t"
instance
  by standard (auto simp: less_eq_conn_action_t_def less_conn_action_t_def intro: conn_action_t_val_inj)
end

definition update_connInit :: "connStat_fsm_t \<Rightarrow> conn_TRevent_t \<Rightarrow> conn_action_t \<times> connStat_fsm_t" where
  [fsm_defs]: "update_connInit myStat event =
     (case event of
        CONN_E_Connect \<Rightarrow> (CONN_A_DO_Connect, myStat\<lparr>conn_state := CONN_S_Connecting\<rparr>)
      | _ \<Rightarrow> (CONN_A_NoAction, myStat))"

definition update_connConning :: "connStat_fsm_t \<Rightarrow> conn_TRevent_t \<Rightarrow> conn_action_t \<times> connStat_fsm_t" where
  [fsm_defs]: "update_connConning myStat event =
     (case event of
        CONN_E_Connect_OK \<Rightarrow> (CONN_A_DO_Service, myStat\<lparr>conn_state := CONN_S_Connected\<rparr>)
      | CONN_E_Connect_FAIL \<Rightarrow> (CONN_A_DO_Retry, myStat\<lparr>conn_state := CONN_S_ConnectRetry\<rparr>)
      | CONN_E_STOP \<Rightarrow> (CONN_A_DO_Close, myStat\<lparr>conn_state := CONN_S_Closing\<rparr>)
      | _ \<Rightarrow> (CONN_A_NoAction, myStat))"

definition update_connConnected :: "connStat_fsm_t \<Rightarrow> conn_TRevent_t \<Rightarrow> conn_action_t \<times> connStat_fsm_t" where
  [fsm_defs]: "update_connConnected myStat event =
     (case event of
        CONN_E_Connect_Broken \<Rightarrow> (CONN_A_DO_Retry, myStat\<lparr>conn_state := CONN_S_ConnectRetry\<rparr>)
      | CONN_E_STOP \<Rightarrow> (CONN_A_DO_Close, myStat\<lparr>conn_state := CONN_S_Closing\<rparr>)
      | _ \<Rightarrow> (CONN_A_NoAction, myStat))"

definition update_connRetry :: "connStat_fsm_t \<Rightarrow> conn_TRevent_t \<Rightarrow> conn_action_t \<times> connStat_fsm_t" where
  [fsm_defs]: "update_connRetry myStat event =
     (case event of
        CONN_E_Connect_OK \<Rightarrow> (CONN_A_DO_Service, myStat\<lparr>conn_state := CONN_S_Connected\<rparr>)
      | CONN_E_STOP \<Rightarrow> (CONN_A_DO_Close, myStat\<lparr>conn_state := CONN_S_Closing\<rparr>)
      | _ \<Rightarrow> (CONN_A_NoAction, myStat))"

definition update_connClosing :: "connStat_fsm_t \<Rightarrow> conn_TRevent_t \<Rightarrow> conn_action_t \<times> connStat_fsm_t" where
  [fsm_defs]: "update_connClosing myStat event =
     (case event of
        CONN_E_STOP_DONE \<Rightarrow> (CONN_A_DO_Free, myStat\<lparr>conn_state := CONN_S_End\<rparr>)
      | _ \<Rightarrow> (CONN_A_NoAction, myStat))"

definition update_connStat :: "connStat_fsm_t \<Rightarrow> conn_TRevent_t \<Rightarrow> conn_action_t \<times> connStat_fsm_t" where
  [fsm_defs]: "update_connStat myStat event =
     (case conn_state myStat of
        CONN_S_INIT \<Rightarrow> update_connInit myStat event
      | CONN_S_Connecting \<Rightarrow> update_connConning myStat event
      | CONN_S_Connected \<Rightarrow> update_connConnected myStat event
      | CONN_S_ConnectRetry \<Rightarrow> update_connRetry myStat event
      | CONN_S_Closing \<Rightarrow> update_connClosing myStat event
      | _ \<Rightarrow> (CONN_A_NoAction, myStat))"

definition update_conn_state :: "connStat_fsm_t \<Rightarrow> conn_TRevent_t \<Rightarrow> conn_action_t \<times> connStat_fsm_t" where
  [fsm_defs]: "update_conn_state stat event = update_connStat stat event"

definition connStat_str :: "string list" where
  "connStat_str =
     [''init'',
      ''connecting'',
      ''connected'',
      ''connection retry'',
      ''closing'',
      ''end'',
      ''Unknown'']"

definition connAction_str :: "string list" where
  "connAction_str =
     [''No action'',
      ''Do Connect'',
      ''Open Service'',
      ''Do Connection Retry'',
      ''Do Close'',
      ''Do Free'',
      ''Unknown'']"

definition get_connStat_action_str :: "conn_action_t \<Rightarrow> string" where
  "get_connStat_action_str action =
     (if action \<ge> CONN_A_NoAction \<and> action < CONN_A_Unknown
      then connAction_str ! conn_action_t_val action
      else connAction_str ! conn_action_t_val CONN_A_Unknown)"

definition get_conn_state :: "connStat_fsm_t \<Rightarrow> conn_stat_t" where
  "get_conn_state connStat = conn_state connStat"

definition is_conn_connected :: "connStat_fsm_t \<Rightarrow> bool" where
  "is_conn_connected connStat = (if CONN_S_Connected = conn_state connStat then True else False)"

definition get_conn_state_str :: "connStat_fsm_t \<Rightarrow> string" where
  "get_conn_state_str connStat =
     (let stat = get_conn_state connStat in
      if stat \<ge> CONN_S_INIT \<and> stat < CONN_S_Unknown
      then connStat_str ! conn_stat_t_val stat
      else connStat_str ! conn_stat_t_val CONN_S_Unknown)"

definition init_conn_state_fsm :: "connStat_fsm_t \<Rightarrow> connStat_fsm_t" where
  "init_conn_state_fsm connStat = connStat\<lparr>conn_state := CONN_S_INIT\<rparr>"

subsubsection \<open>Contracts of the connection machine\<close>

definition conn_stage :: "connStat_fsm_t \<Rightarrow> nat" where
  "conn_stage s = (case conn_state s of CONN_S_Closing \<Rightarrow> 1 | CONN_S_End \<Rightarrow> 2 | CONN_S_Unknown \<Rightarrow> 2 | _ \<Rightarrow> 0)"

text \<open>Closing and freeing a connection are granted once each, in this order.\<close>

interpretation conn_free: fsm_pipeline update_conn_state conn_stage "[CONN_A_DO_Close, CONN_A_DO_Free]"
proof unfold_locales
  fix s e
  show "conn_stage s \<le> length [CONN_A_DO_Close, CONN_A_DO_Free]"
    by (cases "conn_state s") (simp_all add: conn_stage_def)
  show "(conn_stage (snd (update_conn_state s e)) = conn_stage s \<and>
          fst (update_conn_state s e) \<notin> set [CONN_A_DO_Close, CONN_A_DO_Free]) \<or>
        (conn_stage s < length [CONN_A_DO_Close, CONN_A_DO_Free] \<and>
          fst (update_conn_state s e) = [CONN_A_DO_Close, CONN_A_DO_Free] ! conn_stage s \<and>
          conn_stage (snd (update_conn_state s e)) = Suc (conn_stage s))"
    by (cases "conn_state s"; cases e) (simp_all add: fsm_defs conn_stage_def)
qed simp_all

text \<open>The connected flag mirrors the last of the service, retry and close permissions.\<close>

interpretation conn_up: fsm_flag update_conn_state "\<lambda>a. a = CONN_A_DO_Service"
    "\<lambda>a. a = CONN_A_DO_Retry \<or> a = CONN_A_DO_Close" is_conn_connected
proof unfold_locales
  fix s e
  show "is_conn_connected (snd (update_conn_state s e)) =
     (if fst (update_conn_state s e) = CONN_A_DO_Service then True
      else if fst (update_conn_state s e) = CONN_A_DO_Retry \<or> fst (update_conn_state s e) = CONN_A_DO_Close
      then False else is_conn_connected s)"
    by (cases "conn_state s"; cases e) (simp_all add: fsm_defs is_conn_connected_def)
qed

subsection \<open>Properties\<close>

text \<open>(C39) The driver started from its initial state ends up shut down after a sequence of operations exactly
  when the sequence contains, after an init-done, a turn-off that is followed by an all-stop with
  no failed turn-off in between; and at most one of the callers is told (by the returned old state)
  that its all-stop was the one that shut the driver down.\<close>

theorem drv_shutdown_iff:
  "(fsm_final update_drv_state_lock Drv_init ops = Drv_shutdown \<longleftrightarrow>
     (\<exists>as bs cs. ops = as @ Drv_turn_off # bs @ Drv_all_stop # cs
        \<and> Drv_init_done \<in> set as \<and> Drv_off_fail \<notin> set bs)) \<and>
   count_if (\<lambda>(op, old). op = Drv_all_stop \<and> old = Drv_shuting_down)
     (fsm_trace update_drv_state_lock Drv_init ops) \<le> 1"
proof (intro conjI iffI)
  assume "\<exists>as bs cs. ops = as @ Drv_turn_off # bs @ Drv_all_stop # cs
        \<and> Drv_init_done \<in> set as \<and> Drv_off_fail \<notin> set bs"
  then obtain as bs cs where ops: "ops = as @ Drv_turn_off # bs @ Drv_all_stop # cs"
      and "Drv_init_done \<in> set as" "Drv_off_fail \<notin> set bs" by blast
  then have "fsm_final update_drv_state_lock Drv_init as \<noteq> Drv_init" by (simp add: drv_init_final)
  then show "fsm_final update_drv_state_lock Drv_init ops = Drv_shutdown"
    using drv_down_run \<open>Drv_off_fail \<notin> set bs\<close> by (simp only: ops fsm_run_append)
qed (rule drv_shutdown_split, assumption, rule drv_off.granted_at_most_once)

text \<open>(C38) For every sequence of connection events, whatever threads they come from: the connection reports
  itself connected exactly when the last of the service, retry and close permissions handed out was
  a service permission, and the close and free permissions are handed out at most once each, close
  first.\<close>

theorem conn_connected_truthful:
  "is_conn_connected (fsm_final update_conn_state (init_conn_state_fsm s) es) =
     last_signal (\<lambda>a. a = CONN_A_DO_Service) (\<lambda>a. a = CONN_A_DO_Retry \<or> a = CONN_A_DO_Close) False
       (fsm_trace update_conn_state (init_conn_state_fsm s) es) \<and>
   filter (\<lambda>a. a \<in> {CONN_A_DO_Close, CONN_A_DO_Free}) (map snd (fsm_trace update_conn_state (init_conn_state_fsm s) es))
     = take (conn_stage (fsm_final update_conn_state (init_conn_state_fsm s) es)) [CONN_A_DO_Close, CONN_A_DO_Free]"
proof
  show "is_conn_connected (fsm_final update_conn_state (init_conn_state_fsm s) es) =
     last_signal (\<lambda>a. a = CONN_A_DO_Service) (\<lambda>a. a = CONN_A_DO_Retry \<or> a = CONN_A_DO_Close) False
       (fsm_trace update_conn_state (init_conn_state_fsm s) es)"
    using conn_up.flag_truthful [of "init_conn_state_fsm s" es]
    by (simp add: is_conn_connected_def init_conn_state_fsm_def)
  have "conn_stage (init_conn_state_fsm s) = 0" by (simp add: conn_stage_def init_conn_state_fsm_def)
  from conn_free.pipeline_order [OF this, of es]
  show "filter (\<lambda>a. a \<in> {CONN_A_DO_Close, CONN_A_DO_Free}) (map snd (fsm_trace update_conn_state (init_conn_state_fsm s) es))
     = take (conn_stage (fsm_final update_conn_state (init_conn_state_fsm s) es)) [CONN_A_DO_Close, CONN_A_DO_Free]"
    by simp
qed

end
