(* ===== verification/Io_Fsm.thy ===== *)
theory Io_Fsm
  imports Fsm_Spec
begin

text \<open>
  The state machines of an I/O request (\<^verbatim>\<open>io_manager/discoC_IOReq_fsm.c\<close>) and of the I/O segment
  requests it is split into (\<^verbatim>\<open>io_manager/discoC_ioSegReq_fsm.c\<close>).  An I/O request reads or writes
  user data, reports metadata to the namenode, heals and is freed; a segment request acquires
  metadata, transfers user data and commits to its I/O request.
\<close>

subsection \<open>I/O request (\<^verbatim>\<open>discoC_IOReq_fsm.c\<close>)\<close>

datatype IOR_FSM_TREvent_t =
    IOREQ_E_INIT_DONE
  | IOREQ_E_OvlpOtherIO
  | IOREQ_E_OvlpIODone
  | IOREQ_E_RWUDataDone
  | IOREQ_E_ReportMDDone
  | IOREQ_E_HealDone
  | IOREQ_E_IOSeg_IODone
  | IOREQ_E_IOSeg_ReportMDDone

text \<open>The value \<^verbatim>\<open>IOREQ_A_UNKNOWN\<close> is the value of \<^verbatim>\<open>IOREQ_A_END\<close>; likewise for the other machines.\<close>

datatype IOR_FSM_action_t =
    IOREQ_A_START
  | IOREQ_A_NoAction
  | IOREQ_A_AddOvlpWaitQ
  | IOREQ_A_SubmitIO
  | IOREQ_A_DO_ReportMD
  | IOREQ_A_DO_Healing
  | IOREQ_A_FreeReq
  | IOREQ_A_IOSegIODoneCIIOR
  | IOREQ_A_IOSegMDReportDoneCIIOR
  | IOREQ_A_END

primrec IOR_FSM_action_t_val :: "IOR_FSM_action_t \<Rightarrow> nat" where
  "IOR_FSM_action_t_val IOREQ_A_START = 0"
| "IOR_FSM_action_t_val IOREQ_A_NoAction = 1"
| "IOR_FSM_action_t_val IOREQ_A_AddOvlpWaitQ = 2"
| "IOR_FSM_action_t_val IOREQ_A_SubmitIO = 3"
| "IOR_FSM_action_t_val IOREQ_A_DO_ReportMD = 4"
| "IOR_FSM_action_t_val IOREQ_A_DO_Healing = 5"
| "IOR_FSM_action_t_val IOREQ_A_FreeReq = 6"
| "IOR_FSM_action_t_val IOREQ_A_IOSegIODoneCIIOR = 7"
| "IOR_FSM_action_t_val IOREQ_A_IOSegMDReportDoneCIIOR = 8"
| "IOR_FSM_action_t_val IOREQ_A_END = 9"

lemma IOR_FSM_action_t_val_inj: "IOR_FSM_action_t_val s = IOR_FSM_action_t_val t \<Longrightarrow> s = t"
  by (cases s; cases t) simp_all

instantiation IOR_FSM_action_t :: linorder
begin
definition less_eq_IOR_FSM_action_t :: "IOR_FSM_action_t \<Rightarrow> IOR_FSM_action_t \<Rightarrow> bool" where
  "less_eq_IOR_FSM_action_t s t \<longleftrightarrow> IOR_FSM_action_t_val s \<le> IOR_FSM_action_t_val t"
definition less_IOR_FSM_action_t :: "IOR_FSM_action_t \<Rightarrow> IOR_FSM_action_t \<Rightarrow> bool" where
  "less_IOR_FSM_action_t s t \<longleftrightarrow> IOR_FSM_action_t_val s < IOR_FSM_action_t_val t"
instance
  by standard (auto simp: less_eq_IOR_FSM_action_t_def less_IOR_FSM_action_t_def intro: IOR_FSM_action_t_val_inj)
end

abbreviation IOREQ_A_UNKNOWN :: IOR_FSM_action_t where
  "IOREQ_A_UNKNOWN \<equiv> IOREQ_A_END"

datatype IOR_FSM_state_t =
    IOREQ_S_START
  | IOREQ_S_INIT
  | IOREQ_S_RWUserData
  | IOREQ_S_OvlpWait
  | IOREQ_S_ReportMD
  | IOREQ_S_SelfHealing
  | IOREQ_S_ReqDone
  | IOREQ_S_END

primrec IOR_FSM_state_t_val :: "IOR_FSM_state_t \<Rightarrow> nat" where
  "IOR_FSM_state_t_val IOREQ_S_START = 0"
| "IOR_FSM_state_t_val IOREQ_S_INIT = 1"
| "IOR_FSM_state_t_val IOREQ_S_RWUserData = 2"
| "IOR_FSM_state_t_val IOREQ_S_OvlpWait = 3"
| "IOR_FSM_state_t_val IOREQ_S_ReportMD = 4"
| "IOR_FSM_state_t_val IOREQ_S_SelfHealing = 5"
| "IOR_FSM_state_t_val IOREQ_S_ReqDone = 6"
| "IOR_FSM_state_t_val IOREQ_S_END = 7"

lemma IOR_FSM_state_t_val_inj: "IOR_FSM_state_t_val s = IOR_FSM_state_t_val t \<Longrightarrow> s = t"
  by (cases s; cases t) simp_all

instantiation IOR_FSM_state_t :: linorder
begin
definition less_eq_IOR_FSM_state_t :: "IOR_FSM_state_t \<Rightarrow> IOR_FSM_state_t \<Rightarrow> bool" where
  "less_eq_IOR_FSM_state_t s t \<longleftrightarrow> IOR_FSM_state_t_val s \<le> IOR_FSM_state_t_val t"
definition less_IOR_FSM_state_t :: "IOR_FSM_state_t \<Rightarrow> IOR_FSM_state_t \<Rightarrow> bool" where
  "less_IOR_FSM_state_t s t \<longleftrightarrow> IOR_FSM_state_t_val s < IOR_FSM_state_t_val t"
instance
  by standard (auto simp: less_eq_IOR_FSM_state_t_def less_IOR_FSM_state_t_def intro: IOR_FSM_state_t_val_inj)
end

abbreviation IOREQ_S_UNKNOWN :: IOR_FSM_state_t where
  "IOREQ_S_UNKNOWN \<equiv> IOREQ_S_END"

record IOReq_fsm_t =
  st_ioReq :: IOR_FSM_state_t

definition update_ioReqState_Init :: "IOReq_fsm_t \<Rightarrow> IOR_FSM_TREvent_t \<Rightarrow> IOR_FSM_action_t \<times> IOReq_fsm_t" where
  [fsm_defs]: "update_ioReqState_Init myStat event =
     (case event of
        IOREQ_E_INIT_DONE \<Rightarrow> (IOREQ_A_SubmitIO, myStat\<lparr>st_ioReq := IOREQ_S_RWUserData\<rparr>)
      | IOREQ_E_OvlpOtherIO \<Rightarrow> (IOREQ_A_AddOvlpWaitQ, myStat\<lparr>st_ioReq := IOREQ_S_OvlpWait\<rparr>)
      | _ \<Rightarrow> (IOREQ_A_NoAction, myStat))"

definition update_ioReqState_RWUData :: "IOReq_fsm_t \<Rightarrow> IOR_FSM_TREvent_t \<Rightarrow> IOR_FSM_action_t \<times> IOReq_fsm_t" where
  [fsm_defs]: "update_ioReqState_RWUData myStat event =
     (case event of
        IOREQ_E_RWUDataDone \<Rightarrow> (IOREQ_A_DO_ReportMD, myStat\<lparr>st_ioReq := IOREQ_S_ReportMD\<rparr>)
      | IOREQ_E_IOSeg_IODone \<Rightarrow> (IOREQ_A_IOSegIODoneCIIOR, myStat)
      | _ \<Rightarrow> (IOREQ_A_NoAction, myStat))"

definition update_ioReqState_OvlpWait :: "IOReq_fsm_t \<Rightarrow> IOR_FSM_TREvent_t \<Rightarrow> IOR_FSM_action_t \<times> IOReq_fsm_t" where
  [fsm_defs]: "update_ioReqState_OvlpWait myStat event =
     (case event of
        IOREQ_E_OvlpIODone \<Rightarrow> (IOREQ_A_SubmitIO, myStat\<lparr>st_ioReq := IOREQ_S_RWUserData\<rparr>)
      | _ \<Rightarrow> (IOREQ_A_NoAction, myStat))"

definition update_ioReqState_ReportMD :: "IOReq_fsm_t \<Rightarrow> IOR_FSM_TREvent_t \<Rightarrow> IOR_FSM_action_t \<times> IOReq_fsm_t" where
  [fsm_defs]: "update_ioReqState_ReportMD myStat event =
     (case event of
        IOREQ_E_ReportMDDone \<Rightarrow> (IOREQ_A_DO_Healing, myStat\<lparr>st_ioReq := IOREQ_S_SelfHealing\<rparr>)
      | IOREQ_E_IOSeg_ReportMDDone \<Rightarrow> (IOREQ_A_IOSegMDReportDoneCIIOR, myStat)
      | _ \<Rightarrow> (IOREQ_A_NoAction, myStat))"

definition update_ioReqState_SelfHeal :: "IOReq_fsm_t \<Rightarrow> IOR_FSM_TREvent_t \<Rightarrow> IOR_FSM_action_t \<times> IOReq_fsm_t" where
  [fsm_defs]: "update_ioReqState_SelfHeal myStat event =
     (case event of
        IOREQ_E_HealDone \<Rightarrow> (IOREQ_A_FreeReq, myStat\<lparr>st_ioReq := IOREQ_S_ReqDone\<rparr>)
      | _ \<Rightarrow> (IOREQ_A_NoAction, myStat))"

definition update_ioReqState_ReqDone :: "IOReq_fsm_t \<Rightarrow> IOR_FSM_TREvent_t \<Rightarrow> IOR_FSM_action_t \<times> IOReq_fsm_t" where
  [fsm_defs]: "update_ioReqState_ReqDone myStat event = (IOREQ_A_NoAction, myStat)"

definition update_ioReqState_lockless :: "IOReq_fsm_t \<Rightarrow> IOR_FSM_TREvent_t \<Rightarrow> IOR_FSM_action_t \<times> IOReq_fsm_t" where
  [fsm_defs]: "update_ioReqState_lockless myStat event =
     (case st_ioReq myStat of
        IOREQ_S_INIT \<Rightarrow> update_ioReqState_Init myStat event
      | IOREQ_S_RWUserData \<Rightarrow> update_ioReqState_RWUData myStat event
      | IOREQ_S_OvlpWait \<Rightarrow> update_ioReqState_OvlpWait myStat event
      | IOREQ_S_ReportMD \<Rightarrow> update_ioReqState_ReportMD myStat event
      | IOREQ_S_SelfHealing \<Rightarrow> update_ioReqState_SelfHeal myStat event
      | IOREQ_S_ReqDone \<Rightarrow> update_ioReqState_ReqDone myStat event
      | _ \<Rightarrow> (IOREQ_A_NoAction, myStat))"

definition IOReq_update_state :: "IOReq_fsm_t \<Rightarrow> IOR_FSM_TREvent_t \<Rightarrow> IOR_FSM_action_t \<times> IOReq_fsm_t" where
  [fsm_defs]: "IOReq_update_state stat event = update_ioReqState_lockless stat event"

definition ioReqStat_str :: "string list" where
  "ioReqStat_str =
     [''IOReqS unknown'',
      ''IOReqS init'',
      ''IOReqS Ovlp Wait Other IO'',
      ''IOReqS R/W User Data'',
      ''IOReqS Report MData'',
      ''IOReqS Self Healing'',
      ''IOReqS Request Done'',
      ''IOReqS unknown'']"

definition ioReqAction_str :: "string list" where
  "ioReqAction_str =
     [''IOReqA Unknown'',
      ''IOReqA No action'',
      ''IOReqA Add Ovlp Wait Queue'',
      ''IOReqA Submit IO'',
      ''IOReqA DO Report Metadata'',
      ''IOReqA DO Healing'',
      ''IOReqA DO Free Request'',
      ''IOReqA IOSegIODone CI IOReq'',
      ''IOReqA IOSegMDReportDone CI IOReq'',
      ''IOReqA Unknown'']"

definition IOReq_get_action_str :: "IOR_FSM_action_t \<Rightarrow> string" where
  "IOReq_get_action_str action =
     (if action > IOREQ_A_START \<and> action < IOREQ_A_END then ioReqAction_str ! IOR_FSM_action_t_val action
      else ioReqAction_str ! IOR_FSM_action_t_val IOREQ_A_END)"

definition IOReq_get_state :: "IOReq_fsm_t \<Rightarrow> IOR_FSM_state_t" where
  "IOReq_get_state stat = st_ioReq stat"

definition IOReq_get_state_fsm_str :: "IOReq_fsm_t \<Rightarrow> string" where
  "IOReq_get_state_fsm_str stat =
     (let myStat = IOReq_get_state stat in
      if myStat > IOREQ_S_START \<and> myStat < IOREQ_S_END then ioReqStat_str ! IOR_FSM_state_t_val myStat
      else ioReqStat_str ! IOR_FSM_state_t_val IOREQ_S_END)"

definition IOReq_init_fsm :: "IOReq_fsm_t \<Rightarrow> IOReq_fsm_t" where
  "IOReq_init_fsm stat = stat\<lparr>st_ioReq := IOREQ_S_INIT\<rparr>"

subsection \<open>I/O segment request (\<^verbatim>\<open>discoC_ioSegReq_fsm.c\<close>)\<close>

datatype IOSegREQ_FSM_TREvent_t =
    IOSegREQ_E_INIT_4KW
  | IOSegREQ_E_W_AcqMD_DONE
  | IOSegREQ_E_W_ALLPL_DONE
  | IOSegREQ_E_INIT_R
  | IOSegREQ_E_R_AcqMD_DONE
  | IOSegREQ_E_R_ALLPL_DONE
  | IOSegREQ_E_W_RPhase_DONE
  | IOSegREQ_E_R_RPhase_DONE
  | IOSegREQ_E_MDUD_UNSYNC
  | IOSegREQ_E_ATrueMD_DONE

datatype IOSegREQ_FSM_action_t =
    IOSegREQ_A_START
  | IOSegREQ_A_NoAction
  | IOSegREQ_A_RetryTR
  | IOSegREQ_A_W_AcqMD
  | IOSegREQ_A_DO_WUD
  | IOSegREQ_A_R_AcqMD
  | IOSegREQ_A_DO_RUD
  | IOSegREQ_A_DO_ATrueMD_PROC
  | IOSegREQ_A_DO_ATrueMD_DONE
  | IOSegREQ_A_DO_CI2IOSegREQ
  | IOSegREQ_A_DO_CI2IOREQ
  | IOSegREQ_A_END

primrec IOSegREQ_FSM_action_t_val :: "IOSegREQ_FSM_action_t \<Rightarrow> nat" where
  "IOSegREQ_FSM_action_t_val IOSegREQ_A_START = 0"
| "IOSegREQ_FSM_action_t_val IOSegREQ_A_NoAction = 1"
| "IOSegREQ_FSM_action_t_val IOSegREQ_A_RetryTR = 2"
| "IOSegREQ_FSM_action_t_val IOSegREQ_A_W_AcqMD = 3"
| "IOSegREQ_FSM_action_t_val IOSegREQ_A_DO_WUD = 4"
| "IOSegREQ_FSM_action_t_val IOSegREQ_A_R_AcqMD = 5"
| "IOSegREQ_FSM_action_t_val IOSegREQ_A_DO_RUD = 6"
| "IOSegREQ_FSM_action_t_val IOSegREQ_A_DO_ATrueMD_PROC = 7"
| "IOSegREQ_FSM_action_t_val IOSegREQ_A_DO_ATrueMD_DONE = 8"
| "IOSegREQ_FSM_action_t_val IOSegREQ_A_DO_CI2IOSegREQ = 9"
| "IOSegREQ_FSM_action_t_val IOSegREQ_A_DO_CI2IOREQ = 10"
| "IOSegREQ_FSM_action_t_val IOSegREQ_A_END = 11"

lemma IOSegREQ_FSM_action_t_val_inj: "IOSegREQ_FSM_action_t_val s = IOSegREQ_FSM_action_t_val t \<Longrightarrow> s = t"
  by (cases s; cases t) simp_all

instantiation IOSegREQ_FSM_action_t :: linorder
begin
definition less_eq_IOSegREQ_FSM_action_t :: "IOSegREQ_FSM_action_t \<Rightarrow> IOSegREQ_FSM_action_t \<Rightarrow> bool" where
  "less_eq_IOSegREQ_FSM_action_t s t \<longleftrightarrow> IOSegREQ_FSM_action_t_val s \<le> IOSegREQ_FSM_action_t_val t"
definition less_IOSegREQ_FSM_action_t :: "IOSegREQ_FSM_action_t \<Rightarrow> IOSegREQ_FSM_action_t \<Rightarrow> bool" where
  "less_IOSegREQ_FSM_action_t s t \<longleftrightarrow> IOSegREQ_FSM_action_t_val s < IOSegREQ_FSM_action_t_val t"
instance
  by standard (auto simp: less_eq_IOSegREQ_FSM_action_t_def less_IOSegREQ_FSM_action_t_def intro: IOSegREQ_FSM_action_t_val_inj)
end

datatype IOSegREQ_FSM_state_t =
    IOSegREQ_S_START
  | IOSegREQ_S_INIT
  | IOSegREQ_S_W_AcqMD
  | IOSegREQ_S_WUD
  | IOSegREQ_S_R_AcqMD
  | IOSegREQ_S_RUD
  | IOSegREQ_S_ATrueMD_Proc
  | IOSegREQ_S_CI2IOSeg
  | IOSegREQ_S_CI2IOR
  | IOSegREQ_S_END

primrec IOSegREQ_FSM_state_t_val :: "IOSegREQ_FSM_state_t \<Rightarrow> nat" where
  "IOSegREQ_FSM_state_t_val IOSegREQ_S_START = 0"
| "IOSegREQ_FSM_state_t_val IOSegREQ_S_INIT = 1"
| "IOSegREQ_FSM_state_t_val IOSegREQ_S_W_AcqMD = 2"
| "IOSegREQ_FSM_state_t_val IOSegREQ_S_WUD = 3"
| "IOSegREQ_FSM_state_t_val IOSegREQ_S_R_AcqMD = 4"
| "IOSegREQ_FSM_state_t_val IOSegREQ_S_RUD = 5"
| "IOSegREQ_FSM_state_t_val IOSegREQ_S_ATrueMD_Proc = 6"
| "IOSegREQ_FSM_state_t_val IOSegREQ_S_CI2IOSeg = 7"
| "IOSegREQ_FSM_state_t_val IOSegREQ_S_CI2IOR = 8"
| "IOSegREQ_FSM_state_t_val IOSegREQ_S_END = 9"

lemma IOSegREQ_FSM_state_t_val_inj: "IOSegREQ_FSM_state_t_val s = IOSegREQ_FSM_state_t_val t \<Longrightarrow> s = t"
  by (cases s; cases t) simp_all

instantiation IOSegREQ_FSM_state_t :: linorder
begin
definition less_eq_IOSegREQ_FSM_state_t :: "IOSegREQ_FSM_state_t \<Rightarrow> IOSegREQ_FSM_state_t \<Rightarrow> bool" where
  "less_eq_IOSegREQ_FSM_state_t s t \<longleftrightarrow> IOSegREQ_FSM_state_t_val s \<le> IOSegREQ_FSM_state_t_val t"
definition less_IOSegREQ_FSM_state_t :: "IOSegREQ_FSM_state_t \<Rightarrow> IOSegREQ_FSM_state_t \<Rightarrow> bool" where
  "less_IOSegREQ_FSM_state_t s t \<longleftrightarrow> IOSegREQ_FSM_state_t_val s < IOSegREQ_FSM_state_t_val t"
instance
  by standard (auto simp: less_eq_IOSegREQ_FSM_state_t_def less_IOSegREQ_FSM_state_t_def intro: IOSegREQ_FSM_state_t_val_inj)
end

datatype IOSegREQ_ciFSM_state_t =
    IOSegREQ_CI_S_START
  | IOSegREQ_CI_S_INIT
  | IOSegREQ_CI_S_CI

record IOSegReq_fsm_t =
  st_ioSegReq :: IOSegREQ_FSM_state_t
  cist_ioSegReq :: IOSegREQ_ciFSM_state_t

definition update_ioSegReqState_Init :: "IOSegReq_fsm_t \<Rightarrow> IOSegREQ_FSM_TREvent_t \<Rightarrow> IOSegREQ_FSM_action_t \<times> IOSegReq_fsm_t" where
  [fsm_defs]: "update_ioSegReqState_Init myStat event =
     (case event of
        IOSegREQ_E_INIT_4KW \<Rightarrow> (IOSegREQ_A_W_AcqMD, myStat\<lparr>st_ioSegReq := IOSegREQ_S_W_AcqMD\<rparr>)
      | IOSegREQ_E_INIT_R \<Rightarrow> (IOSegREQ_A_R_AcqMD, myStat\<lparr>st_ioSegReq := IOSegREQ_S_R_AcqMD\<rparr>)
      | _ \<Rightarrow> (IOSegREQ_A_NoAction, myStat))"

definition update_ioSegReqState_WAcqMD :: "IOSegReq_fsm_t \<Rightarrow> IOSegREQ_FSM_TREvent_t \<Rightarrow> IOSegREQ_FSM_action_t \<times> IOSegReq_fsm_t" where
  [fsm_defs]: "update_ioSegReqState_WAcqMD myStat event =
     (case event of
        IOSegREQ_E_W_AcqMD_DONE \<Rightarrow> (IOSegREQ_A_DO_WUD, myStat\<lparr>st_ioSegReq := IOSegREQ_S_WUD\<rparr>)
      | _ \<Rightarrow> (IOSegREQ_A_NoAction, myStat))"

definition update_ioSegReqState_WriteUD :: "IOSegReq_fsm_t \<Rightarrow> IOSegREQ_FSM_TREvent_t \<Rightarrow> IOSegREQ_FSM_action_t \<times> IOSegReq_fsm_t" where
  [fsm_defs]: "update_ioSegReqState_WriteUD myStat event =
     (case event of
        IOSegREQ_E_W_ALLPL_DONE \<Rightarrow> (IOSegREQ_A_DO_CI2IOREQ, myStat\<lparr>st_ioSegReq := IOSegREQ_S_CI2IOR\<rparr>)
      | _ \<Rightarrow> (IOSegREQ_A_NoAction, myStat))"

definition update_ioSegReqState_RAcqMD :: "IOSegReq_fsm_t \<Rightarrow> IOSegREQ_FSM_TREvent_t \<Rightarrow> IOSegREQ_FSM_action_t \<times> IOSegReq_fsm_t" where
  [fsm_defs]: "update_ioSegReqState_RAcqMD myStat event =
     (case event of
        IOSegREQ_E_R_AcqMD_DONE \<Rightarrow> (IOSegREQ_A_DO_RUD, myStat\<lparr>st_ioSegReq := IOSegREQ_S_RUD\<rparr>)
      | _ \<Rightarrow> (IOSegREQ_A_NoAction, myStat))"

definition update_ioSegReqState_ReadUD :: "IOSegReq_fsm_t \<Rightarrow> IOSegREQ_FSM_TREvent_t \<Rightarrow> IOSegREQ_FSM_action_t \<times> IOSegReq_fsm_t" where
  [fsm_defs]: "update_ioSegReqState_ReadUD myStat event =
     (case event of
        IOSegREQ_E_R_ALLPL_DONE \<Rightarrow> (IOSegREQ_A_DO_CI2IOSegREQ, myStat\<lparr>st_ioSegReq := IOSegREQ_S_CI2IOSeg\<rparr>)
      | IOSegREQ_E_MDUD_UNSYNC \<Rightarrow> (IOSegREQ_A_DO_ATrueMD_PROC, myStat\<lparr>st_ioSegReq := IOSegREQ_S_ATrueMD_Proc\<rparr>)
      | _ \<Rightarrow> (IOSegREQ_A_NoAction, myStat))"

definition update_ioSegReqState_ProcAcqTMD :: "IOSegReq_fsm_t \<Rightarrow> IOSegREQ_FSM_TREvent_t \<Rightarrow> IOSegREQ_FSM_action_t \<times> IOSegReq_fsm_t" where
  [fsm_defs]: "update_ioSegReqState_ProcAcqTMD myStat event =
     (case event of
        IOSegREQ_E_R_ALLPL_DONE \<Rightarrow> (IOSegREQ_A_RetryTR, myStat)
      | IOSegREQ_E_MDUD_UNSYNC \<Rightarrow> (IOSegREQ_A_RetryTR, myStat)
      | IOSegREQ_E_ATrueMD_DONE \<Rightarrow> (IOSegREQ_A_DO_RUD, myStat\<lparr>st_ioSegReq := IOSegREQ_S_RUD\<rparr>)
      | _ \<Rightarrow> (IOSegREQ_A_NoAction, myStat))"

definition update_ioSegReqState_CIIOSeg :: "IOSegReq_fsm_t \<Rightarrow> IOSegREQ_FSM_TREvent_t \<Rightarrow> IOSegREQ_FSM_action_t \<times> IOSegReq_fsm_t" where
  [fsm_defs]: "update_ioSegReqState_CIIOSeg myStat event =
     (case event of
        IOSegREQ_E_W_RPhase_DONE \<Rightarrow> (IOSegREQ_A_W_AcqMD, myStat\<lparr>st_ioSegReq := IOSegREQ_S_W_AcqMD\<rparr>)
      | IOSegREQ_E_R_RPhase_DONE \<Rightarrow> (IOSegREQ_A_DO_CI2IOREQ, myStat\<lparr>st_ioSegReq := IOSegREQ_S_CI2IOR\<rparr>)
      | _ \<Rightarrow> (IOSegREQ_A_NoAction, myStat))"

definition update_ioSegReqState_CIIOR :: "IOSegReq_fsm_t \<Rightarrow> IOSegREQ_FSM_TREvent_t \<Rightarrow> IOSegREQ_FSM_action_t \<times> IOSegReq_fsm_t" where
  [fsm_defs]: "update_ioSegReqState_CIIOR myStat event = (IOSegREQ_A_NoAction, myStat)"

definition update_ioSegReqState_lockless :: "IOSegReq_fsm_t \<Rightarrow> IOSegREQ_FSM_TREvent_t \<Rightarrow> IOSegREQ_FSM_action_t \<times> IOSegReq_fsm_t" where
  [fsm_defs]: "update_ioSegReqState_lockless myStat event =
     (case st_ioSegReq myStat of
        IOSegREQ_S_INIT \<Rightarrow> update_ioSegReqState_Init myStat event
      | IOSegREQ_S_W_AcqMD \<Rightarrow> update_ioSegReqState_WAcqMD myStat event
      | IOSegREQ_S_WUD \<Rightarrow> update_ioSegReqState_WriteUD myStat event
      | IOSegREQ_S_R_AcqMD \<Rightarrow> update_ioSegReqState_RAcqMD myStat event
      | IOSegREQ_S_RUD \<Rightarrow> update_ioSegReqState_ReadUD myStat event
      | IOSegREQ_S_ATrueMD_Proc \<Rightarrow> update_ioSegReqState_ProcAcqTMD myStat event
      | IOSegREQ_S_CI2IOSeg \<Rightarrow> update_ioSegReqState_CIIOSeg myStat event
      | IOSegREQ_S_CI2IOR \<Rightarrow> update_ioSegReqState_CIIOR myStat event
      | _ \<Rightarrow> (IOSegREQ_A_NoAction, myStat))"

definition IOSegReq_update_state :: "IOSegReq_fsm_t \<Rightarrow> IOSegREQ_FSM_TREvent_t \<Rightarrow> IOSegREQ_FSM_action_t \<times> IOSegReq_fsm_t" where
  [fsm_defs]: "IOSegReq_update_state stat event = update_ioSegReqState_lockless stat event"

definition ioSegReqStat_str :: "string list" where
  "ioSegReqStat_str =
     [''IOSegS unknown'',
      ''IOSegS init'',
      ''IOSegS Acquire MD Write'',
      ''IOSegS Write User Data'',
      ''IOSegS Acquire MD Read'',
      ''IOSegS Read User Data'',
      ''IOSegS Process Acquire TrueMD'',
      ''IOSegS CI IOSeg'',
      ''IOSegS CI IOReq'',
      ''IOSegS unknown'']"

definition ioSegReqAction_str :: "string list" where
  "ioSegReqAction_str =
     [''IOSegA Unknown'',
      ''IOSegA No action'',
      ''IOSegA Retry TR'',
      ''IOSegA Acquire MD Write'',
      ''IOSegA Write User Data'',
      ''IOSegA Acquire MD Read'',
      ''IOSegA Read User Data'',
      ''IOSReqA Process Acquire TrueMD'',
      ''IOSegA Process Acquire TrueMD DONE'',
      ''IOSegA CI IOSegReq'',
      ''IOSegA CI IOReq'',
      ''IOSegA Unknown'']"

definition IOSegReq_get_action_str :: "IOSegREQ_FSM_action_t \<Rightarrow> string" where
  "IOSegReq_get_action_str action =
     (if action > IOSegREQ_A_START \<and> action < IOSegREQ_A_END then ioSegReqAction_str ! IOSegREQ_FSM_action_t_val action
      else ioSegReqAction_str ! IOSegREQ_FSM_action_t_val IOSegREQ_A_END)"

definition IOSegReq_get_state :: "IOSegReq_fsm_t \<Rightarrow> IOSegREQ_FSM_state_t" where
  "IOSegReq_get_state stat = st_ioSegReq stat"

definition IOSegReq_get_state_fsm_str :: "IOSegReq_fsm_t \<Rightarrow> string" where
  "IOSegReq_get_state_fsm_str stat =
     (let myStat = IOSegReq_get_state stat in
      if myStat > IOSegREQ_S_START \<and> myStat < IOSegREQ_S_END then ioSegReqStat_str ! IOSegREQ_FSM_state_t_val myStat
      else ioSegReqStat_str ! IOSegREQ_FSM_state_t_val IOSegREQ_S_END)"

definition IOSegReq_init_fsm :: "IOSegReq_fsm_t \<Rightarrow> IOSegReq_fsm_t" where
  "IOSegReq_init_fsm stat =
     stat\<lparr>st_ioSegReq := IOSegREQ_S_INIT, cist_ioSegReq := IOSegREQ_CI_S_INIT\<rparr>"

subsection \<open>Contracts of the two machines\<close>

definition ioReq_stage :: "IOReq_fsm_t \<Rightarrow> nat" where
  "ioReq_stage s = (case st_ioReq s of
      IOREQ_S_RWUserData \<Rightarrow> 1 | IOREQ_S_ReportMD \<Rightarrow> 2 | IOREQ_S_SelfHealing \<Rightarrow> 3
    | IOREQ_S_ReqDone \<Rightarrow> 4 | _ \<Rightarrow> 0)"

abbreviation ioReq_pipeline :: "IOR_FSM_action_t list" where
  "ioReq_pipeline \<equiv> [IOREQ_A_SubmitIO, IOREQ_A_DO_ReportMD, IOREQ_A_DO_Healing, IOREQ_A_FreeReq]"

text \<open>Submission, metadata report, healing and release form a pipeline.\<close>

interpretation ioReq_pipe: fsm_pipeline IOReq_update_state ioReq_stage ioReq_pipeline
proof unfold_locales
  fix s e
  show "ioReq_stage s \<le> length ioReq_pipeline"
    by (cases "st_ioReq s") (simp_all add: ioReq_stage_def)
  show "(ioReq_stage (snd (IOReq_update_state s e)) = ioReq_stage s \<and>
          fst (IOReq_update_state s e) \<notin> set ioReq_pipeline) \<or>
        (ioReq_stage s < length ioReq_pipeline \<and>
          fst (IOReq_update_state s e) = ioReq_pipeline ! ioReq_stage s \<and>
          ioReq_stage (snd (IOReq_update_state s e)) = Suc (ioReq_stage s))"
    by (cases "st_ioReq s"; cases e) (simp_all add: fsm_defs ioReq_stage_def)
qed simp_all

definition ioSegReq_wf :: "IOSegReq_fsm_t \<Rightarrow> bool" where
  "ioSegReq_wf s \<longleftrightarrow> st_ioSegReq s \<notin> {IOSegREQ_S_START, IOSegREQ_S_END}"

definition ioSegReq_finish :: "IOSegReq_fsm_t \<Rightarrow> IOSegREQ_FSM_TREvent_t list" where
  "ioSegReq_finish s = (case st_ioSegReq s of
      IOSegREQ_S_INIT \<Rightarrow> [IOSegREQ_E_INIT_4KW, IOSegREQ_E_W_AcqMD_DONE, IOSegREQ_E_W_ALLPL_DONE]
    | IOSegREQ_S_W_AcqMD \<Rightarrow> [IOSegREQ_E_W_AcqMD_DONE, IOSegREQ_E_W_ALLPL_DONE]
    | IOSegREQ_S_WUD \<Rightarrow> [IOSegREQ_E_W_ALLPL_DONE]
    | IOSegREQ_S_R_AcqMD \<Rightarrow> [IOSegREQ_E_R_AcqMD_DONE, IOSegREQ_E_R_ALLPL_DONE, IOSegREQ_E_R_RPhase_DONE]
    | IOSegREQ_S_RUD \<Rightarrow> [IOSegREQ_E_R_ALLPL_DONE, IOSegREQ_E_R_RPhase_DONE]
    | IOSegREQ_S_ATrueMD_Proc \<Rightarrow> [IOSegREQ_E_ATrueMD_DONE, IOSegREQ_E_R_ALLPL_DONE, IOSegREQ_E_R_RPhase_DONE]
    | IOSegREQ_S_CI2IOSeg \<Rightarrow> [IOSegREQ_E_R_RPhase_DONE]
    | _ \<Rightarrow> [])"

text \<open>A segment commits to its I/O request at most once, and can always be driven there.\<close>

interpretation ioSegReq_commit: fsm_live IOSegReq_update_state
    "\<lambda>e a. a = IOSegREQ_A_DO_CI2IOREQ" "\<lambda>s. st_ioSegReq s = IOSegREQ_S_CI2IOR"
    ioSegReq_wf ioSegReq_finish
proof unfold_locales
  fix s e
  show "st_ioSegReq (snd (IOSegReq_update_state s e)) = IOSegREQ_S_CI2IOR"
    if "fst (IOSegReq_update_state s e) = IOSegREQ_A_DO_CI2IOREQ"
    using that by (cases "st_ioSegReq s"; cases e) (simp_all add: fsm_defs)
  show "st_ioSegReq (snd (IOSegReq_update_state s e)) = IOSegREQ_S_CI2IOR"
      "fst (IOSegReq_update_state s e) \<noteq> IOSegREQ_A_DO_CI2IOREQ"
    if "st_ioSegReq s = IOSegREQ_S_CI2IOR"
    using that by (simp_all add: fsm_defs)
  show "ioSegReq_wf (snd (IOSegReq_update_state s e))" if "ioSegReq_wf s"
    using that by (cases "st_ioSegReq s"; cases e) (simp_all add: fsm_defs ioSegReq_wf_def)
  show "st_ioSegReq (fsm_final IOSegReq_update_state s (ioSegReq_finish s)) = IOSegREQ_S_CI2IOR"
    if "ioSegReq_wf s"
    using that by (cases "st_ioSegReq s") (simp_all add: fsm_defs ioSegReq_wf_def ioSegReq_finish_def Let_def)
qed

text \<open>User data is written only with the write metadata of this attempt, and read only with
  metadata acquired for this attempt.\<close>

interpretation ioSegReq_write: fsm_token IOSegReq_update_state
    "\<lambda>a. a = IOSegREQ_A_W_AcqMD" "\<lambda>a. a = IOSegREQ_A_DO_WUD" "\<lambda>s. st_ioSegReq s = IOSegREQ_S_W_AcqMD"
proof unfold_locales
  fix s e
  show "fst (IOSegReq_update_state s e) \<noteq> IOSegREQ_A_DO_WUD \<and> st_ioSegReq s \<noteq> IOSegREQ_S_W_AcqMD \<and>
      st_ioSegReq (snd (IOSegReq_update_state s e)) = IOSegREQ_S_W_AcqMD"
    if "fst (IOSegReq_update_state s e) = IOSegREQ_A_W_AcqMD"
    using that by (cases "st_ioSegReq s"; cases e) (simp_all add: fsm_defs)
  show "st_ioSegReq s = IOSegREQ_S_W_AcqMD \<and> st_ioSegReq (snd (IOSegReq_update_state s e)) \<noteq> IOSegREQ_S_W_AcqMD"
    if "fst (IOSegReq_update_state s e) = IOSegREQ_A_DO_WUD"
    using that by (cases "st_ioSegReq s"; cases e) (simp_all add: fsm_defs)
  show "st_ioSegReq s = IOSegREQ_S_W_AcqMD"
    if "fst (IOSegReq_update_state s e) \<noteq> IOSegREQ_A_W_AcqMD"
      "st_ioSegReq (snd (IOSegReq_update_state s e)) = IOSegREQ_S_W_AcqMD"
    using that by (cases "st_ioSegReq s"; cases e) (simp_all add: fsm_defs)
qed

definition ioSegReq_read_md :: "IOSegReq_fsm_t \<Rightarrow> bool" where
  "ioSegReq_read_md s \<longleftrightarrow> st_ioSegReq s \<in> {IOSegREQ_S_R_AcqMD, IOSegREQ_S_ATrueMD_Proc}"

interpretation ioSegReq_read: fsm_token IOSegReq_update_state
    "\<lambda>a. a = IOSegREQ_A_R_AcqMD \<or> a = IOSegREQ_A_DO_ATrueMD_PROC" "\<lambda>a. a = IOSegREQ_A_DO_RUD" ioSegReq_read_md
proof unfold_locales
  fix s e
  show "fst (IOSegReq_update_state s e) \<noteq> IOSegREQ_A_DO_RUD \<and> \<not> ioSegReq_read_md s \<and>
      ioSegReq_read_md (snd (IOSegReq_update_state s e))"
    if "fst (IOSegReq_update_state s e) = IOSegREQ_A_R_AcqMD \<or>
        fst (IOSegReq_update_state s e) = IOSegREQ_A_DO_ATrueMD_PROC"
    using that by (cases "st_ioSegReq s"; cases e) (simp_all add: fsm_defs ioSegReq_read_md_def)
  show "ioSegReq_read_md s \<and> \<not> ioSegReq_read_md (snd (IOSegReq_update_state s e))"
    if "fst (IOSegReq_update_state s e) = IOSegREQ_A_DO_RUD"
    using that by (cases "st_ioSegReq s"; cases e) (simp_all add: fsm_defs ioSegReq_read_md_def)
  show "ioSegReq_read_md s"
    if "\<not> (fst (IOSegReq_update_state s e) = IOSegREQ_A_R_AcqMD \<or>
           fst (IOSegReq_update_state s e) = IOSegREQ_A_DO_ATrueMD_PROC)"
      "ioSegReq_read_md (snd (IOSegReq_update_state s e))"
    using that by (cases "st_ioSegReq s"; cases e) (simp_all add: fsm_defs ioSegReq_read_md_def)
qed

subsection \<open>Properties\<close>

text \<open>(C30) However the callers of an I/O request interleave, the permissions to submit the I/O, to report its
  metadata, to heal it and to free it are handed out at most once each and in this order: the ones
  handed out form the prefix of that pipeline given by the state the request is in.\<close>

theorem ioReq_pipeline_in_order:
  "filter (\<lambda>a. a \<in> {IOREQ_A_SubmitIO, IOREQ_A_DO_ReportMD, IOREQ_A_DO_Healing, IOREQ_A_FreeReq})
     (map snd (fsm_trace IOReq_update_state (IOReq_init_fsm s) es))
   = take (ioReq_stage (fsm_final IOReq_update_state (IOReq_init_fsm s) es))
       [IOREQ_A_SubmitIO, IOREQ_A_DO_ReportMD, IOREQ_A_DO_Healing, IOREQ_A_FreeReq]"
proof -
  have "ioReq_stage (IOReq_init_fsm s) = 0" by (simp add: ioReq_stage_def IOReq_init_fsm_def)
  from ioReq_pipe.pipeline_order [OF this, of es] show ?thesis by simp
qed

text \<open>(C34) A segment request commits to its I/O request at most once in any run, and from every point of any
  run it can still be driven to that commit: no interleaving of events leaves it stuck.\<close>

theorem ioSegReq_commits_once:
  "count_if (\<lambda>(e, a). a = IOSegREQ_A_DO_CI2IOREQ)
     (fsm_trace IOSegReq_update_state (IOSegReq_init_fsm s) es) \<le> 1 \<and>
   st_ioSegReq (fsm_final IOSegReq_update_state (IOSegReq_init_fsm s)
     (es @ ioSegReq_finish (fsm_final IOSegReq_update_state (IOSegReq_init_fsm s) es))) = IOSegREQ_S_CI2IOR"
proof
  have "ioSegReq_wf (IOSegReq_init_fsm s)" by (simp add: ioSegReq_wf_def IOSegReq_init_fsm_def)
  then show "st_ioSegReq (fsm_final IOSegReq_update_state (IOSegReq_init_fsm s)
     (es @ ioSegReq_finish (fsm_final IOSegReq_update_state (IOSegReq_init_fsm s) es))) = IOSegREQ_S_CI2IOR"
    by (rule ioSegReq_commit.can_finish)
qed (rule ioSegReq_commit.granted_at_most_once)

text \<open>(C35) At every moment of every run of a segment request, the permissions to write user data handed out so
  far are covered one-to-one by earlier write-metadata acquisitions, and those to read user data by
  earlier read- or true-metadata acquisitions.\<close>

theorem ioSegReq_data_after_metadata:
  "count_if (\<lambda>(e, a). a = IOSegREQ_A_DO_WUD)
     (take n (fsm_trace IOSegReq_update_state (IOSegReq_init_fsm s) es))
   \<le> count_if (\<lambda>(e, a). a = IOSegREQ_A_W_AcqMD)
     (take n (fsm_trace IOSegReq_update_state (IOSegReq_init_fsm s) es)) \<and>
   count_if (\<lambda>(e, a). a = IOSegREQ_A_DO_RUD)
     (take n (fsm_trace IOSegReq_update_state (IOSegReq_init_fsm s) es))
   \<le> count_if (\<lambda>(e, a). a = IOSegREQ_A_R_AcqMD \<or> a = IOSegREQ_A_DO_ATrueMD_PROC)
     (take n (fsm_trace IOSegReq_update_state (IOSegReq_init_fsm s) es))"
proof
  show "count_if (\<lambda>(e, a). a = IOSegREQ_A_DO_WUD)
     (take n (fsm_trace IOSegReq_update_state (IOSegReq_init_fsm s) es))
   \<le> count_if (\<lambda>(e, a). a = IOSegREQ_A_W_AcqMD)
     (take n (fsm_trace IOSegReq_update_state (IOSegReq_init_fsm s) es))"
    by (rule ioSegReq_write.spend_le_gain_always) (simp add: IOSegReq_init_fsm_def)
  show "count_if (\<lambda>(e, a). a = IOSegREQ_A_DO_RUD)
     (take n (fsm_trace IOSegReq_update_state (IOSegReq_init_fsm s) es))
   \<le> count_if (\<lambda>(e, a). a = IOSegREQ_A_R_AcqMD \<or> a = IOSegREQ_A_DO_ATrueMD_PROC)
     (take n (fsm_trace IOSegReq_update_state (IOSegReq_init_fsm s) es))"
    by (rule ioSegReq_read.spend_le_gain_always) (simp add: IOSegReq_init_fsm_def ioSegReq_read_md_def)
qed

end
