(* ===== verification/Dn_Fsm.thy ===== *)
theory Dn_Fsm
  imports Fsm_Spec
begin

text \<open>
  The state machine of a datanode user-data request (\<^verbatim>\<open>discoDN_client/discoC_DNUDReq_fsm.c\<close>).
  The socket sender, the ack receiver, the housekeeping thread (reconnect) and the payload manager
  (cancel) compete for the request; the machine decides who may queue, send, process or cancel it.
\<close>

datatype DNUDREQ_FSM_TREvent_t =
    DNREQ_E_InitDone
  | DNREQ_E_PeekWorkQ
  | DNREQ_E_SendDone
  | DNREQ_E_FindReqOK_MemAck
  | DNREQ_E_FindReqOK
  | DNREQ_E_ConnBack
  | DNREQ_E_RetryChkDone
  | DNREQ_E_Cancel

datatype DNUDREQ_FSM_action_t =
    DNREQ_A_START
  | DNREQ_A_NoAction
  | DNREQ_A_DO_ADD_WORKQ
  | DNREQ_A_DO_SEND
  | DNREQ_A_DO_WAIT_RESP
  | DNREQ_A_DO_PROCESS_RESP
  | DNREQ_A_DO_RETRY_REQ
  | DNREQ_A_DO_CANCEL_REQ
  | DNREQ_A_DO_RETRY_CANCEL_REQ
  | DNREQ_A_END

primrec DNUDREQ_FSM_action_t_val :: "DNUDREQ_FSM_action_t \<Rightarrow> nat" where
  "DNUDREQ_FSM_action_t_val DNREQ_A_START = 0"
| "DNUDREQ_FSM_action_t_val DNREQ_A_NoAction = 1"
| "DNUDREQ_FSM_action_t_val DNREQ_A_DO_ADD_WORKQ = 2"
| "DNUDREQ_FSM_action_t_val DNREQ_A_DO_SEND = 3"
| "DNUDREQ_FSM_action_t_val DNREQ_A_DO_WAIT_RESP = 4"
| "DNUDREQ_FSM_action_t_val DNREQ_A_DO_PROCESS_RESP = 5"
| "DNUDREQ_FSM_action_t_val DNREQ_A_DO_RETRY_REQ = 6"
| "DNUDREQ_FSM_action_t_val DNREQ_A_DO_CANCEL_REQ = 7"
| "DNUDREQ_FSM_action_t_val DNREQ_A_DO_RETRY_CANCEL_REQ = 8"
| "DNUDREQ_FSM_action_t_val DNREQ_A_END = 9"

lemma DNUDREQ_FSM_action_t_val_inj: "DNUDREQ_FSM_action_t_val s = DNUDREQ_FSM_action_t_val t \<Longrightarrow> s = t"
  by (cases s; cases t) simp_all

instantiation DNUDREQ_FSM_action_t :: linorder
begin
definition less_eq_DNUDREQ_FSM_action_t :: "DNUDREQ_FSM_action_t \<Rightarrow> DNUDREQ_FSM_action_t \<Rightarrow> bool" where
  "less_eq_DNUDREQ_FSM_action_t s t \<longleftrightarrow> DNUDREQ_FSM_action_t_val s \<le> DNUDREQ_FSM_action_t_val t"
definition less_DNUDREQ_FSM_action_t :: "DNUDREQ_FSM_action_t \<Rightarrow> DNUDREQ_FSM_action_t \<Rightarrow> bool" where
  "less_DNUDREQ_FSM_action_t s t \<longleftrightarrow> DNUDREQ_FSM_action_t_val s < DNUDREQ_FSM_action_t_val t"
instance
  by standard (auto simp: less_eq_DNUDREQ_FSM_action_t_def less_DNUDREQ_FSM_action_t_def intro: DNUDREQ_FSM_action_t_val_inj)
end

datatype DNUDREQ_FSM_state_t =
    DNREQ_S_START
  | DNREQ_S_INIT
  | DNREQ_S_WAIT_SEND
  | DNREQ_S_SENDING
  | DNREQ_S_WAIT_RESP
  | DNREQ_S_PROCESS_RESP
  | DNREQ_S_RETRY_REQ
  | DNREQ_S_CANCEL_REQ
  | DNREQ_S_END

primrec DNUDREQ_FSM_state_t_val :: "DNUDREQ_FSM_state_t \<Rightarrow> nat" where
  "DNUDREQ_FSM_state_t_val DNREQ_S_START = 0"
| "DNUDREQ_FSM_state_t_val DNREQ_S_INIT = 1"
| "DNUDREQ_FSM_state_t_val DNREQ_S_WAIT_SEND = 2"
| "DNUDREQ_FSM_state_t_val DNREQ_S_SENDING = 3"
| "DNUDREQ_FSM_state_t_val DNREQ_S_WAIT_RESP = 4"
| "DNUDREQ_FSM_state_t_val DNREQ_S_PROCESS_RESP = 5"
| "DNUDREQ_FSM_state_t_val DNREQ_S_RETRY_REQ = 6"
| "DNUDREQ_FSM_state_t_val DNREQ_S_CANCEL_REQ = 7"
| "DNUDREQ_FSM_state_t_val DNREQ_S_END = 8"

lemma DNUDREQ_FSM_state_t_val_inj: "DNUDREQ_FSM_state_t_val s = DNUDREQ_FSM_state_t_val t \<Longrightarrow> s = t"
  by (cases s; cases t) simp_all

instantiation DNUDREQ_FSM_state_t :: linorder
begin
definition less_eq_DNUDREQ_FSM_state_t :: "DNUDREQ_FSM_state_t \<Rightarrow> DNUDREQ_FSM_state_t \<Rightarrow> bool" where
  "less_eq_DNUDREQ_FSM_state_t s t \<longleftrightarrow> DNUDREQ_FSM_state_t_val s \<le> DNUDREQ_FSM_state_t_val t"
definition less_DNUDREQ_FSM_state_t :: "DNUDREQ_FSM_state_t \<Rightarrow> DNUDREQ_FSM_state_t \<Rightarrow> bool" where
  "less_DNUDREQ_FSM_state_t s t \<longleftrightarrow> DNUDREQ_FSM_state_t_val s < DNUDREQ_FSM_state_t_val t"
instance
  by standard (auto simp: less_eq_DNUDREQ_FSM_state_t_def less_DNUDREQ_FSM_state_t_def intro: DNUDREQ_FSM_state_t_val_inj)
end

record DNUDReq_fsm_t =
  st_dnReq :: DNUDREQ_FSM_state_t

definition update_dnReqS_Init :: "DNUDReq_fsm_t \<Rightarrow> DNUDREQ_FSM_TREvent_t \<Rightarrow> DNUDREQ_FSM_action_t \<times> DNUDReq_fsm_t" where
  [fsm_defs]: "update_dnReqS_Init myStat event =
     (case event of
        DNREQ_E_InitDone \<Rightarrow> (DNREQ_A_DO_ADD_WORKQ, myStat\<lparr>st_dnReq := DNREQ_S_WAIT_SEND\<rparr>)
      | _ \<Rightarrow> (DNREQ_A_NoAction, myStat))"

definition update_dnReqS_WaitSend :: "DNUDReq_fsm_t \<Rightarrow> DNUDREQ_FSM_TREvent_t \<Rightarrow> DNUDREQ_FSM_action_t \<times> DNUDReq_fsm_t" where
  [fsm_defs]: "update_dnReqS_WaitSend myStat event =
     (case event of
        DNREQ_E_PeekWorkQ \<Rightarrow> (DNREQ_A_DO_SEND, myStat\<lparr>st_dnReq := DNREQ_S_SENDING\<rparr>)
      | DNREQ_E_Cancel \<Rightarrow> (DNREQ_A_DO_CANCEL_REQ, myStat\<lparr>st_dnReq := DNREQ_S_CANCEL_REQ\<rparr>)
      | _ \<Rightarrow> (DNREQ_A_NoAction, myStat))"

definition update_dnReqS_Sending :: "DNUDReq_fsm_t \<Rightarrow> DNUDREQ_FSM_TREvent_t \<Rightarrow> DNUDREQ_FSM_action_t \<times> DNUDReq_fsm_t" where
  [fsm_defs]: "update_dnReqS_Sending myStat event =
     (case event of
        DNREQ_E_SendDone \<Rightarrow> (DNREQ_A_DO_WAIT_RESP, myStat\<lparr>st_dnReq := DNREQ_S_WAIT_RESP\<rparr>)
      | DNREQ_E_Cancel \<Rightarrow> (DNREQ_A_DO_CANCEL_REQ, myStat\<lparr>st_dnReq := DNREQ_S_CANCEL_REQ\<rparr>)
      | _ \<Rightarrow> (DNREQ_A_NoAction, myStat))"

definition update_dnReqS_WaitResp :: "DNUDReq_fsm_t \<Rightarrow> DNUDREQ_FSM_TREvent_t \<Rightarrow> DNUDREQ_FSM_action_t \<times> DNUDReq_fsm_t" where
  [fsm_defs]: "update_dnReqS_WaitResp myStat event =
     (case event of
        DNREQ_E_FindReqOK_MemAck \<Rightarrow> (DNREQ_A_DO_PROCESS_RESP, myStat)
      | DNREQ_E_FindReqOK \<Rightarrow> (DNREQ_A_DO_PROCESS_RESP, myStat\<lparr>st_dnReq := DNREQ_S_PROCESS_RESP\<rparr>)
      | DNREQ_E_ConnBack \<Rightarrow> (DNREQ_A_DO_RETRY_REQ, myStat\<lparr>st_dnReq := DNREQ_S_RETRY_REQ\<rparr>)
      | DNREQ_E_Cancel \<Rightarrow> (DNREQ_A_DO_CANCEL_REQ, myStat\<lparr>st_dnReq := DNREQ_S_CANCEL_REQ\<rparr>)
      | _ \<Rightarrow> (DNREQ_A_NoAction, myStat))"

definition update_dnReqS_PResp :: "DNUDReq_fsm_t \<Rightarrow> DNUDREQ_FSM_TREvent_t \<Rightarrow> DNUDREQ_FSM_action_t \<times> DNUDReq_fsm_t" where
  [fsm_defs]: "update_dnReqS_PResp myStat event = (DNREQ_A_NoAction, myStat)"

definition update_dnReqS_Retry :: "DNUDReq_fsm_t \<Rightarrow> DNUDREQ_FSM_TREvent_t \<Rightarrow> DNUDREQ_FSM_action_t \<times> DNUDReq_fsm_t" where
  [fsm_defs]: "update_dnReqS_Retry myStat event =
     (case event of
        DNREQ_E_RetryChkDone \<Rightarrow> (DNREQ_A_DO_ADD_WORKQ, myStat\<lparr>st_dnReq := DNREQ_S_WAIT_SEND\<rparr>)
      | DNREQ_E_Cancel \<Rightarrow> (DNREQ_A_DO_RETRY_CANCEL_REQ, myStat\<lparr>st_dnReq := DNREQ_S_CANCEL_REQ\<rparr>)
      | _ \<Rightarrow> (DNREQ_A_NoAction, myStat))"

definition update_dnReqS_Cancel :: "DNUDReq_fsm_t \<Rightarrow> DNUDREQ_FSM_TREvent_t \<Rightarrow> DNUDREQ_FSM_action_t \<times> DNUDReq_fsm_t" where
  [fsm_defs]: "update_dnReqS_Cancel myStat event = (DNREQ_A_NoAction, myStat)"

definition update_dnReqState_lockless :: "DNUDReq_fsm_t \<Rightarrow> DNUDREQ_FSM_TREvent_t \<Rightarrow> DNUDREQ_FSM_action_t \<times> DNUDReq_fsm_t" where
  [fsm_defs]: "update_dnReqState_lockless myStat event =
     (case st_dnReq myStat of
        DNREQ_S_INIT \<Rightarrow> update_dnReqS_Init myStat event
      | DNREQ_S_WAIT_SEND \<Rightarrow> update_dnReqS_WaitSend myStat event
      | DNREQ_S_SENDING \<Rightarrow> update_dnReqS_Sending myStat event
      | DNREQ_S_WAIT_RESP \<Rightarrow> update_dnReqS_WaitResp myStat event
      | DNREQ_S_PROCESS_RESP \<Rightarrow> update_dnReqS_PResp myStat event
      | DNREQ_S_RETRY_REQ \<Rightarrow> update_dnReqS_Retry myStat event
      | DNREQ_S_CANCEL_REQ \<Rightarrow> update_dnReqS_Cancel myStat event
      | _ \<Rightarrow> (DNREQ_A_NoAction, myStat))"

definition DNUDReq_update_state :: "DNUDReq_fsm_t \<Rightarrow> DNUDREQ_FSM_TREvent_t \<Rightarrow> DNUDREQ_FSM_action_t \<times> DNUDReq_fsm_t" where
  [fsm_defs]: "DNUDReq_update_state stat event = update_dnReqState_lockless stat event"

definition dnReqStat_str :: "string list" where
  "dnReqStat_str =
     [''DNReq unknown'',
      ''DNReq init'',
      ''DNReq wait_send'',
      ''DNReq sending'',
      ''DNReq wait_resp'',
      ''DNReq process_resp'',
      ''DNReq retry_req'',
      ''DNReq cancel_req'',
      ''DNReq unknown'']"

definition dnReqAction_str :: "string list" where
  "dnReqAction_str =
     [''DNReq Unknown'',
      ''DNReq No action'',
      ''DNReq Do Add WorkerQ'',
      ''DNReq Do Send Req'',
      ''DNReq Do Wait Resp'',
      ''DNReq Process Resp'',
      ''DBReq Do retry req'',
      ''DNReq Cancel Req'',
      ''DNReq Retry Cancel Req'',
      ''DNReq Unknown'']"

definition DNUDReq_get_action_str :: "DNUDREQ_FSM_action_t \<Rightarrow> string" where
  "DNUDReq_get_action_str action =
     (if action > DNREQ_A_START \<and> action < DNREQ_A_END then dnReqAction_str ! DNUDREQ_FSM_action_t_val action
      else dnReqAction_str ! DNUDREQ_FSM_action_t_val DNREQ_A_END)"

definition DNUDReq_get_state :: "DNUDReq_fsm_t \<Rightarrow> DNUDREQ_FSM_state_t" where
  "DNUDReq_get_state stat = st_dnReq stat"

definition DNUDReq_get_state_str :: "DNUDReq_fsm_t \<Rightarrow> string" where
  "DNUDReq_get_state_str stat =
     (let myStat = DNUDReq_get_state stat in
      if myStat > DNREQ_S_START \<and> myStat < DNREQ_S_END then dnReqStat_str ! DNUDREQ_FSM_state_t_val myStat
      else dnReqStat_str ! DNUDREQ_FSM_state_t_val DNREQ_S_END)"

definition DNUDReq_init_fsm :: "DNUDReq_fsm_t \<Rightarrow> DNUDReq_fsm_t" where
  "DNUDReq_init_fsm stat = stat\<lparr>st_dnReq := DNREQ_S_INIT\<rparr>"

subsection \<open>Contracts\<close>

text \<open>The final response (not a memory ack) and the cancellation: the two ways a request ends.\<close>

definition dnReq_ends :: "DNUDREQ_FSM_TREvent_t \<Rightarrow> DNUDREQ_FSM_action_t \<Rightarrow> bool" where
  "dnReq_ends e a \<longleftrightarrow> (a = DNREQ_A_DO_PROCESS_RESP \<and> e = DNREQ_E_FindReqOK) \<or>
     a = DNREQ_A_DO_CANCEL_REQ \<or> a = DNREQ_A_DO_RETRY_CANCEL_REQ"

definition dnReq_closed :: "DNUDReq_fsm_t \<Rightarrow> bool" where
  "dnReq_closed s \<longleftrightarrow> st_dnReq s \<in> {DNREQ_S_PROCESS_RESP, DNREQ_S_CANCEL_REQ}"

definition dnReq_wf :: "DNUDReq_fsm_t \<Rightarrow> bool" where
  "dnReq_wf s \<longleftrightarrow> st_dnReq s \<notin> {DNREQ_S_START, DNREQ_S_END}"

definition dnReq_finish :: "DNUDReq_fsm_t \<Rightarrow> DNUDREQ_FSM_TREvent_t list" where
  "dnReq_finish s = (case st_dnReq s of
      DNREQ_S_INIT \<Rightarrow> [DNREQ_E_InitDone, DNREQ_E_PeekWorkQ, DNREQ_E_SendDone, DNREQ_E_FindReqOK]
    | DNREQ_S_WAIT_SEND \<Rightarrow> [DNREQ_E_PeekWorkQ, DNREQ_E_SendDone, DNREQ_E_FindReqOK]
    | DNREQ_S_SENDING \<Rightarrow> [DNREQ_E_SendDone, DNREQ_E_FindReqOK]
    | DNREQ_S_WAIT_RESP \<Rightarrow> [DNREQ_E_FindReqOK]
    | DNREQ_S_RETRY_REQ \<Rightarrow> [DNREQ_E_RetryChkDone, DNREQ_E_PeekWorkQ, DNREQ_E_SendDone, DNREQ_E_FindReqOK]
    | _ \<Rightarrow> [])"

lemmas dnReq_contract_defs = dnReq_ends_def dnReq_closed_def dnReq_wf_def dnReq_finish_def

interpretation dnReq_end: fsm_live DNUDReq_update_state dnReq_ends dnReq_closed dnReq_wf dnReq_finish
proof unfold_locales
  fix s e
  show "dnReq_closed (snd (DNUDReq_update_state s e))" if "dnReq_ends e (fst (DNUDReq_update_state s e))"
    using that by (cases "st_dnReq s"; cases e) (simp_all add: fsm_defs dnReq_contract_defs)
  show "dnReq_closed (snd (DNUDReq_update_state s e))" if "dnReq_closed s"
    using that by (cases "st_dnReq s") (simp_all add: fsm_defs dnReq_contract_defs)
  show "\<not> dnReq_ends e (fst (DNUDReq_update_state s e))" if "dnReq_closed s"
    using that by (cases "st_dnReq s") (simp_all add: fsm_defs dnReq_contract_defs)
  show "dnReq_wf (snd (DNUDReq_update_state s e))" if "dnReq_wf s"
    using that by (cases "st_dnReq s"; cases e) (simp_all add: fsm_defs dnReq_contract_defs)
  show "dnReq_closed (fsm_final DNUDReq_update_state s (dnReq_finish s))" if "dnReq_wf s"
    using that by (cases "st_dnReq s") (simp_all add: fsm_defs dnReq_contract_defs Let_def)
qed

text \<open>A request is sent once for every time it was put into the sender's queue.\<close>

interpretation dnReq_send: fsm_token DNUDReq_update_state
    "\<lambda>a. a = DNREQ_A_DO_ADD_WORKQ" "\<lambda>a. a = DNREQ_A_DO_SEND" "\<lambda>s. st_dnReq s = DNREQ_S_WAIT_SEND"
proof unfold_locales
  fix s e
  show "fst (DNUDReq_update_state s e) \<noteq> DNREQ_A_DO_SEND \<and> st_dnReq s \<noteq> DNREQ_S_WAIT_SEND \<and>
      st_dnReq (snd (DNUDReq_update_state s e)) = DNREQ_S_WAIT_SEND"
    if "fst (DNUDReq_update_state s e) = DNREQ_A_DO_ADD_WORKQ"
    using that by (cases "st_dnReq s"; cases e) (simp_all add: fsm_defs)
  show "st_dnReq s = DNREQ_S_WAIT_SEND \<and> st_dnReq (snd (DNUDReq_update_state s e)) \<noteq> DNREQ_S_WAIT_SEND"
    if "fst (DNUDReq_update_state s e) = DNREQ_A_DO_SEND"
    using that by (cases "st_dnReq s"; cases e) (simp_all add: fsm_defs)
  show "st_dnReq s = DNREQ_S_WAIT_SEND"
    if "fst (DNUDReq_update_state s e) \<noteq> DNREQ_A_DO_ADD_WORKQ"
      "st_dnReq (snd (DNUDReq_update_state s e)) = DNREQ_S_WAIT_SEND"
    using that by (cases "st_dnReq s"; cases e) (simp_all add: fsm_defs)
qed

text \<open>Whatever happened before, nobody is told to process a response of a closed request.\<close>

lemma dnReq_closed_silent:
  assumes "dnReq_closed s"
  shows "DNUDReq_update_state s e = (DNREQ_A_NoAction, s)"
  using assms by (cases "st_dnReq s") (simp_all add: fsm_defs dnReq_closed_def)

lemma dnReq_closed_trace:
  assumes "dnReq_closed s"
  shows "fsm_trace DNUDReq_update_state s es = map (\<lambda>e. (e, DNREQ_A_NoAction)) es"
  by (induction es) (simp_all add: Let_def dnReq_closed_silent [OF assms])

lemma dnReq_after_end:
  assumes "i < j" "j < length es"
    and "dnReq_ends (es ! i) (snd (fsm_trace DNUDReq_update_state s es ! i))"
  shows "snd (fsm_trace DNUDReq_update_state s es ! j) = DNREQ_A_NoAction"
proof -
  let ?pre = "take (Suc i) es" and ?post = "drop (Suc i) es"
  let ?m = "fsm_final DNUDReq_update_state s ?pre"
  have split: "fsm_trace DNUDReq_update_state s es =
      fsm_trace DNUDReq_update_state s ?pre @ fsm_trace DNUDReq_update_state ?m ?post"
    using fsm_run_append(1) [of DNUDReq_update_state s ?pre ?post] by simp
  have "fsm_trace DNUDReq_update_state s ?pre ! i = fsm_trace DNUDReq_update_state s es ! i"
    using assms by (simp add: split nth_append)
  then have "(\<lambda>(e, a). dnReq_ends e a) (fsm_trace DNUDReq_update_state s ?pre ! i)"
    using assms fsm_trace_fst [of i es DNUDReq_update_state s] by (simp add: case_prod_beta)
  moreover have "fsm_trace DNUDReq_update_state s ?pre ! i \<in> set (fsm_trace DNUDReq_update_state s ?pre)"
    using assms by simp
  ultimately have "dnReq_closed ?m"
    by (intro dnReq_end.granted_imp_closed) (auto simp: count_if_eq_0_iff)
  moreover have "fsm_trace DNUDReq_update_state s es ! j = fsm_trace DNUDReq_update_state ?m ?post ! (j - Suc i)"
    using assms by (simp add: split nth_append)
  ultimately show ?thesis using assms by (simp add: dnReq_closed_trace)
qed

subsection \<open>Properties\<close>




end
