(* ===== verification/Nn_Fsm.thy ===== *)
theory Nn_Fsm
  imports Fsm_Spec
begin

text \<open>
  The two state machines of a namenode metadata request (\<^verbatim>\<open>discoNN_client/discoC_NNMDReq_fsm.c\<close>):
  acquiring metadata (with a timeout) and committing it.  Both live in one structure
  \<^verbatim>\<open>NNMDReq_fsm_t\<close> under one lock.
\<close>

subsection \<open>Acquiring metadata\<close>

datatype NNMDgetReq_FSM_TREvent_t =
    NNREQ_E_InitDone
  | NNREQ_E_PeekWorkQ
  | NNREQ_E_SendDone
  | NNREQ_E_FindReqOK
  | NNREQ_E_TimeoutFire
  | NNREQ_E_ConnBack
  | NNREQ_E_RetryChkDone

datatype NNMDgetReq_FSM_action_t =
    NNREQ_A_START
  | NNREQ_A_NoAction
  | NNREQ_A_DO_ADD_WORKQ
  | NNREQ_A_DO_SEND
  | NNREQ_A_DO_WAIT_RESP
  | NNREQ_A_DO_PROCESS_RESP
  | NNREQ_A_DO_TO_PROCESS
  | NNREQ_A_DO_RETRY_REQ
  | NNREQ_A_END

primrec NNMDgetReq_FSM_action_t_val :: "NNMDgetReq_FSM_action_t \<Rightarrow> nat" where
  "NNMDgetReq_FSM_action_t_val NNREQ_A_START = 0"
| "NNMDgetReq_FSM_action_t_val NNREQ_A_NoAction = 1"
| "NNMDgetReq_FSM_action_t_val NNREQ_A_DO_ADD_WORKQ = 2"
| "NNMDgetReq_FSM_action_t_val NNREQ_A_DO_SEND = 3"
| "NNMDgetReq_FSM_action_t_val NNREQ_A_DO_WAIT_RESP = 4"
| "NNMDgetReq_FSM_action_t_val NNREQ_A_DO_PROCESS_RESP = 5"
| "NNMDgetReq_FSM_action_t_val NNREQ_A_DO_TO_PROCESS = 6"
| "NNMDgetReq_FSM_action_t_val NNREQ_A_DO_RETRY_REQ = 7"
| "NNMDgetReq_FSM_action_t_val NNREQ_A_END = 8"

lemma NNMDgetReq_FSM_action_t_val_inj: "NNMDgetReq_FSM_action_t_val s = NNMDgetReq_FSM_action_t_val t \<Longrightarrow> s = t"
  by (cases s; cases t) simp_all

instantiation NNMDgetReq_FSM_action_t :: linorder
begin
definition less_eq_NNMDgetReq_FSM_action_t :: "NNMDgetReq_FSM_action_t \<Rightarrow> NNMDgetReq_FSM_action_t \<Rightarrow> bool" where
  "less_eq_NNMDgetReq_FSM_action_t s t \<longleftrightarrow> NNMDgetReq_FSM_action_t_val s \<le> NNMDgetReq_FSM_action_t_val t"
definition less_NNMDgetReq_FSM_action_t :: "NNMDgetReq_FSM_action_t \<Rightarrow> NNMDgetReq_FSM_action_t \<Rightarrow> bool" where
  "less_NNMDgetReq_FSM_action_t s t \<longleftrightarrow> NNMDgetReq_FSM_action_t_val s < NNMDgetReq_FSM_action_t_val t"
instance
  by standard (auto simp: less_eq_NNMDgetReq_FSM_action_t_def less_NNMDgetReq_FSM_action_t_def intro: NNMDgetReq_FSM_action_t_val_inj)
end

datatype NNMDgetReq_FSM_state_t =
    NNREQ_S_START
  | NNREQ_S_INIT
  | NNREQ_S_WAIT_SEND
  | NNREQ_S_SENDING
  | NNREQ_S_WAIT_RESP
  | NNREQ_S_PROCESS_RESP
  | NNREQ_S_RETRY_REQ
  | NNREQ_S_TIMEOUT_FIRE
  | NNREQ_S_END

primrec NNMDgetReq_FSM_state_t_val :: "NNMDgetReq_FSM_state_t \<Rightarrow> nat" where
  "NNMDgetReq_FSM_state_t_val NNREQ_S_START = 0"
| "NNMDgetReq_FSM_state_t_val NNREQ_S_INIT = 1"
| "NNMDgetReq_FSM_state_t_val NNREQ_S_WAIT_SEND = 2"
| "NNMDgetReq_FSM_state_t_val NNREQ_S_SENDING = 3"
| "NNMDgetReq_FSM_state_t_val NNREQ_S_WAIT_RESP = 4"
| "NNMDgetReq_FSM_state_t_val NNREQ_S_PROCESS_RESP = 5"
| "NNMDgetReq_FSM_state_t_val NNREQ_S_RETRY_REQ = 6"
| "NNMDgetReq_FSM_state_t_val NNREQ_S_TIMEOUT_FIRE = 7"
| "NNMDgetReq_FSM_state_t_val NNREQ_S_END = 8"

lemma NNMDgetReq_FSM_state_t_val_inj: "NNMDgetReq_FSM_state_t_val s = NNMDgetReq_FSM_state_t_val t \<Longrightarrow> s = t"
  by (cases s; cases t) simp_all

instantiation NNMDgetReq_FSM_state_t :: linorder
begin
definition less_eq_NNMDgetReq_FSM_state_t :: "NNMDgetReq_FSM_state_t \<Rightarrow> NNMDgetReq_FSM_state_t \<Rightarrow> bool" where
  "less_eq_NNMDgetReq_FSM_state_t s t \<longleftrightarrow> NNMDgetReq_FSM_state_t_val s \<le> NNMDgetReq_FSM_state_t_val t"
definition less_NNMDgetReq_FSM_state_t :: "NNMDgetReq_FSM_state_t \<Rightarrow> NNMDgetReq_FSM_state_t \<Rightarrow> bool" where
  "less_NNMDgetReq_FSM_state_t s t \<longleftrightarrow> NNMDgetReq_FSM_state_t_val s < NNMDgetReq_FSM_state_t_val t"
instance
  by standard (auto simp: less_eq_NNMDgetReq_FSM_state_t_def less_NNMDgetReq_FSM_state_t_def intro: NNMDgetReq_FSM_state_t_val_inj)
end

datatype NNMDciReq_FSM_TREvent_t =
    NNCIREQ_E_InitDone
  | NNCIREQ_E_PeekWorkQ
  | NNCIREQ_E_SendDone
  | NNCIREQ_E_FindReqOK
  | NNCIREQ_E_ConnBack
  | NNCIREQ_E_RetryChkDone

datatype NNMDciReq_FSM_action_t =
    NNCIREQ_A_START
  | NNCIREQ_A_NoAction
  | NNCIREQ_A_DO_ADD_WORKQ
  | NNCIREQ_A_DO_SEND
  | NNCIREQ_A_DO_WAIT_RESP
  | NNCIREQ_A_DO_PROCESS_RESP
  | NNCIREQ_A_DO_RETRY_REQ
  | NNCIREQ_A_END

primrec NNMDciReq_FSM_action_t_val :: "NNMDciReq_FSM_action_t \<Rightarrow> nat" where
  "NNMDciReq_FSM_action_t_val NNCIREQ_A_START = 0"
| "NNMDciReq_FSM_action_t_val NNCIREQ_A_NoAction = 1"
| "NNMDciReq_FSM_action_t_val NNCIREQ_A_DO_ADD_WORKQ = 2"
| "NNMDciReq_FSM_action_t_val NNCIREQ_A_DO_SEND = 3"
| "NNMDciReq_FSM_action_t_val NNCIREQ_A_DO_WAIT_RESP = 4"
| "NNMDciReq_FSM_action_t_val NNCIREQ_A_DO_PROCESS_RESP = 5"
| "NNMDciReq_FSM_action_t_val NNCIREQ_A_DO_RETRY_REQ = 6"
| "NNMDciReq_FSM_action_t_val NNCIREQ_A_END = 7"

lemma NNMDciReq_FSM_action_t_val_inj: "NNMDciReq_FSM_action_t_val s = NNMDciReq_FSM_action_t_val t \<Longrightarrow> s = t"
  by (cases s; cases t) simp_all

instantiation NNMDciReq_FSM_action_t :: linorder
begin
definition less_eq_NNMDciReq_FSM_action_t :: "NNMDciReq_FSM_action_t \<Rightarrow> NNMDciReq_FSM_action_t \<Rightarrow> bool" where
  "less_eq_NNMDciReq_FSM_action_t s t \<longleftrightarrow> NNMDciReq_FSM_action_t_val s \<le> NNMDciReq_FSM_action_t_val t"
definition less_NNMDciReq_FSM_action_t :: "NNMDciReq_FSM_action_t \<Rightarrow> NNMDciReq_FSM_action_t \<Rightarrow> bool" where
  "less_NNMDciReq_FSM_action_t s t \<longleftrightarrow> NNMDciReq_FSM_action_t_val s < NNMDciReq_FSM_action_t_val t"
instance
  by standard (auto simp: less_eq_NNMDciReq_FSM_action_t_def less_NNMDciReq_FSM_action_t_def intro: NNMDciReq_FSM_action_t_val_inj)
end

datatype NNMDciReq_FSM_state_t =
    NNCIREQ_S_START
  | NNCIREQ_S_INIT
  | NNCIREQ_S_WAIT_SEND
  | NNCIREQ_S_SENDING
  | NNCIREQ_S_WAIT_RESP
  | NNCIREQ_S_PROCESS_RESP
  | NNCIREQ_S_RETRY_REQ
  | NNCIREQ_S_END

primrec NNMDciReq_FSM_state_t_val :: "NNMDciReq_FSM_state_t \<Rightarrow> nat" where
  "NNMDciReq_FSM_state_t_val NNCIREQ_S_START = 0"
| "NNMDciReq_FSM_state_t_val NNCIREQ_S_INIT = 1"
| "NNMDciReq_FSM_state_t_val NNCIREQ_S_WAIT_SEND = 2"
| "NNMDciReq_FSM_state_t_val NNCIREQ_S_SENDING = 3"
| "NNMDciReq_FSM_state_t_val NNCIREQ_S_WAIT_RESP = 4"
| "NNMDciReq_FSM_state_t_val NNCIREQ_S_PROCESS_RESP = 5"
| "NNMDciReq_FSM_state_t_val NNCIREQ_S_RETRY_REQ = 6"
| "NNMDciReq_FSM_state_t_val NNCIREQ_S_END = 7"

lemma NNMDciReq_FSM_state_t_val_inj: "NNMDciReq_FSM_state_t_val s = NNMDciReq_FSM_state_t_val t \<Longrightarrow> s = t"
  by (cases s; cases t) simp_all

instantiation NNMDciReq_FSM_state_t :: linorder
begin
definition less_eq_NNMDciReq_FSM_state_t :: "NNMDciReq_FSM_state_t \<Rightarrow> NNMDciReq_FSM_state_t \<Rightarrow> bool" where
  "less_eq_NNMDciReq_FSM_state_t s t \<longleftrightarrow> NNMDciReq_FSM_state_t_val s \<le> NNMDciReq_FSM_state_t_val t"
definition less_NNMDciReq_FSM_state_t :: "NNMDciReq_FSM_state_t \<Rightarrow> NNMDciReq_FSM_state_t \<Rightarrow> bool" where
  "less_NNMDciReq_FSM_state_t s t \<longleftrightarrow> NNMDciReq_FSM_state_t_val s < NNMDciReq_FSM_state_t_val t"
instance
  by standard (auto simp: less_eq_NNMDciReq_FSM_state_t_def less_NNMDciReq_FSM_state_t_def intro: NNMDciReq_FSM_state_t_val_inj)
end

record NNMDReq_fsm_t =
  st_nnReq :: NNMDgetReq_FSM_state_t
  st_nnCIReq :: NNMDciReq_FSM_state_t

definition update_nnReqS_Init :: "NNMDReq_fsm_t \<Rightarrow> NNMDgetReq_FSM_TREvent_t \<Rightarrow> NNMDgetReq_FSM_action_t \<times> NNMDReq_fsm_t" where
  [fsm_defs]: "update_nnReqS_Init myStat event =
     (case event of
        NNREQ_E_InitDone \<Rightarrow> (NNREQ_A_DO_ADD_WORKQ, myStat\<lparr>st_nnReq := NNREQ_S_WAIT_SEND\<rparr>)
      | _ \<Rightarrow> (NNREQ_A_NoAction, myStat))"

definition update_nnReqS_WaitSend :: "NNMDReq_fsm_t \<Rightarrow> NNMDgetReq_FSM_TREvent_t \<Rightarrow> NNMDgetReq_FSM_action_t \<times> NNMDReq_fsm_t" where
  [fsm_defs]: "update_nnReqS_WaitSend myStat event =
     (case event of
        NNREQ_E_PeekWorkQ \<Rightarrow> (NNREQ_A_DO_SEND, myStat\<lparr>st_nnReq := NNREQ_S_SENDING\<rparr>)
      | NNREQ_E_TimeoutFire \<Rightarrow> (NNREQ_A_DO_TO_PROCESS, myStat\<lparr>st_nnReq := NNREQ_S_TIMEOUT_FIRE\<rparr>)
      | _ \<Rightarrow> (NNREQ_A_NoAction, myStat))"

definition update_nnReqS_Sending :: "NNMDReq_fsm_t \<Rightarrow> NNMDgetReq_FSM_TREvent_t \<Rightarrow> NNMDgetReq_FSM_action_t \<times> NNMDReq_fsm_t" where
  [fsm_defs]: "update_nnReqS_Sending myStat event =
     (case event of
        NNREQ_E_SendDone \<Rightarrow> (NNREQ_A_DO_WAIT_RESP, myStat\<lparr>st_nnReq := NNREQ_S_WAIT_RESP\<rparr>)
      | NNREQ_E_TimeoutFire \<Rightarrow> (NNREQ_A_DO_TO_PROCESS, myStat\<lparr>st_nnReq := NNREQ_S_TIMEOUT_FIRE\<rparr>)
      | _ \<Rightarrow> (NNREQ_A_NoAction, myStat))"

definition update_nnReqS_WaitResp :: "NNMDReq_fsm_t \<Rightarrow> NNMDgetReq_FSM_TREvent_t \<Rightarrow> NNMDgetReq_FSM_action_t \<times> NNMDReq_fsm_t" where
  [fsm_defs]: "update_nnReqS_WaitResp myStat event =
     (case event of
        NNREQ_E_FindReqOK \<Rightarrow> (NNREQ_A_DO_PROCESS_RESP, myStat\<lparr>st_nnReq := NNREQ_S_PROCESS_RESP\<rparr>)
      | NNREQ_E_TimeoutFire \<Rightarrow> (NNREQ_A_DO_TO_PROCESS, myStat\<lparr>st_nnReq := NNREQ_S_TIMEOUT_FIRE\<rparr>)
      | NNREQ_E_ConnBack \<Rightarrow> (NNREQ_A_DO_RETRY_REQ, myStat\<lparr>st_nnReq := NNREQ_S_RETRY_REQ\<rparr>)
      | _ \<Rightarrow> (NNREQ_A_NoAction, myStat))"

definition update_nnReqS_PResp :: "NNMDReq_fsm_t \<Rightarrow> NNMDgetReq_FSM_TREvent_t \<Rightarrow> NNMDgetReq_FSM_action_t \<times> NNMDReq_fsm_t" where
  [fsm_defs]: "update_nnReqS_PResp myStat event = (NNREQ_A_NoAction, myStat)"

definition update_nnReqS_Retry :: "NNMDReq_fsm_t \<Rightarrow> NNMDgetReq_FSM_TREvent_t \<Rightarrow> NNMDgetReq_FSM_action_t \<times> NNMDReq_fsm_t" where
  [fsm_defs]: "update_nnReqS_Retry myStat event =
     (case event of
        NNREQ_E_RetryChkDone \<Rightarrow> (NNREQ_A_DO_ADD_WORKQ, myStat\<lparr>st_nnReq := NNREQ_S_WAIT_SEND\<rparr>)
      | _ \<Rightarrow> (NNREQ_A_NoAction, myStat))"

definition update_nnReqS_TOFire :: "NNMDReq_fsm_t \<Rightarrow> NNMDgetReq_FSM_TREvent_t \<Rightarrow> NNMDgetReq_FSM_action_t \<times> NNMDReq_fsm_t" where
  [fsm_defs]: "update_nnReqS_TOFire myStat event = (NNREQ_A_NoAction, myStat)"

definition update_nnReqState_lockless :: "NNMDReq_fsm_t \<Rightarrow> NNMDgetReq_FSM_TREvent_t \<Rightarrow> NNMDgetReq_FSM_action_t \<times> NNMDReq_fsm_t" where
  [fsm_defs]: "update_nnReqState_lockless myStat event =
     (case st_nnReq myStat of
        NNREQ_S_INIT \<Rightarrow> update_nnReqS_Init myStat event
      | NNREQ_S_WAIT_SEND \<Rightarrow> update_nnReqS_WaitSend myStat event
      | NNREQ_S_SENDING \<Rightarrow> update_nnReqS_Sending myStat event
      | NNREQ_S_WAIT_RESP \<Rightarrow> update_nnReqS_WaitResp myStat event
      | NNREQ_S_PROCESS_RESP \<Rightarrow> update_nnReqS_PResp myStat event
      | NNREQ_S_RETRY_REQ \<Rightarrow> update_nnReqS_Retry myStat event
      | NNREQ_S_TIMEOUT_FIRE \<Rightarrow> update_nnReqS_TOFire myStat event
      | _ \<Rightarrow> (NNREQ_A_NoAction, myStat))"

definition NNMDgetReq_update_state :: "NNMDReq_fsm_t \<Rightarrow> NNMDgetReq_FSM_TREvent_t \<Rightarrow> NNMDgetReq_FSM_action_t \<times> NNMDReq_fsm_t" where
  [fsm_defs]: "NNMDgetReq_update_state stat event = update_nnReqState_lockless stat event"

subsection \<open>Committing metadata\<close>

definition update_nnCIReqS_Init :: "NNMDReq_fsm_t \<Rightarrow> NNMDciReq_FSM_TREvent_t \<Rightarrow> NNMDciReq_FSM_action_t \<times> NNMDReq_fsm_t" where
  [fsm_defs]: "update_nnCIReqS_Init myStat event =
     (case event of
        NNCIREQ_E_InitDone \<Rightarrow> (NNCIREQ_A_DO_ADD_WORKQ, myStat\<lparr>st_nnCIReq := NNCIREQ_S_WAIT_SEND\<rparr>)
      | _ \<Rightarrow> (NNCIREQ_A_NoAction, myStat))"

definition update_nnCIReqS_WaitSend :: "NNMDReq_fsm_t \<Rightarrow> NNMDciReq_FSM_TREvent_t \<Rightarrow> NNMDciReq_FSM_action_t \<times> NNMDReq_fsm_t" where
  [fsm_defs]: "update_nnCIReqS_WaitSend myStat event =
     (case event of
        NNCIREQ_E_PeekWorkQ \<Rightarrow> (NNCIREQ_A_DO_SEND, myStat\<lparr>st_nnCIReq := NNCIREQ_S_SENDING\<rparr>)
      | _ \<Rightarrow> (NNCIREQ_A_NoAction, myStat))"

definition update_nnCIReqS_Sending :: "NNMDReq_fsm_t \<Rightarrow> NNMDciReq_FSM_TREvent_t \<Rightarrow> NNMDciReq_FSM_action_t \<times> NNMDReq_fsm_t" where
  [fsm_defs]: "update_nnCIReqS_Sending myStat event =
     (case event of
        NNCIREQ_E_SendDone \<Rightarrow> (NNCIREQ_A_DO_WAIT_RESP, myStat\<lparr>st_nnCIReq := NNCIREQ_S_WAIT_RESP\<rparr>)
      | _ \<Rightarrow> (NNCIREQ_A_NoAction, myStat))"

definition update_nnCIReqS_WaitResp :: "NNMDReq_fsm_t \<Rightarrow> NNMDciReq_FSM_TREvent_t \<Rightarrow> NNMDciReq_FSM_action_t \<times> NNMDReq_fsm_t" where
  [fsm_defs]: "update_nnCIReqS_WaitResp myStat event =
     (case event of
        NNCIREQ_E_FindReqOK \<Rightarrow> (NNCIREQ_A_DO_PROCESS_RESP, myStat\<lparr>st_nnCIReq := NNCIREQ_S_PROCESS_RESP\<rparr>)
      | NNCIREQ_E_ConnBack \<Rightarrow> (NNCIREQ_A_DO_RETRY_REQ, myStat\<lparr>st_nnCIReq := NNCIREQ_S_RETRY_REQ\<rparr>)
      | _ \<Rightarrow> (NNCIREQ_A_NoAction, myStat))"

definition update_nnCIReqS_PResp :: "NNMDReq_fsm_t \<Rightarrow> NNMDciReq_FSM_TREvent_t \<Rightarrow> NNMDciReq_FSM_action_t \<times> NNMDReq_fsm_t" where
  [fsm_defs]: "update_nnCIReqS_PResp myStat event = (NNCIREQ_A_NoAction, myStat)"

definition update_nnCIReqS_Retry :: "NNMDReq_fsm_t \<Rightarrow> NNMDciReq_FSM_TREvent_t \<Rightarrow> NNMDciReq_FSM_action_t \<times> NNMDReq_fsm_t" where
  [fsm_defs]: "update_nnCIReqS_Retry myStat event =
     (case event of
        NNCIREQ_E_RetryChkDone \<Rightarrow> (NNCIREQ_A_DO_ADD_WORKQ, myStat\<lparr>st_nnCIReq := NNCIREQ_S_WAIT_SEND\<rparr>)
      | _ \<Rightarrow> (NNCIREQ_A_NoAction, myStat))"

definition update_nnCIReqState_lockless :: "NNMDReq_fsm_t \<Rightarrow> NNMDciReq_FSM_TREvent_t \<Rightarrow> NNMDciReq_FSM_action_t \<times> NNMDReq_fsm_t" where
  [fsm_defs]: "update_nnCIReqState_lockless myStat event =
     (case st_nnCIReq myStat of
        NNCIREQ_S_INIT \<Rightarrow> update_nnCIReqS_Init myStat event
      | NNCIREQ_S_WAIT_SEND \<Rightarrow> update_nnCIReqS_WaitSend myStat event
      | NNCIREQ_S_SENDING \<Rightarrow> update_nnCIReqS_Sending myStat event
      | NNCIREQ_S_WAIT_RESP \<Rightarrow> update_nnCIReqS_WaitResp myStat event
      | NNCIREQ_S_PROCESS_RESP \<Rightarrow> update_nnCIReqS_PResp myStat event
      | NNCIREQ_S_RETRY_REQ \<Rightarrow> update_nnCIReqS_Retry myStat event
      | _ \<Rightarrow> (NNCIREQ_A_NoAction, myStat))"

definition NNMDciReq_update_state :: "NNMDReq_fsm_t \<Rightarrow> NNMDciReq_FSM_TREvent_t \<Rightarrow> NNMDciReq_FSM_action_t \<times> NNMDReq_fsm_t" where
  [fsm_defs]: "NNMDciReq_update_state stat event = update_nnCIReqState_lockless stat event"

subsection \<open>Readable names and initialisation\<close>

definition nnReqStat_str :: "string list" where
  "nnReqStat_str =
     [''unknown'',
      ''init'',
      ''wait_send'',
      ''sending'',
      ''wait_resp'',
      ''process_resp'',
      ''timeout_handle'',
      ''retry_req'',
      ''unknown'']"

definition nnReqAction_str :: "string list" where
  "nnReqAction_str =
     [''Unknown'',
      ''No action'',
      ''Do Add WorkerQ'',
      ''Do Send Req'',
      ''Do Wait Resp'',
      ''Process Resp'',
      ''Do timeout process'',
      ''Do retry req'',
      ''Unknown'']"

definition nnCIReqStat_str :: "string list" where
  "nnCIReqStat_str =
     [''CIReq unknown'',
      ''CIReq init'',
      ''CIReq wait_send'',
      ''CIReq sending'',
      ''CIReq wait_resp'',
      ''CIReq process_resp'',
      ''CIReq retry_req'',
      ''CIReq unknown'']"

definition nnCIReqAction_str :: "string list" where
  "nnCIReqAction_str =
     [''CIReq Unknown'',
      ''CIReq No action'',
      ''CIReq Do Add WorkerQ'',
      ''CIReq Do Send Req'',
      ''CIReq Do Wait Resp'',
      ''CIReq Process Resp'',
      ''CIReq Do retry req'',
      ''Unknown'']"

definition NNMDgetReq_get_action_str :: "NNMDgetReq_FSM_action_t \<Rightarrow> string" where
  "NNMDgetReq_get_action_str action =
     (if action > NNREQ_A_START \<and> action < NNREQ_A_END then nnReqAction_str ! NNMDgetReq_FSM_action_t_val action
      else nnReqAction_str ! NNMDgetReq_FSM_action_t_val NNREQ_A_END)"

definition NNMDgetReq_get_state :: "NNMDReq_fsm_t \<Rightarrow> NNMDgetReq_FSM_state_t" where
  "NNMDgetReq_get_state stat = st_nnReq stat"

definition NNMDgetReq_get_state_str :: "NNMDReq_fsm_t \<Rightarrow> string" where
  "NNMDgetReq_get_state_str stat =
     (let myStat = NNMDgetReq_get_state stat in
      if myStat > NNREQ_S_START \<and> myStat < NNREQ_S_END then nnReqStat_str ! NNMDgetReq_FSM_state_t_val myStat
      else nnReqStat_str ! NNMDgetReq_FSM_state_t_val NNREQ_S_END)"

definition NNMDciReq_get_action_str :: "NNMDciReq_FSM_action_t \<Rightarrow> string" where
  "NNMDciReq_get_action_str action =
     (if action > NNCIREQ_A_START \<and> action < NNCIREQ_A_END then nnCIReqAction_str ! NNMDciReq_FSM_action_t_val action
      else nnCIReqAction_str ! NNMDciReq_FSM_action_t_val NNCIREQ_A_END)"

definition NNMDciReq_get_state :: "NNMDReq_fsm_t \<Rightarrow> NNMDciReq_FSM_state_t" where
  "NNMDciReq_get_state stat = st_nnCIReq stat"

definition NNMDciReq_get_state_str :: "NNMDReq_fsm_t \<Rightarrow> string" where
  "NNMDciReq_get_state_str stat =
     (let myStat = NNMDciReq_get_state stat in
      if myStat > NNCIREQ_S_START \<and> myStat < NNCIREQ_S_END then nnCIReqStat_str ! NNMDciReq_FSM_state_t_val myStat
      else nnCIReqStat_str ! NNMDciReq_FSM_state_t_val NNCIREQ_S_END)"

definition NNMDReq_init_fsm :: "NNMDReq_fsm_t \<Rightarrow> NNMDReq_fsm_t" where
  "NNMDReq_init_fsm stat = stat\<lparr>st_nnReq := NNREQ_S_INIT, st_nnCIReq := NNCIREQ_S_INIT\<rparr>"

subsection \<open>Contracts\<close>

text \<open>The response and the timeout are the two ways the acquisition ends.\<close>

definition nnReq_ends :: "NNMDgetReq_FSM_TREvent_t \<Rightarrow> NNMDgetReq_FSM_action_t \<Rightarrow> bool" where
  "nnReq_ends e a \<longleftrightarrow> a = NNREQ_A_DO_PROCESS_RESP \<or> a = NNREQ_A_DO_TO_PROCESS"

definition nnReq_closed :: "NNMDReq_fsm_t \<Rightarrow> bool" where
  "nnReq_closed s \<longleftrightarrow> st_nnReq s \<in> {NNREQ_S_PROCESS_RESP, NNREQ_S_TIMEOUT_FIRE}"

definition nnReq_wf :: "NNMDReq_fsm_t \<Rightarrow> bool" where
  "nnReq_wf s \<longleftrightarrow> st_nnReq s \<notin> {NNREQ_S_START, NNREQ_S_END}"

definition nnReq_finish :: "NNMDReq_fsm_t \<Rightarrow> NNMDgetReq_FSM_TREvent_t list" where
  "nnReq_finish s = (case st_nnReq s of
      NNREQ_S_INIT \<Rightarrow> [NNREQ_E_InitDone, NNREQ_E_TimeoutFire]
    | NNREQ_S_RETRY_REQ \<Rightarrow> [NNREQ_E_RetryChkDone, NNREQ_E_TimeoutFire]
    | _ \<Rightarrow> [NNREQ_E_TimeoutFire])"

lemmas nnReq_contract_defs = nnReq_ends_def nnReq_closed_def nnReq_wf_def nnReq_finish_def

interpretation nnReq_end: fsm_live NNMDgetReq_update_state nnReq_ends nnReq_closed nnReq_wf nnReq_finish
proof unfold_locales
  fix s e
  show "nnReq_closed (snd (NNMDgetReq_update_state s e))" if "nnReq_ends e (fst (NNMDgetReq_update_state s e))"
    using that by (cases "st_nnReq s"; cases e) (simp_all add: fsm_defs nnReq_contract_defs)
  show "nnReq_closed (snd (NNMDgetReq_update_state s e))" if "nnReq_closed s"
    using that by (cases "st_nnReq s") (simp_all add: fsm_defs nnReq_contract_defs)
  show "\<not> nnReq_ends e (fst (NNMDgetReq_update_state s e))" if "nnReq_closed s"
    using that by (cases "st_nnReq s") (simp_all add: fsm_defs nnReq_contract_defs)
  show "nnReq_wf (snd (NNMDgetReq_update_state s e))" if "nnReq_wf s"
    using that by (cases "st_nnReq s"; cases e) (simp_all add: fsm_defs nnReq_contract_defs)
  show "nnReq_closed (fsm_final NNMDgetReq_update_state s (nnReq_finish s))" if "nnReq_wf s"
    using that by (cases "st_nnReq s") (simp_all add: fsm_defs nnReq_contract_defs Let_def)
qed

interpretation nnReq_send: fsm_token NNMDgetReq_update_state
    "\<lambda>a. a = NNREQ_A_DO_ADD_WORKQ" "\<lambda>a. a = NNREQ_A_DO_SEND" "\<lambda>s. st_nnReq s = NNREQ_S_WAIT_SEND"
proof unfold_locales
  fix s e
  show "fst (NNMDgetReq_update_state s e) \<noteq> NNREQ_A_DO_SEND \<and> st_nnReq s \<noteq> NNREQ_S_WAIT_SEND \<and>
      st_nnReq (snd (NNMDgetReq_update_state s e)) = NNREQ_S_WAIT_SEND"
    if "fst (NNMDgetReq_update_state s e) = NNREQ_A_DO_ADD_WORKQ"
    using that by (cases "st_nnReq s"; cases e) (simp_all add: fsm_defs)
  show "st_nnReq s = NNREQ_S_WAIT_SEND \<and> st_nnReq (snd (NNMDgetReq_update_state s e)) \<noteq> NNREQ_S_WAIT_SEND"
    if "fst (NNMDgetReq_update_state s e) = NNREQ_A_DO_SEND"
    using that by (cases "st_nnReq s"; cases e) (simp_all add: fsm_defs)
  show "st_nnReq s = NNREQ_S_WAIT_SEND"
    if "fst (NNMDgetReq_update_state s e) \<noteq> NNREQ_A_DO_ADD_WORKQ"
      "st_nnReq (snd (NNMDgetReq_update_state s e)) = NNREQ_S_WAIT_SEND"
    using that by (cases "st_nnReq s"; cases e) (simp_all add: fsm_defs)
qed

text \<open>The commit answer is processed at most once.\<close>

interpretation nnCIReq_end: fsm_grant NNMDciReq_update_state
    "\<lambda>e a. a = NNCIREQ_A_DO_PROCESS_RESP" "\<lambda>s. st_nnCIReq s = NNCIREQ_S_PROCESS_RESP"
proof unfold_locales
  fix s e
  show "st_nnCIReq (snd (NNMDciReq_update_state s e)) = NNCIREQ_S_PROCESS_RESP"
    if "fst (NNMDciReq_update_state s e) = NNCIREQ_A_DO_PROCESS_RESP"
    using that by (cases "st_nnCIReq s"; cases e) (simp_all add: fsm_defs)
  show "st_nnCIReq (snd (NNMDciReq_update_state s e)) = NNCIREQ_S_PROCESS_RESP"
      "fst (NNMDciReq_update_state s e) \<noteq> NNCIREQ_A_DO_PROCESS_RESP"
    if "st_nnCIReq s = NNCIREQ_S_PROCESS_RESP"
    using that by (simp_all add: fsm_defs)
qed

text \<open>One structure, two machines: the callers of both interleave under the one lock.\<close>

definition nnMDReq_update ::
  "NNMDReq_fsm_t \<Rightarrow> NNMDgetReq_FSM_TREvent_t + NNMDciReq_FSM_TREvent_t
     \<Rightarrow> (NNMDgetReq_FSM_action_t + NNMDciReq_FSM_action_t) \<times> NNMDReq_fsm_t" where
  "nnMDReq_update s e = (case e of
      Inl g \<Rightarrow> map_prod Inl id (NNMDgetReq_update_state s g)
    | Inr c \<Rightarrow> map_prod Inr id (NNMDciReq_update_state s c))"

definition is_left :: "'a + 'b \<Rightarrow> 'a option" where
  "is_left x = (case x of Inl a \<Rightarrow> Some a | Inr b \<Rightarrow> None)"

definition is_right :: "'a + 'b \<Rightarrow> 'b option" where
  "is_right x = (case x of Inl a \<Rightarrow> None | Inr b \<Rightarrow> Some b)"

lemma nnReq_frame:
  "st_nnCIReq (snd (NNMDgetReq_update_state s g)) = st_nnCIReq s"
  "st_nnReq (snd (NNMDciReq_update_state s c)) = st_nnReq s"
  by (cases "st_nnReq s"; cases g; simp add: fsm_defs)
     (cases "st_nnCIReq s"; cases c; simp add: fsm_defs)

lemma nnReq_local:
  assumes "st_nnReq s = st_nnReq t"
  shows "fst (NNMDgetReq_update_state s g) = fst (NNMDgetReq_update_state t g)"
    "st_nnReq (snd (NNMDgetReq_update_state s g)) = st_nnReq (snd (NNMDgetReq_update_state t g))"
  using assms by (cases "st_nnReq t"; cases g; simp add: fsm_defs)+

lemma nnCIReq_local:
  assumes "st_nnCIReq s = st_nnCIReq t"
  shows "fst (NNMDciReq_update_state s c) = fst (NNMDciReq_update_state t c)"
    "st_nnCIReq (snd (NNMDciReq_update_state s c)) = st_nnCIReq (snd (NNMDciReq_update_state t c))"
  using assms by (cases "st_nnCIReq t"; cases c; simp add: fsm_defs)+

interpretation nn_get: fsm_view nnMDReq_update NNMDgetReq_update_state st_nnReq is_left is_left
proof unfold_locales
  fix e :: "NNMDgetReq_FSM_TREvent_t + NNMDciReq_FSM_TREvent_t" and f and s t :: NNMDReq_fsm_t
  assume "is_left e = Some f" "st_nnReq s = st_nnReq t"
  then have "e = Inl f" by (cases e) (simp_all add: is_left_def)
  then show "is_left (fst (nnMDReq_update s e)) = Some (fst (NNMDgetReq_update_state t f)) \<and>
      st_nnReq (snd (nnMDReq_update s e)) = st_nnReq (snd (NNMDgetReq_update_state t f))"
    using nnReq_local [OF \<open>st_nnReq s = st_nnReq t\<close>, of f] by (simp add: nnMDReq_update_def is_left_def)
next
  fix e :: "NNMDgetReq_FSM_TREvent_t + NNMDciReq_FSM_TREvent_t" and s :: NNMDReq_fsm_t
  assume "is_left e = None"
  then show "is_left (fst (nnMDReq_update s e)) = None \<and> st_nnReq (snd (nnMDReq_update s e)) = st_nnReq s"
    by (cases e) (simp_all add: nnMDReq_update_def is_left_def nnReq_frame)
qed

interpretation nn_ci: fsm_view nnMDReq_update NNMDciReq_update_state st_nnCIReq is_right is_right
proof unfold_locales
  fix e :: "NNMDgetReq_FSM_TREvent_t + NNMDciReq_FSM_TREvent_t" and f and s t :: NNMDReq_fsm_t
  assume "is_right e = Some f" "st_nnCIReq s = st_nnCIReq t"
  then have "e = Inr f" by (cases e) (simp_all add: is_right_def)
  then show "is_right (fst (nnMDReq_update s e)) = Some (fst (NNMDciReq_update_state t f)) \<and>
      st_nnCIReq (snd (nnMDReq_update s e)) = st_nnCIReq (snd (NNMDciReq_update_state t f))"
    using nnCIReq_local [OF \<open>st_nnCIReq s = st_nnCIReq t\<close>, of f] by (simp add: nnMDReq_update_def is_right_def)
next
  fix e :: "NNMDgetReq_FSM_TREvent_t + NNMDciReq_FSM_TREvent_t" and s :: NNMDReq_fsm_t
  assume "is_right e = None"
  then show "is_right (fst (nnMDReq_update s e)) = None \<and> st_nnCIReq (snd (nnMDReq_update s e)) = st_nnCIReq s"
    by (cases e) (simp_all add: nnMDReq_update_def is_right_def nnReq_frame)
qed

subsection \<open>Properties\<close>

text \<open>(C32) For an acquire-metadata request, processing the namenode's response and processing the timeout exclude
  each other and each happens at most once, in every interleaving of the receiver, the timer, the
  sender and the housekeeping thread; and every run can be brought to one of the two.\<close>

theorem nnReq_response_xor_timeout:
  "count_if (\<lambda>(e, a). nnReq_ends e a) (fsm_trace NNMDgetReq_update_state (NNMDReq_init_fsm s) es) \<le> 1 \<and>
   nnReq_closed (fsm_final NNMDgetReq_update_state (NNMDReq_init_fsm s)
     (es @ nnReq_finish (fsm_final NNMDgetReq_update_state (NNMDReq_init_fsm s) es)))"
proof
  have "nnReq_wf (NNMDReq_init_fsm s)" by (simp add: nnReq_wf_def NNMDReq_init_fsm_def)
  then show "nnReq_closed (fsm_final NNMDgetReq_update_state (NNMDReq_init_fsm s)
     (es @ nnReq_finish (fsm_final NNMDgetReq_update_state (NNMDReq_init_fsm s) es)))"
    by (rule nnReq_end.can_finish)
qed (rule nnReq_end.granted_at_most_once)

text \<open>(C37) The acquire and the commit machine share one structure but not their behaviour: in any interleaving of
  their events, each machine's state and the answers to its callers are those of a run of that machine
  alone on its own events.\<close>

theorem nnMDReq_machines_independent:
  "st_nnReq (fsm_final nnMDReq_update s es) =
     st_nnReq (fsm_final NNMDgetReq_update_state s (List.map_filter is_left es)) \<and>
   List.map_filter is_left (map snd (fsm_trace nnMDReq_update s es)) =
     map snd (fsm_trace NNMDgetReq_update_state s (List.map_filter is_left es)) \<and>
   st_nnCIReq (fsm_final nnMDReq_update s es) =
     st_nnCIReq (fsm_final NNMDciReq_update_state s (List.map_filter is_right es)) \<and>
   List.map_filter is_right (map snd (fsm_trace nnMDReq_update s es)) =
     map snd (fsm_trace NNMDciReq_update_state s (List.map_filter is_right es))"
  using nn_get.view_alone [of s s es] nn_ci.view_alone [of s s es] by simp

end
