(* ===== verification/Pl_Fsm.thy ===== *)
theory Pl_Fsm
  imports Fsm_Spec
begin

text \<open>
  The state machine of a payload request (\<^verbatim>\<open>payload_manager/payload_request_fsm.c\<close>): the data
  transfer of one metadata item.  Data node acknowledgements and the timeout thread compete for the
  right to commit the request to its caller.
\<close>

datatype PLREQ_FSM_TREvent_t =
    PLREQ_E_InitDone
  | PLREQ_E_CICaller
  | PLREQ_E_TOFireChk
  | PLREQ_E_TOFireChkDone

primrec PLREQ_FSM_TREvent_t_val :: "PLREQ_FSM_TREvent_t \<Rightarrow> nat" where
  "PLREQ_FSM_TREvent_t_val PLREQ_E_InitDone = 0"
| "PLREQ_FSM_TREvent_t_val PLREQ_E_CICaller = 1"
| "PLREQ_FSM_TREvent_t_val PLREQ_E_TOFireChk = 2"
| "PLREQ_FSM_TREvent_t_val PLREQ_E_TOFireChkDone = 3"

lemma PLREQ_FSM_TREvent_t_val_inj: "PLREQ_FSM_TREvent_t_val s = PLREQ_FSM_TREvent_t_val t \<Longrightarrow> s = t"
  by (cases s; cases t) simp_all

instantiation PLREQ_FSM_TREvent_t :: linorder
begin
definition less_eq_PLREQ_FSM_TREvent_t :: "PLREQ_FSM_TREvent_t \<Rightarrow> PLREQ_FSM_TREvent_t \<Rightarrow> bool" where
  "less_eq_PLREQ_FSM_TREvent_t s t \<longleftrightarrow> PLREQ_FSM_TREvent_t_val s \<le> PLREQ_FSM_TREvent_t_val t"
definition less_PLREQ_FSM_TREvent_t :: "PLREQ_FSM_TREvent_t \<Rightarrow> PLREQ_FSM_TREvent_t \<Rightarrow> bool" where
  "less_PLREQ_FSM_TREvent_t s t \<longleftrightarrow> PLREQ_FSM_TREvent_t_val s < PLREQ_FSM_TREvent_t_val t"
instance
  by standard (auto simp: less_eq_PLREQ_FSM_TREvent_t_def less_PLREQ_FSM_TREvent_t_def intro: PLREQ_FSM_TREvent_t_val_inj)
end

datatype PLREQ_FSM_action_t =
    PLREQ_A_START
  | PLREQ_A_NoAction
  | PLREQ_A_RWData
  | PLREQ_A_DO_CICaller
  | PLREQ_A_DO_TOFireChk
  | PLREQ_A_DO_WaitData
  | PLREQ_A_END

primrec PLREQ_FSM_action_t_val :: "PLREQ_FSM_action_t \<Rightarrow> nat" where
  "PLREQ_FSM_action_t_val PLREQ_A_START = 0"
| "PLREQ_FSM_action_t_val PLREQ_A_NoAction = 1"
| "PLREQ_FSM_action_t_val PLREQ_A_RWData = 2"
| "PLREQ_FSM_action_t_val PLREQ_A_DO_CICaller = 3"
| "PLREQ_FSM_action_t_val PLREQ_A_DO_TOFireChk = 4"
| "PLREQ_FSM_action_t_val PLREQ_A_DO_WaitData = 5"
| "PLREQ_FSM_action_t_val PLREQ_A_END = 6"

lemma PLREQ_FSM_action_t_val_inj: "PLREQ_FSM_action_t_val s = PLREQ_FSM_action_t_val t \<Longrightarrow> s = t"
  by (cases s; cases t) simp_all

instantiation PLREQ_FSM_action_t :: linorder
begin
definition less_eq_PLREQ_FSM_action_t :: "PLREQ_FSM_action_t \<Rightarrow> PLREQ_FSM_action_t \<Rightarrow> bool" where
  "less_eq_PLREQ_FSM_action_t s t \<longleftrightarrow> PLREQ_FSM_action_t_val s \<le> PLREQ_FSM_action_t_val t"
definition less_PLREQ_FSM_action_t :: "PLREQ_FSM_action_t \<Rightarrow> PLREQ_FSM_action_t \<Rightarrow> bool" where
  "less_PLREQ_FSM_action_t s t \<longleftrightarrow> PLREQ_FSM_action_t_val s < PLREQ_FSM_action_t_val t"
instance
  by standard (auto simp: less_eq_PLREQ_FSM_action_t_def less_PLREQ_FSM_action_t_def intro: PLREQ_FSM_action_t_val_inj)
end

datatype PLREQ_FSM_state_t =
    PLREQ_S_START
  | PLREQ_S_INIT
  | PLREQ_S_WAIT_IO_DONE
  | PLREQ_S_CI_CALLER
  | PLREQ_S_TO_Check
  | PLREQ_S_END

primrec PLREQ_FSM_state_t_val :: "PLREQ_FSM_state_t \<Rightarrow> nat" where
  "PLREQ_FSM_state_t_val PLREQ_S_START = 0"
| "PLREQ_FSM_state_t_val PLREQ_S_INIT = 1"
| "PLREQ_FSM_state_t_val PLREQ_S_WAIT_IO_DONE = 2"
| "PLREQ_FSM_state_t_val PLREQ_S_CI_CALLER = 3"
| "PLREQ_FSM_state_t_val PLREQ_S_TO_Check = 4"
| "PLREQ_FSM_state_t_val PLREQ_S_END = 5"

lemma PLREQ_FSM_state_t_val_inj: "PLREQ_FSM_state_t_val s = PLREQ_FSM_state_t_val t \<Longrightarrow> s = t"
  by (cases s; cases t) simp_all

instantiation PLREQ_FSM_state_t :: linorder
begin
definition less_eq_PLREQ_FSM_state_t :: "PLREQ_FSM_state_t \<Rightarrow> PLREQ_FSM_state_t \<Rightarrow> bool" where
  "less_eq_PLREQ_FSM_state_t s t \<longleftrightarrow> PLREQ_FSM_state_t_val s \<le> PLREQ_FSM_state_t_val t"
definition less_PLREQ_FSM_state_t :: "PLREQ_FSM_state_t \<Rightarrow> PLREQ_FSM_state_t \<Rightarrow> bool" where
  "less_PLREQ_FSM_state_t s t \<longleftrightarrow> PLREQ_FSM_state_t_val s < PLREQ_FSM_state_t_val t"
instance
  by standard (auto simp: less_eq_PLREQ_FSM_state_t_def less_PLREQ_FSM_state_t_def intro: PLREQ_FSM_state_t_val_inj)
end

record PLReq_fsm_t =
  st_plReq :: PLREQ_FSM_state_t

definition update_PLReqS_Init :: "PLReq_fsm_t \<Rightarrow> PLREQ_FSM_TREvent_t \<Rightarrow> PLREQ_FSM_action_t \<times> PLReq_fsm_t" where
  [fsm_defs]: "update_PLReqS_Init myStat event =
     (case event of
        PLREQ_E_InitDone \<Rightarrow> (PLREQ_A_RWData, myStat\<lparr>st_plReq := PLREQ_S_WAIT_IO_DONE\<rparr>)
      | _ \<Rightarrow> (PLREQ_A_NoAction, myStat))"

definition update_PLReqS_WaitIO :: "PLReq_fsm_t \<Rightarrow> PLREQ_FSM_TREvent_t \<Rightarrow> PLREQ_FSM_action_t \<times> PLReq_fsm_t" where
  [fsm_defs]: "update_PLReqS_WaitIO myStat event =
     (case event of
        PLREQ_E_CICaller \<Rightarrow> (PLREQ_A_DO_CICaller, myStat\<lparr>st_plReq := PLREQ_S_CI_CALLER\<rparr>)
      | PLREQ_E_TOFireChk \<Rightarrow> (PLREQ_A_DO_TOFireChk, myStat\<lparr>st_plReq := PLREQ_S_TO_Check\<rparr>)
      | _ \<Rightarrow> (PLREQ_A_NoAction, myStat))"

definition update_PLReqS_CICaller :: "PLReq_fsm_t \<Rightarrow> PLREQ_FSM_TREvent_t \<Rightarrow> PLREQ_FSM_action_t \<times> PLReq_fsm_t" where
  [fsm_defs]: "update_PLReqS_CICaller myStat event = (PLREQ_A_NoAction, myStat)"

definition update_PLReqS_TOCheck :: "PLReq_fsm_t \<Rightarrow> PLREQ_FSM_TREvent_t \<Rightarrow> PLREQ_FSM_action_t \<times> PLReq_fsm_t" where
  [fsm_defs]: "update_PLReqS_TOCheck myStat event =
     (case event of
        PLREQ_E_CICaller \<Rightarrow> (PLREQ_A_DO_CICaller, myStat\<lparr>st_plReq := PLREQ_S_CI_CALLER\<rparr>)
      | PLREQ_E_TOFireChkDone \<Rightarrow> (PLREQ_A_DO_WaitData, myStat\<lparr>st_plReq := PLREQ_S_WAIT_IO_DONE\<rparr>)
      | _ \<Rightarrow> (PLREQ_A_NoAction, myStat))"

definition update_plReqState_lockless :: "PLReq_fsm_t \<Rightarrow> PLREQ_FSM_TREvent_t \<Rightarrow> PLREQ_FSM_action_t \<times> PLReq_fsm_t" where
  [fsm_defs]: "update_plReqState_lockless myStat event =
     (case st_plReq myStat of
        PLREQ_S_INIT \<Rightarrow> update_PLReqS_Init myStat event
      | PLREQ_S_WAIT_IO_DONE \<Rightarrow> update_PLReqS_WaitIO myStat event
      | PLREQ_S_CI_CALLER \<Rightarrow> update_PLReqS_CICaller myStat event
      | PLREQ_S_TO_Check \<Rightarrow> update_PLReqS_TOCheck myStat event
      | _ \<Rightarrow> (PLREQ_A_NoAction, myStat))"

definition PLReq_update_state :: "PLReq_fsm_t \<Rightarrow> PLREQ_FSM_TREvent_t \<Rightarrow> PLREQ_FSM_action_t \<times> PLReq_fsm_t" where
  [fsm_defs]: "PLReq_update_state stat event = update_plReqState_lockless stat event"

definition plReqStat_str :: "string list" where
  "plReqStat_str =
     [''PLReq unknown'',
      ''PLReq init'',
      ''PLReq wait IO DONE'',
      ''PLReq Commit Caller'',
      ''PLReq timeout check'',
      ''PLReq unknown'']"

definition plReqAction_str :: "string list" where
  "plReqAction_str =
     [''PLReq Unknown'',
      ''PLReq No action'',
      ''PLReq RW Data'',
      ''PLReq Commit Caller'',
      ''PLReq timeout check'',
      ''PLReq Wait Data'',
      ''PLReq Unknown'']"

definition PLReq_get_action_str :: "PLREQ_FSM_action_t \<Rightarrow> string" where
  "PLReq_get_action_str action =
     (if action > PLREQ_A_START \<and> action < PLREQ_A_END then plReqAction_str ! PLREQ_FSM_action_t_val action
      else plReqAction_str ! PLREQ_FSM_action_t_val PLREQ_A_END)"

definition PLReq_get_state :: "PLReq_fsm_t \<Rightarrow> PLREQ_FSM_state_t" where
  "PLReq_get_state stat = st_plReq stat"

definition PLReq_get_state_str :: "PLReq_fsm_t \<Rightarrow> string" where
  "PLReq_get_state_str stat =
     (let myStat = PLReq_get_state stat in
      if myStat > PLREQ_S_START \<and> myStat < PLREQ_S_END then plReqStat_str ! PLREQ_FSM_state_t_val myStat
      else plReqStat_str ! PLREQ_FSM_state_t_val PLREQ_S_END)"

definition PLReq_init_fsm :: "PLReq_fsm_t \<Rightarrow> PLReq_fsm_t" where
  "PLReq_init_fsm stat = stat\<lparr>st_plReq := PLREQ_S_INIT\<rparr>"

subsection \<open>Contracts\<close>

definition plReq_stage :: "PLReq_fsm_t \<Rightarrow> nat" where
  "plReq_stage s = (case st_plReq s of
      PLREQ_S_WAIT_IO_DONE \<Rightarrow> 1 | PLREQ_S_TO_Check \<Rightarrow> 1 | PLREQ_S_CI_CALLER \<Rightarrow> 2 | _ \<Rightarrow> 0)"

text \<open>The transfer is started once, and committed to the caller at most once and afterwards.\<close>

interpretation plReq_pipe: fsm_pipeline PLReq_update_state plReq_stage "[PLREQ_A_RWData, PLREQ_A_DO_CICaller]"
proof unfold_locales
  fix s e
  show "plReq_stage s \<le> length [PLREQ_A_RWData, PLREQ_A_DO_CICaller]"
    by (cases "st_plReq s") (simp_all add: plReq_stage_def)
  show "(plReq_stage (snd (PLReq_update_state s e)) = plReq_stage s \<and>
          fst (PLReq_update_state s e) \<notin> set [PLREQ_A_RWData, PLREQ_A_DO_CICaller]) \<or>
        (plReq_stage s < length [PLREQ_A_RWData, PLREQ_A_DO_CICaller] \<and>
          fst (PLReq_update_state s e) = [PLREQ_A_RWData, PLREQ_A_DO_CICaller] ! plReq_stage s \<and>
          plReq_stage (snd (PLReq_update_state s e)) = Suc (plReq_stage s))"
    by (cases "st_plReq s"; cases e) (simp_all add: fsm_defs plReq_stage_def)
qed simp_all

text \<open>The timeout check is under way exactly between its start and its end or a commit.\<close>

interpretation plReq_check: fsm_flag PLReq_update_state "\<lambda>a. a = PLREQ_A_DO_TOFireChk"
    "\<lambda>a. a = PLREQ_A_DO_WaitData \<or> a = PLREQ_A_DO_CICaller" "\<lambda>s. st_plReq s = PLREQ_S_TO_Check"
proof unfold_locales
  fix s e
  show "(st_plReq (snd (PLReq_update_state s e)) = PLREQ_S_TO_Check) =
     (if fst (PLReq_update_state s e) = PLREQ_A_DO_TOFireChk then True
      else if fst (PLReq_update_state s e) = PLREQ_A_DO_WaitData \<or> fst (PLReq_update_state s e) = PLREQ_A_DO_CICaller
      then False else st_plReq s = PLREQ_S_TO_Check)"
    by (cases "st_plReq s"; cases e) (simp_all add: fsm_defs)
qed

subsection \<open>Properties\<close>

text \<open>(C33) A payload request is started once and committed to its caller at most once, after the start, however
  the acknowledgement callbacks and the timeout thread interleave; and it is in its timeout check exactly
  when the last of the check, wait and commit permissions handed out was a check.\<close>

theorem plReq_commits_once:
  "filter (\<lambda>a. a \<in> {PLREQ_A_RWData, PLREQ_A_DO_CICaller})
     (map snd (fsm_trace PLReq_update_state (PLReq_init_fsm s) es))
   = take (plReq_stage (fsm_final PLReq_update_state (PLReq_init_fsm s) es)) [PLREQ_A_RWData, PLREQ_A_DO_CICaller] \<and>
   (st_plReq (fsm_final PLReq_update_state (PLReq_init_fsm s) es) = PLREQ_S_TO_Check) =
     last_signal (\<lambda>a. a = PLREQ_A_DO_TOFireChk) (\<lambda>a. a = PLREQ_A_DO_WaitData \<or> a = PLREQ_A_DO_CICaller) False
       (fsm_trace PLReq_update_state (PLReq_init_fsm s) es)"
proof
  have "plReq_stage (PLReq_init_fsm s) = 0" by (simp add: plReq_stage_def PLReq_init_fsm_def)
  from plReq_pipe.pipeline_order [OF this, of es]
  show "filter (\<lambda>a. a \<in> {PLREQ_A_RWData, PLREQ_A_DO_CICaller})
     (map snd (fsm_trace PLReq_update_state (PLReq_init_fsm s) es))
   = take (plReq_stage (fsm_final PLReq_update_state (PLReq_init_fsm s) es)) [PLREQ_A_RWData, PLREQ_A_DO_CICaller]"
    by simp
  show "(st_plReq (fsm_final PLReq_update_state (PLReq_init_fsm s) es) = PLREQ_S_TO_Check) =
     last_signal (\<lambda>a. a = PLREQ_A_DO_TOFireChk) (\<lambda>a. a = PLREQ_A_DO_WaitData \<or> a = PLREQ_A_DO_CICaller) False
       (fsm_trace PLReq_update_state (PLReq_init_fsm s) es)"
    using plReq_check.flag_truthful [of "PLReq_init_fsm s" es] by (simp add: PLReq_init_fsm_def)
qed

end
