(* ===== verification/Common_Util.thy ===== *)
theory Common_Util
  imports Disco_Prelude
begin

text \<open>
  The arithmetic and bit utilities of \<^verbatim>\<open>common/common_util.c\<close>: packing of a datanode location
  (rbid, length, offset) into 64 bits, the sector masks of a logical block, request state bits, the
  guarded division and the IPv4 address conversions.  Machine integers are words of their width;
  conversions between signed and unsigned types are written as the casts C performs.
\<close>

unbundle bit_operations_syntax

subsection \<open>Atomic bit operations of the kernel\<close>

definition test_and_set_bit :: "nat \<Rightarrow> 'a::len word \<Rightarrow> bool \<times> 'a word" where
  "test_and_set_bit n w = (bit w n, set_bit n w)"

definition test_and_clear_bit :: "nat \<Rightarrow> 'a::len word \<Rightarrow> bool \<times> 'a word" where
  "test_and_clear_bit n w = (bit w n, unset_bit n w)"

subsection \<open>Comparison and division\<close>

datatype triple_cmp_type_t = cmp_1st_Min | cmp_2nd_Min | cmp_3rd_Min

definition cmp_triple_int :: "int \<Rightarrow> int \<Rightarrow> int \<Rightarrow> triple_cmp_type_t" where
  "cmp_triple_int num1 num2 num3 =
     (if num1 \<ge> num2 then (if num2 \<ge> num3 then cmp_3rd_Min else cmp_2nd_Min)
      else (if num1 \<ge> num3 then cmp_3rd_Min else cmp_1st_Min))"

lemma cmp_triple_int_min:
  "(case cmp_triple_int a b c of cmp_1st_Min \<Rightarrow> a | cmp_2nd_Min \<Rightarrow> b | cmp_3rd_Min \<Rightarrow> c) = min a (min b c)"
  by (simp add: cmp_triple_int_def)

definition do_divide :: "u64 \<Rightarrow> u64 \<Rightarrow> u64" where
  "do_divide dividend divisor = (if divisor \<le> 0 then 0 else dividend div divisor)"

lemma do_divide_unat: "unat (do_divide a b) = unat a div unat b"
  by (simp add: do_divide_def unat_div)

subsection \<open>Sector masks\<close>

text \<open>Bits per mask byte: one bit for each of the eight 512-byte sectors of a logical block.\<close>

definition BIT_LEN_PER_1_MASK :: nat where
  "BIT_LEN_PER_1_MASK = 8"

function head_sect_loop :: "u8 \<Rightarrow> nat \<Rightarrow> nat \<Rightarrow> nat" where
  "head_sect_loop mask_val mask_bit_start num_of_sec =
     (if mask_bit_start < BIT_LEN_PER_1_MASK
      then if bit mask_val mask_bit_start then num_of_sec
           else head_sect_loop mask_val (mask_bit_start + 1) (num_of_sec + 1)
      else num_of_sec)"
  by pat_completeness auto
termination
  by (relation "measure (\<lambda>(m, i, n). BIT_LEN_PER_1_MASK - i)") (auto simp: BIT_LEN_PER_1_MASK_def)

declare head_sect_loop.simps [simp del]

definition head_sect_skip :: "u8 \<Rightarrow> nat" where
  "head_sect_skip mask_val = head_sect_loop mask_val 0 0"

text \<open>The counter of the downward loop is unsigned, so its condition \<open>mask_bit_start >= 0\<close> never
  fails: without a bit set the loop runs past bit 0 of the mask and reads memory that is not the mask.
  That is the value \<^const>\<open>None\<close>.\<close>

primrec tail_sect_loop :: "u8 \<Rightarrow> nat \<Rightarrow> nat \<Rightarrow> nat option" where
  "tail_sect_loop mask_val 0 num_of_sec = (if bit mask_val 0 then Some num_of_sec else None)"
| "tail_sect_loop mask_val (Suc i) num_of_sec =
     (if bit mask_val (Suc i) then Some num_of_sec else tail_sect_loop mask_val i (num_of_sec + 1))"

definition tail_sect_skip :: "u8 \<Rightarrow> nat option" where
  "tail_sect_skip mask_val = tail_sect_loop mask_val (BIT_LEN_PER_1_MASK - 1) 0"

text \<open>The head count is the index of the lowest set bit, or eight for the empty mask; the tail
  count is the number of clear bits above the highest set bit.\<close>

lemma head_sect_loop_spec:
  assumes "i \<le> k" "k \<le> 8" "k = 8 \<or> bit m k" "\<And>j. i \<le> j \<Longrightarrow> j < k \<Longrightarrow> \<not> bit m j"
  shows "head_sect_loop m i n = n + (k - i)"
  using assms
proof (induction "k - i" arbitrary: i n)
  case 0
  then have "i = k" by simp
  with "0.prems" show ?case
    by (subst head_sect_loop.simps) (auto simp: BIT_LEN_PER_1_MASK_def)
next
  case (Suc d)
  then have "i < k" "d = k - Suc i" by simp_all
  with Suc.hyps(1) [of "Suc i" "n + 1"] Suc.prems
  have "head_sect_loop m (Suc i) (n + 1) = n + 1 + (k - Suc i)" by simp
  moreover have "\<not> bit m i" "i < 8" using Suc.prems \<open>i < k\<close> by auto
  ultimately show ?case
    using \<open>i < k\<close> by (subst head_sect_loop.simps) (simp add: BIT_LEN_PER_1_MASK_def)
qed

lemma head_sect_skip_eq:
  assumes "k \<le> 8" "k = 8 \<or> bit m k" "\<And>j. j < k \<Longrightarrow> \<not> bit m j"
  shows "head_sect_skip m = k"
  using head_sect_loop_spec [of 0 k m 0] assms by (simp add: head_sect_skip_def)

lemma tail_sect_loop_spec:
  assumes "k \<le> i" "bit m k" "\<And>j. k < j \<Longrightarrow> j \<le> i \<Longrightarrow> \<not> bit m j"
  shows "tail_sect_loop m i n = Some (n + (i - k))"
  using assms
proof (induction i arbitrary: n)
  case (Suc i)
  then show ?case by (cases "k = Suc i") auto
qed simp

lemma tail_sect_loop_none: "(\<And>j. j \<le> i \<Longrightarrow> \<not> bit m j) \<Longrightarrow> tail_sect_loop m i n = None"
  by (induction i arbitrary: n) auto

lemma tail_sect_skip_eq:
  assumes "k < 8" "bit m k" "\<And>j. k < j \<Longrightarrow> j < 8 \<Longrightarrow> \<not> bit m j"
  shows "tail_sect_skip m = Some (7 - k)"
proof -
  have "tail_sect_loop m 7 0 = Some (0 + (7 - k))"
    using assms by (intro tail_sect_loop_spec) auto
  then show ?thesis by (simp add: tail_sect_skip_def BIT_LEN_PER_1_MASK_def)
qed

subsection \<open>Request state bits\<close>

record req_state_trace_t =
  state :: u32

definition test_and_set_request_state :: "req_state_trace_t \<Rightarrow> nat \<Rightarrow> bool \<Rightarrow> bool \<times> req_state_trace_t" where
  "test_and_set_request_state req_state b value =
     (let r = (if value then test_and_set_bit b (state req_state) else test_and_clear_bit b (state req_state))
      in (fst r, req_state\<lparr>state := snd r\<rparr>))"

definition test_req_state :: "req_state_trace_t \<Rightarrow> nat \<Rightarrow> bool" where
  "test_req_state req_state b = bit (state req_state) b"

definition set_request_state :: "req_state_trace_t \<Rightarrow> nat \<Rightarrow> bool \<Rightarrow> req_state_trace_t" where
  "set_request_state req_state b value =
     req_state\<lparr>state := (if value then set_bit b (state req_state) else unset_bit b (state req_state))\<rparr>"

definition test_req_state_lock :: "req_state_trace_t \<Rightarrow> nat \<Rightarrow> bool" where
  "test_req_state_lock req_state b = bit (state req_state) b"

definition set_req_state_lock :: "req_state_trace_t \<Rightarrow> nat \<Rightarrow> bool \<Rightarrow> req_state_trace_t" where
  "set_req_state_lock req_state b value =
     req_state\<lparr>state := (if value then set_bit b (state req_state) else unset_bit b (state req_state))\<rparr>"

definition clear_request_state :: "req_state_trace_t \<Rightarrow> req_state_trace_t" where
  "clear_request_state req_state = req_state\<lparr>state := 0\<rparr>"

definition init_request_state :: "req_state_trace_t \<Rightarrow> req_state_trace_t" where
  "init_request_state req_state = req_state\<lparr>state := 0\<rparr>"

text \<open>The state bits are 32 independent flags; an operation returns the old value of the bit it sets.\<close>

lemma test_and_set_request_state_spec:
  assumes "b < 32"
  shows "test_req_state (snd (test_and_set_request_state r b v)) c = (if c = b then v else test_req_state r c)"
    and "fst (test_and_set_request_state r b v) = test_req_state r b"
    and "snd (test_and_set_request_state r b v) = set_request_state r b v"
  using assms
  by (auto simp: test_and_set_request_state_def test_req_state_def set_request_state_def
      test_and_set_bit_def test_and_clear_bit_def bit_simps Let_def)

subsection \<open>Datanode locations in 64 bits\<close>

definition compose_len_off :: "32 word \<Rightarrow> 32 word \<Rightarrow> u64" where
  "compose_len_off len offset = push_bit 40 (scast len) OR scast offset"

definition compose_triple :: "32 word \<Rightarrow> 32 word \<Rightarrow> 32 word \<Rightarrow> u64" where
  "compose_triple rbid len offset = (push_bit 32 (scast rbid) OR push_bit 20 (scast len)) OR scast offset"

definition decompose_triple :: "u64 \<Rightarrow> 32 word \<times> 32 word \<times> 32 word" where
  "decompose_triple val =
     (let tmp = push_bit 32 val in
      (ucast (drop_bit 32 val),
       signed_drop_bit 20 (ucast (drop_bit 32 tmp) :: 32 word),
       ucast (val AND 0x00000000000fffff)))"

lemma bit_less_exp:
  assumes "x < (2 :: 'a::len word) ^ n" "n < LENGTH('a)" "bit x k"
  shows "k < n"
proof -
  have "unat ((2 :: 'a word) ^ n) = unat (of_nat (2 ^ n) :: 'a word)" by simp
  also have "\<dots> = 2 ^ n" using assms(2) by (simp only: unsigned_of_nat of_nat_id take_bit_nat_eq_self power_strict_increasing)
  finally have "unat x < 2 ^ n" using assms(1) by (simp add: word_less_nat_alt)
  then have "x = take_bit n x"
    by (metis take_bit_nat_eq_self unsigned_take_bit_eq word_unat_eq_iff)
  then show ?thesis using assms(3) by (metis bit_take_bit_iff)
qed

lemma mask20: "(0x00000000000fffff :: u64) = mask 20"
  by (simp add: mask_eq_exp_minus_1)

lemma compose_triple_bit:
  fixes r l f :: "32 word"
  assumes "l < 2 ^ 11" "f < 2 ^ 20" "n < 64"
  shows "bit (compose_triple r l f) n =
    (if n < 20 then bit f n else if n < 32 then n < 31 \<and> bit l (n - 20) else bit r (n - 32))"
proof -
  have l: "\<And>k. bit l k \<Longrightarrow> k < 11" using bit_less_exp [OF assms(1)] by simp
  have f: "\<And>k. bit f k \<Longrightarrow> k < 20" using bit_less_exp [OF assms(2)] by simp
  have "\<not> bit l 31" "\<not> bit f 31" using l [of 31] f [of 31] by auto
  moreover have "min (n - 32) 31 = n - 32" using assms(3) by simp
  ultimately show ?thesis
    using assms(3) l [of "n - 20"] l [of "min 31 (n - 20)"] f [of n] f [of "min 31 n"]
    by (auto simp: compose_triple_def bit_simps)
qed

lemma decompose_compose_triple:
  fixes r l f :: "32 word"
  assumes "l < 2 ^ 11" "f < 2 ^ 20"
  shows "decompose_triple (compose_triple r l f) = (r, l, f)"
proof -
  have l: "\<And>k. bit l k \<Longrightarrow> k < 11" using bit_less_exp [OF assms(1)] by simp
  have f: "\<And>k. bit f k \<Longrightarrow> k < 20" using bit_less_exp [OF assms(2)] by simp
  let ?v = "compose_triple r l f"
  have "ucast (drop_bit 32 ?v) = r"
    by (rule bit_word_eqI) (simp add: bit_simps compose_triple_bit [OF assms])
  moreover have "signed_drop_bit 20 (ucast (drop_bit 32 (push_bit 32 ?v)) :: 32 word) = l"
  proof (rule bit_word_eqI)
    fix n
    assume "n < LENGTH(32)"
    then show "bit (signed_drop_bit 20 (ucast (drop_bit 32 (push_bit 32 ?v)) :: 32 word)) n = bit l n"
      using l [of n] by (auto simp: bit_simps compose_triple_bit [OF assms])
  qed
  moreover have "ucast (?v AND 0x00000000000fffff) = f"
    by (rule bit_word_eqI) (use f in \<open>auto simp: mask20 bit_simps compose_triple_bit [OF assms]\<close>)
  ultimately show ?thesis by (simp add: decompose_triple_def Let_def)
qed

lemma compose_decompose_triple:
  assumes "\<not> bit v 31"
  shows "(case decompose_triple v of (r, l, f) \<Rightarrow> compose_triple r l f) = v"
proof (rule bit_word_eqI)
  fix n
  assume n: "n < LENGTH(64)"
  then have [simp]: "min (n - 32) 31 = n - 32" by simp
  let ?f = "ucast (v AND 0x00000000000fffff) :: 32 word"
  have f: "bit (scast ?f :: u64) n = (n < 20 \<and> bit v n)"
    using n by (auto simp: bit_simps mask20 min_def)
  let ?w = "ucast (drop_bit 32 (push_bit 32 v)) :: 32 word"
  have l: "bit (push_bit 20 (scast (signed_drop_bit 20 ?w)) :: u64) n = (20 \<le> n \<and> n < 32 \<and> bit v n)"
    using n assms by (auto simp: bit_simps min_def)
  have r: "bit (push_bit 32 (scast (ucast (drop_bit 32 v) :: 32 word)) :: u64) n = (32 \<le> n \<and> bit v n)"
    using n by (auto simp: bit_simps)
  show "bit (case decompose_triple v of (r, l, f) \<Rightarrow> compose_triple r l f) n = bit v n"
    using f l r by (auto simp: decompose_triple_def compose_triple_def Let_def bit_or_iff)
qed



text \<open>The length field has twelve bits, but its sign is extended: a length of 2048 blocks comes back
  negative.\<close>

lemma decompose_triple_negative_len:
  "decompose_triple (compose_triple 7 2048 0) = (7, - 2048, 0)"
  by code_simp

end
