(* ===== verification/Io_Layout.thy ===== *)
theory Io_Layout
  imports Common_Util
begin

text \<open>
  How an I/O request maps sectors to logical blocks (\<^verbatim>\<open>io_manager/discoC_IORequest.c\<close>): the range of
  4096-byte blocks a range of 512-byte sectors touches, and the per-block sector masks with the
  alignment verdict.  Sector numbers are unsigned 64-bit; the wrap-around is written out.
\<close>

unbundle bit_operations_syntax

definition w64 :: "nat \<Rightarrow> nat" where
  "w64 n = n mod 2 ^ 64"

definition w32 :: "nat \<Rightarrow> nat" where
  "w32 n = n mod 2 ^ 32"

definition sub64 :: "nat \<Rightarrow> nat \<Rightarrow> nat" where
  "sub64 a b = (a + 2 ^ 64 - b) mod 2 ^ 64"

lemma w64_less [simp]: "n < 2 ^ 64 \<Longrightarrow> w64 n = n"
  by (simp add: w64_def)

lemma w32_less [simp]: "n < 2 ^ 32 \<Longrightarrow> w32 n = n"
  by (simp add: w32_def)

lemma sub64_less [simp]:
  assumes "b \<le> a" "a < 2 ^ 64"
  shows "sub64 a b = a - b"
proof -
  have "a + 2 ^ 64 - b = (a - b) + 2 ^ 64" using assms(1) by (rule Nat.diff_add_assoc2)
  moreover have "a - b < 2 ^ 64" using assms by linarith
  ultimately show ?thesis by (simp only: sub64_def mod_add_self2 mod_less)
qed

subsection \<open>The block range of a request\<close>

text \<open>Sectors per logical block, as a bit length.\<close>

definition BIT_LEN_DMS_LB_SECTS :: nat where
  "BIT_LEN_DMS_LB_SECTS = 3"

text \<open>The start block and the number of blocks (a 32-bit field) of \<^verbatim>\<open>ioReq_init_request\<close>.\<close>

definition ioReq_lb_range :: "nat \<Rightarrow> nat \<Rightarrow> nat \<times> nat" where
  "ioReq_lb_range kern_sect nr_ksects =
     (let lbid_start = kern_sect div 2 ^ BIT_LEN_DMS_LB_SECTS in
      (lbid_start,
       w32 (w64 (sub64 (sub64 (w64 (kern_sect + nr_ksects)) 1 div 2 ^ BIT_LEN_DMS_LB_SECTS) lbid_start + 1))))"

lemma ioReq_lb_range_eq:
  assumes "0 < n" "n < 2 ^ 32" "s + n < 2 ^ 64"
  shows "ioReq_lb_range s n = (s div 8, (s + n - 1) div 8 - s div 8 + 1)"
proof -
  have *: "s div 8 \<le> (s + n - 1) div 8" using assms(1) by (simp add: div_le_mono)
  have "s + n - 1 \<le> 8 * (s div 8) + (n + 6)" using assms(1) by linarith
  then have "(s + n - 1) div 8 \<le> (8 * (s div 8) + (n + 6)) div 8" by (rule div_le_mono)
  also have "\<dots> = s div 8 + (n + 6) div 8" by simp
  finally have "(s + n - 1) div 8 - s div 8 + 1 \<le> (n + 6) div 8 + 1" by linarith
  also have "\<dots> \<le> n" using assms(1) by linarith
  finally have "(s + n - 1) div 8 - s div 8 + 1 \<le> n" .
  then have "(s + n - 1) div 8 - s div 8 + 1 < 2 ^ 32" using assms(2) by linarith
  moreover have "(s + n - 1) div 8 < 2 ^ 64" using assms(3) by simp
  ultimately show ?thesis
    using assms * by (simp add: ioReq_lb_range_def Let_def BIT_LEN_DMS_LB_SECTS_def)
qed

subsection \<open>The sector masks (\<^verbatim>\<open>_ioReq_set_lbalign_mask\<close>)\<close>

text \<open>Writing a mask byte outside the array is the error \<^const>\<open>None\<close>.\<close>

function lbalign_loop :: "u8 list \<Rightarrow> nat \<Rightarrow> nat \<Rightarrow> nat \<Rightarrow> (u8 list \<times> nat) option" where
  "lbalign_loop masks i sect_start sect_end =
     (if sect_start < sect_end then
        let startbit = sect_start mod BIT_LEN_PER_1_MASK;
            rangebit = BIT_LEN_PER_1_MASK - startbit;
            bitlen = (if w64 (sect_start + rangebit) \<ge> sect_end then sect_end - sect_start else rangebit);
            bitend = bitlen + startbit
        in if i < length masks
           then lbalign_loop (masks[i := fold set_bit [startbit..<bitend] (masks ! i)]) (i + 1)
                  (w64 (sect_start + bitlen)) sect_end
           else None
      else Some (masks, i))"
  by pat_completeness auto
termination
  by (relation "measure (\<lambda>(masks, i, s, e). length masks - i)") auto

declare lbalign_loop.simps [simp del]

definition ioReq_set_lbalign_mask :: "nat \<Rightarrow> nat \<Rightarrow> (u8 list \<times> bool) option" where
  "ioReq_set_lbalign_mask sect_begin sect_len =
     (case lbalign_loop (replicate MAX_LBS_PER_IOR 0) 0 sect_begin (w64 (sect_begin + sect_len)) of
        None \<Rightarrow> None
      | Some (masks, i) \<Rightarrow>
          if i = 0 then None else Some (masks, masks ! 0 = 0xff \<and> masks ! (i - 1) = 0xff))"

lemma bit_fold_set_bit:
  fixes w :: u8
  assumes "b \<le> 8"
  shows "bit (fold set_bit [a..<b] w) j = (bit w j \<or> (a \<le> j \<and> j < b))"
  using assms
proof (induction b)
  case (Suc b)
  then show ?case by (cases "a \<le> b") (auto simp: bit_simps less_Suc_eq)
qed simp

lemma block_round: "s + (8 - s mod 8) = 8 * (s div 8 + 1)" "8 - s mod 8 + s mod 8 = (8 :: nat)"
proof -
  define q r where "q = s div 8" and "r = s mod 8"
  have "s = 8 * q + r" "r < 8" by (simp_all add: q_def r_def)
  then have "s + (8 - r) = 8 * (q + 1)" and "8 - r + r = 8" by auto
  then show "s + (8 - s mod 8) = 8 * (s div 8 + 1)" "8 - s mod 8 + s mod 8 = 8"
    by (simp_all only: q_def r_def)
qed

lemma lbalign_loop_end: "e \<le> s \<Longrightarrow> lbalign_loop masks i s e = Some (masks, i)"
  by (subst lbalign_loop.simps) simp

lemma lbalign_loop_last:
  assumes "s < e" "e + 8 \<le> 2 ^ 64" "i < length masks" "(e - 1) div 8 = s div 8"
  shows "lbalign_loop masks i s e
    = Some (masks[i := fold set_bit [s mod 8..<e - s + s mod 8] (masks ! i)], i + 1)"
proof -
  obtain e' where e': "e = Suc e'" using assms(1) by (cases e) auto
  have "e' < 8 * (s div 8) + 8" using assms(4) dividend_less_div_times [of 8 e'] e' by simp
  then have c: "e \<le> s + (8 - s mod 8)" using block_round(1) [of s] e' by simp
  have w: "w64 (s + (8 - s mod 8)) = s + (8 - s mod 8)" "w64 e = e"
    using assms(1,2) by (auto intro!: w64_less less_le_trans [OF _ assms(2)])
  show ?thesis
    using assms(1,3) c w by (subst lbalign_loop.simps) (simp add: Let_def BIT_LEN_PER_1_MASK_def lbalign_loop_end)
qed

lemma lbalign_loop_step:
  assumes "s < e" "e + 8 \<le> 2 ^ 64" "i < length masks" "(e - 1) div 8 \<noteq> s div 8"
  shows "lbalign_loop masks i s e
    = lbalign_loop (masks[i := fold set_bit [s mod 8..<8] (masks ! i)]) (i + 1) (8 * (s div 8 + 1)) e"
proof -
  obtain e' where e': "e = Suc e'" using assms(1) by (cases e) auto
  note s8 = block_round [of s]
  have "s div 8 + 1 \<le> e' div 8" using assms(1,4) div_le_mono [of s e' 8] e' by simp
  then have "8 * (s div 8 + 1) \<le> 8 * (e' div 8)" by (rule mult_le_mono2)
  also have "\<dots> \<le> e'" by simp
  finally have "s + (8 - s mod 8) < e" unfolding s8(1) e' by simp
  moreover from this have "w64 (s + (8 - s mod 8)) = s + (8 - s mod 8)"
    by (intro w64_less less_le_trans [OF _ assms(2)]) simp
  ultimately show ?thesis
    using assms(1,3) s8 by (subst lbalign_loop.simps) (simp add: Let_def BIT_LEN_PER_1_MASK_def)
qed

text \<open>The bits the loop sets: those of the sectors in \<open>[s, e)\<close>, block by block from index \<open>i\<close> on.\<close>

lemma lbalign_loop_spec:
  assumes "s < e" "e + 8 \<le> 2 ^ 64" "i + ((e - 1) div 8 - s div 8) < length masks"
  shows "\<exists>masks'. lbalign_loop masks i s e = Some (masks', i + ((e - 1) div 8 - s div 8) + 1) \<and>
    length masks' = length masks \<and>
    (\<forall>k < length masks. \<forall>j < 8. bit (masks' ! k) j =
       (bit (masks ! k) j \<or> (i \<le> k \<and> s \<le> 8 * (s div 8 + (k - i)) + j \<and> 8 * (s div 8 + (k - i)) + j < e)))"
  using assms
proof (induction "(e - 1) div 8 - s div 8" arbitrary: masks i s)
  case 0
  then have eq: "(e - 1) div 8 = s div 8"
    using div_le_mono [of s "e - 1" 8] by simp
  obtain e' where e': "e = Suc e'" using "0.prems"(1) by (cases e) auto
  have "e' < 8 * (s div 8) + 8" using eq dividend_less_div_times [of 8 e'] e' by simp
  then have e: "e \<le> 8 * (s div 8) + 8" using e' by simp
  have sm: "s = 8 * (s div 8) + s mod 8" by simp
  have i: "i < length masks" using "0.prems"(3) by simp
  have b8: "e - s + s mod 8 \<le> 8" using e sm "0.prems"(1) by linarith
  have "bit (masks[i := fold set_bit [s mod 8..<e - s + s mod 8] (masks ! i)] ! k) j = (bit (masks ! k) j \<or>
      (i \<le> k \<and> s \<le> 8 * (s div 8 + (k - i)) + j \<and> 8 * (s div 8 + (k - i)) + j < e))"
    if k: "k < length masks" and j: "j < 8" for k j
  proof (cases "k = i")
    case True
    have "s mod 8 \<le> j \<longleftrightarrow> s \<le> 8 * (s div 8) + j" "j < e - s + s mod 8 \<longleftrightarrow> 8 * (s div 8) + j < e"
      using sm "0.prems"(1) by linarith+
    then show ?thesis using True k j b8 by (simp add: bit_fold_set_bit)
  next
    case False
    have "e \<le> 8 * (s div 8 + (k - i)) + j" if "i < k"
    proof -
      have "8 * 1 \<le> 8 * (k - i)" using that by (intro mult_le_mono2) simp
      then show ?thesis using e by (simp add: add_mult_distrib2)
    qed
    then show ?thesis using False by auto
  qed
  then show ?case
    using lbalign_loop_last [OF "0.prems"(1,2) i eq] eq by simp
next
  case (Suc d)
  let ?m = "masks[i := fold set_bit [s mod 8..<8] (masks ! i)]" and ?s = "8 * (s div 8 + 1)"
  have q: "(e - 1) div 8 = s div 8 + Suc d" using Suc.hyps(2) by simp
  have ne: "(e - 1) div 8 \<noteq> s div 8" using q by simp
  have i: "i < length masks" using Suc.prems(3) by simp
  have div: "?s div 8 = s div 8 + 1" by simp
  have d: "d = (e - 1) div 8 - ?s div 8" using q div by simp
  have "?s \<le> 8 * ((e - 1) div 8)" using q by simp
  also have "\<dots> \<le> e - 1" by simp
  finally have less: "?s < e" using Suc.prems(1) by simp
  have "i + 1 + ((e - 1) div 8 - ?s div 8) < length ?m" using Suc.prems(3) q div by simp
  from Suc.hyps(1) [OF d less Suc.prems(2) this]
  obtain masks' where r: "lbalign_loop ?m (i + 1) ?s e = Some (masks', i + 1 + ((e - 1) div 8 - ?s div 8) + 1)"
    and len: "length masks' = length ?m"
    and bits: "\<And>k j. k < length ?m \<Longrightarrow> j < 8 \<Longrightarrow> bit (masks' ! k) j =
       (bit (?m ! k) j \<or> (i + 1 \<le> k \<and> ?s \<le> 8 * (?s div 8 + (k - (i + 1))) + j \<and> 8 * (?s div 8 + (k - (i + 1))) + j < e))"
    by blast
  have "lbalign_loop masks i s e = Some (masks', i + ((e - 1) div 8 - s div 8) + 1)"
    using lbalign_loop_step [OF Suc.prems(1,2) i ne] r q div by simp
  moreover have "bit (masks' ! k) j = (bit (masks ! k) j \<or>
      (i \<le> k \<and> s \<le> 8 * (s div 8 + (k - i)) + j \<and> 8 * (s div 8 + (k - i)) + j < e))"
    if k: "k < length masks" and j: "j < 8" for k j
  proof (cases "k = i")
    case True
    have "8 * (s div 8) + j < e" using less j by simp
    moreover have "s = 8 * (s div 8) + s mod 8" by simp
    then have "s mod 8 \<le> j \<longleftrightarrow> s \<le> 8 * (s div 8) + j" by linarith
    ultimately show ?thesis using bits [of k j] True k j by (simp add: bit_fold_set_bit)
  next
    case False
    then show ?thesis
    proof (cases "i < k")
      case True
      then have "?s div 8 + (k - (i + 1)) = s div 8 + (k - i)" using div by simp
      moreover have s2: "?s \<le> 8 * (s div 8 + (k - i)) + j"
        using mult_le_mono2 [of "s div 8 + 1" "s div 8 + (k - i)" 8] True by simp
      moreover have "s \<le> ?s" using block_round(1) [of s] by linarith
      then have "s \<le> 8 * (s div 8 + (k - i)) + j" using s2 by (rule order_trans)
      ultimately show ?thesis using bits [of k j] True False k j by simp
    next
      case False
      then show ?thesis using bits [of k j] \<open>k \<noteq> i\<close> k j by simp
    qed
  qed
  ultimately show ?case using len by (intro exI [of _ masks']) simp
qed

subsection \<open>Properties\<close>

text \<open>The masks of a request and the verdict on its alignment.\<close>

lemma ioReq_set_lbalign_mask_spec:
  assumes "0 < n" "s + n + 8 \<le> 2 ^ 64" "(s + n - 1) div 8 - s div 8 < MAX_LBS_PER_IOR"
  obtains masks where "ioReq_set_lbalign_mask s n =
      Some (masks, masks ! 0 = 0xff \<and> masks ! ((s + n - 1) div 8 - s div 8) = 0xff)"
    and "length masks = MAX_LBS_PER_IOR"
    and "\<And>k j. k < MAX_LBS_PER_IOR \<Longrightarrow> j < 8 \<Longrightarrow>
      bit (masks ! k) j \<longleftrightarrow> s \<le> 8 * (s div 8 + k) + j \<and> 8 * (s div 8 + k) + j < s + n"
proof -
  have w: "w64 (s + n) = s + n" using assms(2) by simp
  have "s < s + n" "0 + ((s + n - 1) div 8 - s div 8) < length (replicate MAX_LBS_PER_IOR (0 :: u8))"
    using assms by simp_all
  from lbalign_loop_spec [OF this(1) assms(2) this(2)]
  obtain masks where m: "lbalign_loop (replicate MAX_LBS_PER_IOR 0) 0 s (s + n)
        = Some (masks, (s + n - 1) div 8 - s div 8 + 1)"
    and len: "length masks = MAX_LBS_PER_IOR"
    and bits: "\<forall>k < MAX_LBS_PER_IOR. \<forall>j < 8. bit (masks ! k) j =
      (s \<le> 8 * (s div 8 + k) + j \<and> 8 * (s div 8 + k) + j < s + n)"
    by auto
  show ?thesis
  proof (rule that [OF _ len])
    show "ioReq_set_lbalign_mask s n =
      Some (masks, masks ! 0 = 0xff \<and> masks ! ((s + n - 1) div 8 - s div 8) = 0xff)"
      by (simp add: ioReq_set_lbalign_mask_def w m)
  qed (use bits in blast)
qed

lemma u8_full_iff: "(m :: u8) = 0xff \<longleftrightarrow> (\<forall>j < 8. bit m j)"
proof
  assume "\<forall>j < 8. bit m j"
  then have "m = mask 8" by (intro bit_word_eqI) (simp add: bit_simps)
  then show "m = 0xff" by (simp add: mask_eq_exp_minus_1)
next
  assume "m = 0xff"
  also have "(0xff :: u8) = mask 8" by (simp add: mask_eq_exp_minus_1)
  finally show "\<forall>j < 8. bit m j" by (simp add: bit_simps)
qed

lemma lb_count_bound:
  assumes "0 < n" "n \<le> 256"
  shows "(s + n - 1) div 8 - s div 8 \<le> (32 :: nat)"
proof -
  have "s mod 8 < 8" "s = 8 * (s div 8) + s mod 8" by simp_all
  then have "s + n - 1 \<le> 8 * (s div 8) + 262" using assms by linarith
  then have "(s + n - 1) div 8 \<le> (8 * (s div 8) + 262) div 8" by (rule div_le_mono)
  also have "\<dots> = s div 8 + 32" by simp
  finally show ?thesis by simp
qed

lemma div8_between:
  fixes s e :: nat
  assumes "s div 8 \<le> lb" "lb \<le> e div 8" "s \<le> e"
  shows "\<exists>x. s \<le> x \<and> x \<le> e \<and> x div 8 = lb"
proof (cases "8 * lb < s")
  case True
  have "lb \<le> s div 8" using True by (simp add: less_eq_div_iff_mult_less_eq mult.commute)
  then show ?thesis using assms by (intro exI [of _ s]) simp
next
  case False
  have "8 * lb \<le> 8 * (e div 8)" using assms(2) by simp
  also have "\<dots> \<le> e" by simp
  finally show ?thesis using False by (intro exI [of _ "8 * lb"]) simp
qed

text \<open>(C21) For an I/O of 1 to 256 sectors that does not run past the end of the 64-bit sector space, the block
  range computed for it is exactly the set of logical blocks its sectors lie in, and it has at most
  \<^const>\<open>MAX_LBS_PER_IOR\<close> blocks, the size of every per-block array of a request.\<close>

theorem ioReq_lb_range_exact:
  assumes "0 < n" "n \<le> 256" "s + n < 2 ^ 64"
  shows "{fst (ioReq_lb_range s n)..<fst (ioReq_lb_range s n) + snd (ioReq_lb_range s n)}
      = (\<lambda>sect. sect div 8) ` {s..<s + n} \<and> snd (ioReq_lb_range s n) \<le> MAX_LBS_PER_IOR"
proof
  have r: "ioReq_lb_range s n = (s div 8, (s + n - 1) div 8 - s div 8 + 1)"
    using assms by (intro ioReq_lb_range_eq) simp_all
  have le: "s div 8 \<le> (s + n - 1) div 8" using assms(1) by (intro div_le_mono) simp
  have "(\<exists>x\<in>{s..<s + n}. lb = x div 8) \<longleftrightarrow> s div 8 \<le> lb \<and> lb \<le> (s + n - 1) div 8" for lb
  proof
    assume "\<exists>x\<in>{s..<s + n}. lb = x div 8"
    then show "s div 8 \<le> lb \<and> lb \<le> (s + n - 1) div 8"
      by (auto intro: div_le_mono)
  next
    assume "s div 8 \<le> lb \<and> lb \<le> (s + n - 1) div 8"
    moreover have "s \<le> s + n - 1" using assms(1) by linarith
    ultimately obtain x where "s \<le> x" "x \<le> s + n - 1" "x div 8 = lb"
      using div8_between by blast
    then show "\<exists>x\<in>{s..<s + n}. lb = x div 8" using assms(1) by (intro bexI [of _ x]) auto
  qed
  then have "lb \<in> (\<lambda>sect. sect div 8) ` {s..<s + n} \<longleftrightarrow> s div 8 \<le> lb \<and> lb \<le> (s + n - 1) div 8" for lb
    by (simp only: image_iff)
  then show "{fst (ioReq_lb_range s n)..<fst (ioReq_lb_range s n) + snd (ioReq_lb_range s n)}
      = (\<lambda>sect. sect div 8) ` {s..<s + n}"
    using le by (auto simp: r less_Suc_eq_le)
  show "snd (ioReq_lb_range s n) \<le> MAX_LBS_PER_IOR"
    using lb_count_bound [OF assms(1,2), of s] by (simp add: r MAX_LBS_PER_IOR_def)
qed

theorem ioReq_lb_range_exact_witness:
  "{fst (ioReq_lb_range 13 20)..<fst (ioReq_lb_range 13 20) + snd (ioReq_lb_range 13 20)}
      = (\<lambda>sect. sect div 8) ` {13..<13 + 20} \<and> snd (ioReq_lb_range 13 20) \<le> MAX_LBS_PER_IOR"
  by (rule ioReq_lb_range_exact) simp_all

lemma full_corner_masks:
  fixes q r q' r' :: nat
  assumes "r < 8" "r' < 8" "q \<le> q'"
  shows "((\<forall>j < 8. 8 * q + r \<le> 8 * q + j \<and> 8 * q + j < Suc (8 * q' + r')) \<and>
    (\<forall>j < 8. 8 * q + r \<le> 8 * q' + j \<and> 8 * q' + j < Suc (8 * q' + r'))) \<longleftrightarrow> r = 0 \<and> r' = 7"
proof
  assume *: "(\<forall>j < 8. 8 * q + r \<le> 8 * q + j \<and> 8 * q + j < Suc (8 * q' + r')) \<and>
    (\<forall>j < 8. 8 * q + r \<le> 8 * q' + j \<and> 8 * q' + j < Suc (8 * q' + r'))"
  have "8 * q + r \<le> 8 * q + 0" by (rule * [THEN conjunct1, rule_format, THEN conjunct1]) simp
  moreover have "8 * q' + 7 < Suc (8 * q' + r')" by (rule * [THEN conjunct2, rule_format, THEN conjunct2]) simp
  ultimately show "r = 0 \<and> r' = 7" using assms(2) by simp
next
  assume "r = 0 \<and> r' = 7"
  then show "(\<forall>j < 8. 8 * q + r \<le> 8 * q + j \<and> 8 * q + j < Suc (8 * q' + r')) \<and>
    (\<forall>j < 8. 8 * q + r \<le> 8 * q' + j \<and> 8 * q' + j < Suc (8 * q' + r'))"
    using assms(3) by auto
qed



end
