(* ===== verification/Io_Overlap.thy ===== *)
theory Io_Overlap
  imports Io_Fsm Io_Layout
begin

text \<open>
  Ordering of overlapping I/O (\<^verbatim>\<open>io_manager/ioreq_ovlp.c\<close>, \<^verbatim>\<open>discoC_IOReqPool.c\<close> and the pool functions of
  \<^verbatim>\<open>discoC_IORequest.c\<close>).  A volume keeps its running requests in \<^verbatim>\<open>ioReq_pool\<close> and those that wait for an
  overlapping earlier request in \<^verbatim>\<open>ioReq_ovlp_pool\<close>; overlap items link a running or waiting request (its
  wake list) to a waiting one (its wait list).  Requests are addressed by pointers (numbers) into a
  store; the pool functions run under the pool mutex, so each is one atomic step.  Atomic counters are
  unbounded integers.  The result of the memory allocator is the parameter \<open>alloc\<close>: whether the overlap
  item for a pair of requests could be allocated.
\<close>

subsection \<open>Data\<close>

datatype iorw_dir_t = KERNEL_IO_READ | KERNEL_IO_WRITE

record UserIO_addr_t =
  metaSrv_ipaddr :: u32
  metaSrv_port :: u32
  volumeID :: u32
  lbid_len :: nat
  lbid_start :: nat

datatype IOR_ovlp_res_t = IOR_ovlp_NoOvlp | IOR_ovlp_Ovlp | IOR_ovlp_InQ | IOR_ovlp_ListBroken

datatype IOR_ovlp_wait_t = IOR_Wait_NoOvlp | IOR_Wait_Payload_All_Ovlp | IOR_Wait_Payload_Partial_Ovlp
  | IOR_Wait_MD_All_Ovlp | IOR_Wait_MD_Partial_Ovlp

record ovlp_item_t =
  process_ior :: nat
  wait_ior :: nat
  ovlp_s :: nat
  ovlp_l :: nat
  wait_type :: IOR_ovlp_wait_t

record io_request_t =
  usrIO_addr :: UserIO_addr_t
  ioReqID :: nat
  ioReq_fea :: u32
  ioReq_stat :: IOReq_fsm_t
  iodir :: iorw_dir_t
  is_ovlp_ior :: bool
  ref_cnt :: int
  wait_list :: "ovlp_item_t list"
  wake_list :: "ovlp_item_t list"
  cnt_ovlp_wait :: int
  cnt_ovlp_wake :: int

text \<open>The store of requests, the pools of one volume and the on-the-fly counters of the I/O manager.\<close>

record volume_IOReqPool_t =
  reqs :: "nat \<Rightarrow> io_request_t"
  ioReq_pool :: "nat list"
  ioReq_ovlp_pool :: "nat list"
  cnt_onfly_ioReq :: int
  cnt_onfly_ovlpioReq :: int

definition upd_req :: "nat \<Rightarrow> (io_request_t \<Rightarrow> io_request_t) \<Rightarrow> volume_IOReqPool_t \<Rightarrow> volume_IOReqPool_t" where
  "upd_req i f st = st\<lparr>reqs := (reqs st)(i := f (reqs st i))\<rparr>"

text \<open>Feature bits of a request (\<^verbatim>\<open>IOReq_fea_t\<close>).\<close>

definition IOREQ_FEA_IN_REQPOOL :: nat where
  "IOREQ_FEA_IN_REQPOOL = 0"

definition IOREQ_FEA_IN_WAITPOOL :: nat where
  "IOREQ_FEA_IN_WAITPOOL = 1"

definition ioReq_chkset_fea :: "nat \<Rightarrow> nat \<Rightarrow> volume_IOReqPool_t \<Rightarrow> bool \<times> volume_IOReqPool_t" where
  "ioReq_chkset_fea i fea_bit st =
     (let r = test_and_set_bit fea_bit (ioReq_fea (reqs st i))
      in (fst r, upd_req i (\<lambda>q. q\<lparr>ioReq_fea := snd r\<rparr>) st))"

definition ioReq_chkclear_fea :: "nat \<Rightarrow> nat \<Rightarrow> volume_IOReqPool_t \<Rightarrow> bool \<times> volume_IOReqPool_t" where
  "ioReq_chkclear_fea i fea_bit st =
     (let r = test_and_clear_bit fea_bit (ioReq_fea (reqs st i))
      in (fst r, upd_req i (\<lambda>q. q\<lparr>ioReq_fea := snd r\<rparr>) st))"

subsection \<open>Overlap check of two requests\<close>

text \<open>The kind of overlap, and the overlapping range when there is one.\<close>

definition chk_lb_ovlp :: "UserIO_addr_t \<Rightarrow> UserIO_addr_t \<Rightarrow> IOR_ovlp_wait_t \<times> (nat \<times> nat) option" where
  "chk_lb_ovlp ior_prev ior_next =
     (let next_e = sub64 (w64 (lbid_start ior_next + lbid_len ior_next)) 1;
          prev_e = sub64 (w64 (lbid_start ior_prev + lbid_len ior_prev)) 1
      in if lbid_start ior_prev > next_e then (IOR_Wait_NoOvlp, None)
         else if lbid_start ior_next > prev_e then (IOR_Wait_NoOvlp, None)
         else if lbid_start ior_prev > lbid_start ior_next then
           (IOR_Wait_Payload_Partial_Ovlp,
            Some (lbid_start ior_prev,
              if prev_e \<le> next_e then lbid_len ior_prev
              else w32 (w64 (sub64 next_e (lbid_start ior_prev) + 1))))
         else if lbid_start ior_prev = lbid_start ior_next then
           (if prev_e < next_e
            then (IOR_Wait_Payload_Partial_Ovlp, Some (lbid_start ior_prev, lbid_len ior_prev))
            else (IOR_Wait_Payload_All_Ovlp, Some (lbid_start ior_prev, lbid_len ior_next)))
         else
           (IOR_Wait_Payload_Partial_Ovlp,
            Some (lbid_start ior_next,
              if prev_e \<ge> next_e then lbid_len ior_next
              else w32 (w64 (sub64 prev_e (lbid_start ior_next) + 1)))))"

text \<open>Two reads need no overlap check.\<close>

definition chk_io_rw :: "io_request_t \<Rightarrow> io_request_t \<Rightarrow> bool" where
  "chk_io_rw ior_prev ior_next =
     (if KERNEL_IO_WRITE = iodir ior_prev then False
      else if KERNEL_IO_WRITE = iodir ior_next then False
      else True)"

definition gen_ovlp_item ::
  "nat \<Rightarrow> nat \<Rightarrow> IOR_ovlp_wait_t \<Rightarrow> nat \<Rightarrow> nat \<Rightarrow> ovlp_item_t" where
  "gen_ovlp_item ior_prev ior_next wtype s l =
     \<lparr>process_ior = ior_prev, wait_ior = ior_next, ovlp_s = s, ovlp_l = l, wait_type = wtype\<rparr>"

definition ioReq_add_waitReq :: "nat \<Rightarrow> ovlp_item_t \<Rightarrow> volume_IOReqPool_t \<Rightarrow> volume_IOReqPool_t" where
  "ioReq_add_waitReq i waitR =
     upd_req i (\<lambda>q. q\<lparr>wait_list := wait_list q @ [waitR], cnt_ovlp_wait := cnt_ovlp_wait q + 1\<rparr>)"

definition ioReq_add_wakeReq :: "nat \<Rightarrow> ovlp_item_t \<Rightarrow> volume_IOReqPool_t \<Rightarrow> volume_IOReqPool_t" where
  "ioReq_add_wakeReq i wakeR =
     upd_req i (\<lambda>q. q\<lparr>wake_list := wake_list q @ [wakeR], cnt_ovlp_wake := cnt_ovlp_wake q + 1\<rparr>)"

subsection \<open>Checking a request against a pool\<close>

text \<open>The loop body over the (reversed) queue; a failed allocation leaves the loop.\<close>

fun chk_ovlp_loop ::
  "(nat \<Rightarrow> nat \<Rightarrow> bool) \<Rightarrow> nat \<Rightarrow> nat list \<Rightarrow> IOR_ovlp_res_t \<Rightarrow> volume_IOReqPool_t
     \<Rightarrow> IOR_ovlp_res_t \<times> volume_IOReqPool_t" where
  "chk_ovlp_loop alloc io_req [] ret st = (ret, st)"
| "chk_ovlp_loop alloc io_req (cur # rest) ret st =
     (if io_req = cur then (IOR_ovlp_InQ, st)
      else if chk_io_rw (reqs st cur) (reqs st io_req) then chk_ovlp_loop alloc io_req rest ret st
      else let ov = chk_lb_ovlp (usrIO_addr (reqs st cur)) (usrIO_addr (reqs st io_req))
      in if fst ov = IOR_Wait_NoOvlp then chk_ovlp_loop alloc io_req rest ret st
         else let st1 = upd_req io_req (\<lambda>q. q\<lparr>is_ovlp_ior := True\<rparr>) st
              in if \<not> alloc cur io_req then (ret, st1)
                 else let item = gen_ovlp_item cur io_req (fst ov) (fst (the (snd ov))) (snd (the (snd ov)));
                          st2 = ioReq_add_waitReq io_req item st1;
                          st3 = ioReq_add_wakeReq cur item st2
                      in chk_ovlp_loop alloc io_req rest IOR_ovlp_Ovlp st3)"

definition ioReq_chk_ovlp ::
  "(nat \<Rightarrow> nat \<Rightarrow> bool) \<Rightarrow> nat list \<Rightarrow> nat \<Rightarrow> volume_IOReqPool_t \<Rightarrow> IOR_ovlp_res_t \<times> volume_IOReqPool_t" where
  "ioReq_chk_ovlp alloc ovlp_q io_req st = chk_ovlp_loop alloc io_req (rev ovlp_q) IOR_ovlp_NoOvlp st"

text \<open>Error numbers of \<^verbatim>\<open>errno.h\<close>.\<close>

definition EFAULT :: int where
  "EFAULT = 14"

text \<open>Whether the request has to wait, and the error.\<close>

definition chk_ovlp_ReqPool ::
  "(nat \<Rightarrow> nat \<Rightarrow> bool) \<Rightarrow> nat \<Rightarrow> nat list \<Rightarrow> volume_IOReqPool_t \<Rightarrow> (bool \<times> int) \<times> volume_IOReqPool_t" where
  "chk_ovlp_ReqPool alloc io_req lhead st =
     (let r = ioReq_chk_ovlp alloc lhead io_req st in
      (case fst r of
         IOR_ovlp_NoOvlp \<Rightarrow> ((False, 0), snd r)
       | IOR_ovlp_Ovlp \<Rightarrow> ((True, 0), snd r)
       | IOR_ovlp_InQ \<Rightarrow> ((True, - EEXIST), snd r)
       | IOR_ovlp_ListBroken \<Rightarrow> ((True, - EFAULT), snd r)))"

subsection \<open>The pools (\<^verbatim>\<open>discoC_IOReqPool.c\<close>)\<close>

definition IOReqPool_addOvlpReq_nolock :: "nat \<Rightarrow> volume_IOReqPool_t \<Rightarrow> volume_IOReqPool_t" where
  "IOReqPool_addOvlpReq_nolock ioReq st =
     (let r = ioReq_chkset_fea ioReq IOREQ_FEA_IN_WAITPOOL st in
      if fst r then snd r
      else (snd r)\<lparr>ioReq_ovlp_pool := ioReq_ovlp_pool (snd r) @ [ioReq],
                   cnt_onfly_ovlpioReq := cnt_onfly_ovlpioReq (snd r) + 1\<rparr>)"

text \<open>A request is linked into one list at a time: \<open>list_del\<close> takes it out of the list it is in.  When it
  is moved to the runnable buffer it has already left the wait pool.\<close>

definition IOReqPool_rmOvlpReq_nolock :: "nat \<Rightarrow> volume_IOReqPool_t \<Rightarrow> volume_IOReqPool_t" where
  "IOReqPool_rmOvlpReq_nolock ioReq st =
     (let r = ioReq_chkclear_fea ioReq IOREQ_FEA_IN_WAITPOOL st in
      if fst r
      then (snd r)\<lparr>ioReq_ovlp_pool := remove1 ioReq (ioReq_ovlp_pool (snd r)),
                   cnt_onfly_ovlpioReq := cnt_onfly_ovlpioReq (snd r) - 1\<rparr>
      else snd r)"

definition IOReqPool_addReq_nolock :: "nat \<Rightarrow> volume_IOReqPool_t \<Rightarrow> volume_IOReqPool_t" where
  "IOReqPool_addReq_nolock ioReq st =
     (let r = ioReq_chkset_fea ioReq IOREQ_FEA_IN_REQPOOL st in
      if fst r then snd r
      else (snd r)\<lparr>ioReq_pool := ioReq_pool (snd r) @ [ioReq],
                   cnt_onfly_ioReq := cnt_onfly_ioReq (snd r) + 1\<rparr>)"

definition IOReqPool_rmReq_nolock :: "nat \<Rightarrow> volume_IOReqPool_t \<Rightarrow> volume_IOReqPool_t" where
  "IOReqPool_rmReq_nolock ioReq st =
     (let r = ioReq_chkclear_fea ioReq IOREQ_FEA_IN_REQPOOL st in
      if fst r
      then (snd r)\<lparr>ioReq_pool := remove1 ioReq (ioReq_pool (snd r)),
                   cnt_onfly_ioReq := cnt_onfly_ioReq (snd r) - 1\<rparr>
      else snd r)"

definition ioReq_fsm_event :: "nat \<Rightarrow> IOR_FSM_TREvent_t \<Rightarrow> volume_IOReqPool_t \<Rightarrow> IOR_FSM_action_t \<times> volume_IOReqPool_t" where
  "ioReq_fsm_event i e st =
     (let r = IOReq_update_state (ioReq_stat (reqs st i)) e
      in (fst r, upd_req i (\<lambda>q. q\<lparr>ioReq_stat := snd r\<rparr>) st))"

text \<open>Adding a request: the result says whether the caller may submit it.\<close>

definition ioReq_add_ReqPool ::
  "(nat \<Rightarrow> nat \<Rightarrow> bool) \<Rightarrow> nat \<Rightarrow> volume_IOReqPool_t \<Rightarrow> bool \<times> volume_IOReqPool_t" where
  "ioReq_add_ReqPool alloc io_req st =
     (let r1 = chk_ovlp_ReqPool alloc io_req (ioReq_ovlp_pool st) st in
      if snd (fst r1) \<noteq> 0 then (False, snd r1)
      else let r2 = chk_ovlp_ReqPool alloc io_req (ioReq_pool (snd r1)) (snd r1) in
      if snd (fst r2) \<noteq> 0 then (False, snd r2)
      else if fst (fst r1) \<or> fst (fst r2) then
        let r3 = ioReq_fsm_event io_req IOREQ_E_OvlpOtherIO (snd r2)
        in (False, if fst r3 = IOREQ_A_AddOvlpWaitQ then IOReqPool_addOvlpReq_nolock io_req (snd r3) else snd r3)
      else
        let r3 = ioReq_fsm_event io_req IOREQ_E_INIT_DONE (snd r2)
        in (True, if fst r3 = IOREQ_A_SubmitIO then IOReqPool_addReq_nolock io_req (snd r3) else snd r3))"

subsection \<open>Finishing a request\<close>

text \<open>The wake-up loop over the wake list; woken requests are moved from the wait pool to a buffer.\<close>

fun get_ovlpReq_loop :: "nat \<Rightarrow> ovlp_item_t list \<Rightarrow> nat list \<times> volume_IOReqPool_t \<Rightarrow> nat list \<times> volume_IOReqPool_t" where
  "get_ovlpReq_loop io_req [] (buff, st) = (buff, st)"
| "get_ovlpReq_loop io_req (cur # rest) (buff, st) =
     (let st1 = upd_req io_req (\<lambda>q. q\<lparr>cnt_ovlp_wake := cnt_ovlp_wake q - 1\<rparr>) st;
          wake = wait_ior cur;
          st2 = upd_req wake (\<lambda>q. q\<lparr>wait_list := remove1 cur (wait_list q), cnt_ovlp_wait := cnt_ovlp_wait q - 1\<rparr>) st1
      in if cnt_ovlp_wait (reqs st2 wake) = 0 then
           let r = ioReq_fsm_event wake IOREQ_E_OvlpIODone st2
           in if fst r = IOREQ_A_SubmitIO
              then get_ovlpReq_loop io_req rest
                     (buff @ [wake], (snd r)\<lparr>ioReq_ovlp_pool := remove1 wake (ioReq_ovlp_pool (snd r))\<rparr>)
              else get_ovlpReq_loop io_req rest (buff, snd r)
         else get_ovlpReq_loop io_req rest (buff, st2))"

definition ioReq_get_ovlpReq :: "nat \<Rightarrow> volume_IOReqPool_t \<Rightarrow> nat list \<times> volume_IOReqPool_t" where
  "ioReq_get_ovlpReq io_req st =
     (let r = get_ovlpReq_loop io_req (wake_list (reqs st io_req)) ([], st)
      in (fst r, upd_req io_req (\<lambda>q. q\<lparr>wake_list := []\<rparr>) (snd r)))"

text \<open>The woken requests become running requests, in order; their submission is the caller's I/O.\<close>

fun mv_ovlp_loop :: "nat list \<Rightarrow> volume_IOReqPool_t \<Rightarrow> volume_IOReqPool_t" where
  "mv_ovlp_loop [] st = st"
| "mv_ovlp_loop (cur # rest) st =
     (let st1 = IOReqPool_rmOvlpReq_nolock cur st;
          st2 = upd_req cur (\<lambda>q. q\<lparr>ref_cnt := ref_cnt q + 1\<rparr>) st1
      in mv_ovlp_loop rest (IOReqPool_addReq_nolock cur st2))"

definition mv_ovlp_ior_toIO :: "nat \<Rightarrow> volume_IOReqPool_t \<Rightarrow> bool \<times> volume_IOReqPool_t" where
  "mv_ovlp_ior_toIO io_req st =
     (let r = ioReq_get_ovlpReq io_req st in
      if length (fst r) \<le> 0 then (False, snd r)
      else (True, mv_ovlp_loop (fst r) (snd r)))"

definition ioReq_rm_ioReqQueue :: "nat \<Rightarrow> volume_IOReqPool_t \<Rightarrow> bool \<times> volume_IOReqPool_t" where
  "ioReq_rm_ioReqQueue io_req st = mv_ovlp_ior_toIO io_req (IOReqPool_rmReq_nolock io_req st)"

fun rm_all_ovlp_loop :: "nat \<Rightarrow> ovlp_item_t list \<Rightarrow> volume_IOReqPool_t \<Rightarrow> volume_IOReqPool_t" where
  "rm_all_ovlp_loop io_req [] st = st"
| "rm_all_ovlp_loop io_req (cur # rest) st =
     rm_all_ovlp_loop io_req rest
       (upd_req io_req (\<lambda>q. q\<lparr>wake_list := remove1 cur (wake_list q), cnt_ovlp_wake := cnt_ovlp_wake q - 1\<rparr>) st)"

definition ioReq_rm_all_ovlpReq :: "nat \<Rightarrow> volume_IOReqPool_t \<Rightarrow> volume_IOReqPool_t" where
  "ioReq_rm_all_ovlpReq io_req st = rm_all_ovlp_loop io_req (wake_list (reqs st io_req)) st"

text \<open>Releasing the segment requests and the buffers of the finished request touches neither the pools nor
  another request.\<close>

definition ioReq_end_request :: "nat \<Rightarrow> volume_IOReqPool_t \<Rightarrow> volume_IOReqPool_t" where
  "ioReq_end_request io_req st = ioReq_rm_all_ovlpReq io_req (snd (ioReq_rm_ioReqQueue io_req st))"

end
