(* ===== verification/Io_Ordering.thy ===== *)
theory Io_Ordering
  imports Io_Overlap
begin

text \<open>
  Arrivals in the overlap ordering of \<^verbatim>\<open>Io_Overlap\<close>: the overlap check computes the intersection of two block
  ranges; an arriving request waits for exactly the requests it conflicts with (overlap, not both
  reads); the invariant of the two pools, and that every arrival keeps it.
\<close>

subsection \<open>The overlap check\<close>

definition lb_set :: "UserIO_addr_t \<Rightarrow> nat set" where
  "lb_set a = {lbid_start a..<lbid_start a + lbid_len a}"

definition addr_wf :: "UserIO_addr_t \<Rightarrow> bool" where
  "addr_wf a \<longleftrightarrow> 0 < lbid_len a \<and> lbid_len a < 2 ^ 32 \<and> lbid_start a + lbid_len a < 2 ^ 64"

lemma addr_end:
  assumes "addr_wf a"
  shows "sub64 (w64 (lbid_start a + lbid_len a)) 1 = lbid_start a + lbid_len a - 1"
proof -
  have "1 \<le> lbid_start a + lbid_len a" using assms by (simp add: addr_wf_def)
  then show ?thesis using assms by (simp only: addr_wf_def w64_less sub64_less)
qed

lemma addr_cut:
  assumes "addr_wf a" "lbid_start a < x" "x \<le> lbid_start a + lbid_len a - 1"
  shows "w32 (w64 (sub64 (lbid_start a + lbid_len a - 1) x + 1)) = lbid_start a + lbid_len a - x"
proof -
  let ?e = "lbid_start a + lbid_len a"
  have e: "?e < 2 ^ 64" "lbid_len a < 2 ^ 32" using assms(1) by (simp_all only: addr_wf_def)
  have "?e - 1 < 2 ^ 64" using e(1) by (rule le_less_trans [rotated]) simp
  then have "sub64 (?e - 1) x = ?e - 1 - x" using assms(3) by (simp only: sub64_less)
  moreover have "?e - 1 - x + 1 = ?e - x" using assms(2,3) by simp
  moreover have "?e - x < 2 ^ 32" using e(2) by (rule le_less_trans [rotated]) (use assms(2) in simp)
  moreover have "?e - x < 2 ^ 64" using e(1) by (rule le_less_trans [rotated]) simp
  ultimately show ?thesis by (simp only: w64_less w32_less)
qed

lemma chk_lb_ovlp_eq:
  assumes "addr_wf p" "addr_wf n"
  shows "chk_lb_ovlp p n =
    (if lbid_start p \<ge> lbid_start n + lbid_len n \<or> lbid_start n \<ge> lbid_start p + lbid_len p
     then (IOR_Wait_NoOvlp, None)
     else if lbid_start p > lbid_start n
     then (IOR_Wait_Payload_Partial_Ovlp,
           Some (lbid_start p, min (lbid_len p) (lbid_start n + lbid_len n - lbid_start p)))
     else if lbid_start p = lbid_start n
     then (if lbid_len p < lbid_len n then (IOR_Wait_Payload_Partial_Ovlp, Some (lbid_start p, lbid_len p))
           else (IOR_Wait_Payload_All_Ovlp, Some (lbid_start p, lbid_len n)))
     else (IOR_Wait_Payload_Partial_Ovlp,
           Some (lbid_start n, min (lbid_len n) (lbid_start p + lbid_len p - lbid_start n))))"
proof -
  define sp lp sn ln where "sp = lbid_start p" and "lp = lbid_len p" and "sn = lbid_start n" and "ln = lbid_len n"
  note defs = sp_def [symmetric] lp_def [symmetric] sn_def [symmetric] ln_def [symmetric]
  have pos: "0 < lp" "0 < ln" using assms by (simp_all add: addr_wf_def lp_def ln_def)
  have cut: "\<And>x. sp < x \<Longrightarrow> x \<le> sp + lp - 1 \<Longrightarrow> w32 (w64 (sub64 (sp + lp - 1) x + 1)) = sp + lp - x"
    "\<And>x. sn < x \<Longrightarrow> x \<le> sn + ln - 1 \<Longrightarrow> w32 (w64 (sub64 (sn + ln - 1) x + 1)) = sn + ln - x"
    using addr_cut [OF assms(1)] addr_cut [OF assms(2)] by (simp_all only: defs)
  have order: "sp > sn + ln - 1 \<longleftrightarrow> sp \<ge> sn + ln" "sn > sp + lp - 1 \<longleftrightarrow> sn \<ge> sp + lp"
    using pos by linarith+
  have "sn < sp \<Longrightarrow> sp < sn + ln \<Longrightarrow> (if sp + lp - 1 \<le> sn + ln - 1 then lp
      else w32 (w64 (sub64 (sn + ln - 1) sp + 1))) = min lp (sn + ln - sp)"
    using pos cut(2) [of sp] by (simp add: min_def) linarith
  moreover have "sp < sn \<Longrightarrow> sn < sp + lp \<Longrightarrow> (if sn + ln - 1 \<le> sp + lp - 1 then ln
      else w32 (w64 (sub64 (sp + lp - 1) sn + 1))) = min ln (sp + lp - sn)"
    using pos cut(1) [of sn] by (simp add: min_def) linarith
  moreover have "sp = sn \<Longrightarrow> sp + lp - 1 < sn + ln - 1 \<longleftrightarrow> lp < ln" using pos by linarith
  ultimately show ?thesis
    unfolding chk_lb_ovlp_def Let_def addr_end [OF assms(1)] addr_end [OF assms(2)]
    unfolding defs unfolding order
    using pos by (cases "sp \<ge> sn + ln \<or> sn \<ge> sp + lp"; cases sp sn rule: linorder_cases) simp_all
qed

lemma chk_lb_ovlp_disjoint:
  assumes "addr_wf p" "addr_wf n"
  shows "fst (chk_lb_ovlp p n) = IOR_Wait_NoOvlp \<longleftrightarrow> lb_set p \<inter> lb_set n = {}"
proof -
  have pos: "0 < lbid_len p" "0 < lbid_len n" using assms by (simp_all add: addr_wf_def)
  have "lb_set p \<inter> lb_set n = {} \<longleftrightarrow>
      lbid_start p \<ge> lbid_start n + lbid_len n \<or> lbid_start n \<ge> lbid_start p + lbid_len p"
    using pos by (auto simp: lb_set_def)
  then show ?thesis by (simp add: chk_lb_ovlp_eq [OF assms])
qed

lemma chk_lb_ovlp_range:
  assumes "addr_wf p" "addr_wf n" "lb_set p \<inter> lb_set n \<noteq> {}"
  shows "\<exists>s l. snd (chk_lb_ovlp p n) = Some (s, l) \<and> {s..<s + l} = lb_set p \<inter> lb_set n"
proof -
  have I: "lb_set p \<inter> lb_set n = {max (lbid_start p) (lbid_start n)..<
      min (lbid_start p + lbid_len p) (lbid_start n + lbid_len n)}"
    by (auto simp: lb_set_def)
  then have lt: "lbid_start p < lbid_start n + lbid_len n" "lbid_start n < lbid_start p + lbid_len p"
    using assms(3) by auto
  let ?s = "max (lbid_start p) (lbid_start n)"
  let ?l = "min (lbid_start p + lbid_len p) (lbid_start n + lbid_len n) - ?s"
  have "snd (chk_lb_ovlp p n) = Some (?s, ?l)"
    unfolding chk_lb_ovlp_eq [OF assms(1,2)]
    using lt by (cases "lbid_start p" "lbid_start n" rule: linorder_cases) (auto simp: max_def min_def)
  moreover have "?s + ?l = min (lbid_start p + lbid_len p) (lbid_start n + lbid_len n)"
    using lt assms(1,2) by (simp add: addr_wf_def)
  ultimately show ?thesis using I by (metis)
qed

subsection \<open>Conflicts and the check of a pool\<close>

definition conflict :: "io_request_t \<Rightarrow> io_request_t \<Rightarrow> bool" where
  "conflict a b \<longleftrightarrow> (iodir a = KERNEL_IO_WRITE \<or> iodir b = KERNEL_IO_WRITE) \<and>
     lb_set (usrIO_addr a) \<inter> lb_set (usrIO_addr b) \<noteq> {}"

lemma conflict_sym: "conflict a b \<longleftrightarrow> conflict b a"
  by (auto simp: conflict_def)

definition must_wait :: "volume_IOReqPool_t \<Rightarrow> nat \<Rightarrow> nat \<Rightarrow> bool" where
  "must_wait st c i \<longleftrightarrow> \<not> chk_io_rw (reqs st c) (reqs st i) \<and>
     fst (chk_lb_ovlp (usrIO_addr (reqs st c)) (usrIO_addr (reqs st i))) \<noteq> IOR_Wait_NoOvlp"

lemma must_wait_conflict:
  assumes "addr_wf (usrIO_addr (reqs st c))" "addr_wf (usrIO_addr (reqs st i))"
  shows "must_wait st c i \<longleftrightarrow> conflict (reqs st c) (reqs st i)"
  using chk_lb_ovlp_disjoint [OF assms]
  by (auto simp: must_wait_def conflict_def chk_io_rw_def split: if_splits)

definition ovlp_item :: "volume_IOReqPool_t \<Rightarrow> nat \<Rightarrow> nat \<Rightarrow> ovlp_item_t" where
  "ovlp_item st c i = (let ov = chk_lb_ovlp (usrIO_addr (reqs st c)) (usrIO_addr (reqs st i))
     in gen_ovlp_item c i (fst ov) (fst (the (snd ov))) (snd (the (snd ov))))"

lemma ovlp_item_ends [simp]: "process_ior (ovlp_item st c i) = c" "wait_ior (ovlp_item st c i) = i"
  by (simp_all add: ovlp_item_def gen_ovlp_item_def Let_def)

text \<open>The effect of a check on the request that waits and on those it waits for.\<close>

definition waiter :: "ovlp_item_t list \<Rightarrow> io_request_t \<Rightarrow> io_request_t" where
  "waiter its r = r\<lparr>wait_list := wait_list r @ its, cnt_ovlp_wait := cnt_ovlp_wait r + int (length its),
     is_ovlp_ior := is_ovlp_ior r \<or> its \<noteq> []\<rparr>"

definition waker :: "ovlp_item_t \<Rightarrow> io_request_t \<Rightarrow> io_request_t" where
  "waker it r = r\<lparr>wake_list := wake_list r @ [it], cnt_ovlp_wake := cnt_ovlp_wake r + 1\<rparr>"

definition linked :: "nat \<Rightarrow> nat list \<Rightarrow> volume_IOReqPool_t \<Rightarrow> volume_IOReqPool_t" where
  "linked i cs st = st\<lparr>reqs := \<lambda>x.
     if x = i then waiter (map (\<lambda>c. ovlp_item st c i) cs) (reqs st i)
     else if x \<in> set cs then waker (ovlp_item st x i) (reqs st x) else reqs st x\<rparr>"

lemma waiter_simps [simp]:
  "usrIO_addr (waiter its r) = usrIO_addr r" "iodir (waiter its r) = iodir r"
  "ioReq_fea (waiter its r) = ioReq_fea r" "ioReq_stat (waiter its r) = ioReq_stat r"
  "wake_list (waiter its r) = wake_list r" "cnt_ovlp_wake (waiter its r) = cnt_ovlp_wake r"
  "wait_list (waiter its r) = wait_list r @ its"
  "cnt_ovlp_wait (waiter its r) = cnt_ovlp_wait r + int (length its)"
  by (simp_all add: waiter_def)

lemma waker_simps [simp]:
  "usrIO_addr (waker it r) = usrIO_addr r" "iodir (waker it r) = iodir r"
  "ioReq_fea (waker it r) = ioReq_fea r" "ioReq_stat (waker it r) = ioReq_stat r"
  "wake_list (waker it r) = wake_list r @ [it]" "cnt_ovlp_wake (waker it r) = cnt_ovlp_wake r + 1"
  "wait_list (waker it r) = wait_list r" "cnt_ovlp_wait (waker it r) = cnt_ovlp_wait r"
  by (simp_all add: waker_def)

lemma linked_reqs:
  "reqs (linked i cs st) x =
    (if x = i then waiter (map (\<lambda>c. ovlp_item st c i) cs) (reqs st i)
     else if x \<in> set cs then waker (ovlp_item st x i) (reqs st x) else reqs st x)"
  by (simp add: linked_def)

lemma linked_addr [simp]:
  "usrIO_addr (reqs (linked i cs st) x) = usrIO_addr (reqs st x)"
  "iodir (reqs (linked i cs st) x) = iodir (reqs st x)"
  by (simp_all add: linked_def)

lemma linked_must_wait [simp]: "must_wait (linked i cs st) c j = must_wait st c j"
  by (simp add: must_wait_def chk_io_rw_def)

lemma linked_item [simp]: "ovlp_item (linked i cs st) c j = ovlp_item st c j"
  by (simp add: ovlp_item_def)

lemma linked_Nil [simp]: "linked i [] st = st"
  by (simp add: linked_def waiter_def fun_upd_def [symmetric])

lemma linked_append:
  assumes "distinct (cs @ ds)" "i \<notin> set (cs @ ds)"
  shows "linked i ds (linked i cs st) = linked i (cs @ ds) st"
proof -
  have "reqs (linked i ds (linked i cs st)) x = reqs (linked i (cs @ ds) st) x" for x
    using assms by (auto simp: linked_reqs waiter_def)
  then have "reqs (linked i ds (linked i cs st)) = reqs (linked i (cs @ ds) st)" by (rule ext)
  then show ?thesis by (simp add: linked_def)
qed

lemma chk_ovlp_loop_eq:
  assumes "distinct q" "i \<notin> set q" "\<And>c. alloc c i"
  shows "chk_ovlp_loop alloc i q ret st =
    (let cs = filter (\<lambda>c. must_wait st c i) q
     in (if cs = [] then ret else IOR_ovlp_Ovlp, linked i cs st))"
  using assms(1,2)
proof (induction q arbitrary: ret st)
  case (Cons c q)
  show ?case
  proof (cases "must_wait st c i")
    case True
    have one: "ioReq_add_wakeReq c (ovlp_item st c i)
        (ioReq_add_waitReq i (ovlp_item st c i) (upd_req i (\<lambda>q. q\<lparr>is_ovlp_ior := True\<rparr>) st)) = linked i [c] st"
      using Cons.prems
      by (auto simp: ioReq_add_wakeReq_def ioReq_add_waitReq_def upd_req_def linked_def waiter_def waker_def fun_eq_iff)
    then have "chk_ovlp_loop alloc i (c # q) ret st = chk_ovlp_loop alloc i q IOR_ovlp_Ovlp (linked i [c] st)"
      using True Cons.prems assms(3) by (simp add: must_wait_def Let_def ovlp_item_def)
    also have "\<dots> = (IOR_ovlp_Ovlp, linked i (filter (\<lambda>c. must_wait st c i) q) (linked i [c] st))"
      using Cons.IH [of IOR_ovlp_Ovlp "linked i [c] st"] Cons.prems by (simp add: Let_def)
    also have "linked i (filter (\<lambda>c. must_wait st c i) q) (linked i [c] st)
        = linked i (c # filter (\<lambda>c. must_wait st c i) q) st"
      using linked_append [of "[c]" "filter (\<lambda>c. must_wait st c i) q" i st] Cons.prems by simp
    finally show ?thesis using True by (simp add: Let_def)
  next
    case False
    then have "chk_ovlp_loop alloc i (c # q) ret st = chk_ovlp_loop alloc i q ret st"
      using Cons.prems by (auto simp: must_wait_def Let_def)
    then show ?thesis using False Cons by (simp add: Let_def)
  qed
qed simp

subsection \<open>Adding a request\<close>

definition live :: "volume_IOReqPool_t \<Rightarrow> nat set" where
  "live st = set (ioReq_pool st) \<union> set (ioReq_ovlp_pool st)"

text \<open>A request as \<^verbatim>\<open>ioReq_init_request\<close> leaves it, not yet in a pool.\<close>

definition fresh_req :: "volume_IOReqPool_t \<Rightarrow> nat \<Rightarrow> bool" where
  "fresh_req st i \<longleftrightarrow> i \<notin> live st \<and> wait_list (reqs st i) = [] \<and> wake_list (reqs st i) = [] \<and>
     cnt_ovlp_wait (reqs st i) = 0 \<and> cnt_ovlp_wake (reqs st i) = 0 \<and>
     st_ioReq (ioReq_stat (reqs st i)) = IOREQ_S_INIT \<and>
     \<not> bit (ioReq_fea (reqs st i)) IOREQ_FEA_IN_REQPOOL \<and> \<not> bit (ioReq_fea (reqs st i)) IOREQ_FEA_IN_WAITPOOL \<and>
     addr_wf (usrIO_addr (reqs st i))"

definition set_stat_fea :: "IOR_FSM_state_t \<Rightarrow> nat \<Rightarrow> io_request_t \<Rightarrow> io_request_t" where
  "set_stat_fea s b q = q\<lparr>ioReq_stat := (ioReq_stat q)\<lparr>st_ioReq := s\<rparr>, ioReq_fea := set_bit b (ioReq_fea q)\<rparr>"

lemma linked_pools [simp]:
  "ioReq_pool (linked i cs st) = ioReq_pool st" "ioReq_ovlp_pool (linked i cs st) = ioReq_ovlp_pool st"
  "cnt_onfly_ioReq (linked i cs st) = cnt_onfly_ioReq st"
  "cnt_onfly_ovlpioReq (linked i cs st) = cnt_onfly_ovlpioReq st"
  by (simp_all add: linked_def)

lemma upd_req_simps [simp]:
  "reqs (upd_req i f st) x = (if x = i then f (reqs st i) else reqs st x)"
  "ioReq_pool (upd_req i f st) = ioReq_pool st" "ioReq_ovlp_pool (upd_req i f st) = ioReq_ovlp_pool st"
  "cnt_onfly_ioReq (upd_req i f st) = cnt_onfly_ioReq st"
  "cnt_onfly_ovlpioReq (upd_req i f st) = cnt_onfly_ovlpioReq st"
  by (simp_all add: upd_req_def)

lemma chk_ovlp_ReqPool_eq:
  assumes "distinct q" "i \<notin> set q" "\<And>c. alloc c i"
  shows "chk_ovlp_ReqPool alloc i q st =
    (let cs = filter (\<lambda>c. must_wait st c i) (rev q) in ((cs \<noteq> [], 0), linked i cs st))"
  using assms chk_ovlp_loop_eq [of "rev q" i alloc IOR_ovlp_NoOvlp st]
  by (simp add: chk_ovlp_ReqPool_def ioReq_chk_ovlp_def Let_def)

lemma ioReq_add_ReqPool_eq:
  fixes st i
  defines "cs \<equiv> filter (\<lambda>c. must_wait st c i) (rev (ioReq_ovlp_pool st) @ rev (ioReq_pool st))"
  assumes "distinct (ioReq_pool st @ ioReq_ovlp_pool st)" "fresh_req st i" "\<And>c. alloc c i"
  shows "ioReq_add_ReqPool alloc i st =
    (if cs = []
     then (True, (upd_req i (set_stat_fea IOREQ_S_RWUserData IOREQ_FEA_IN_REQPOOL) st)
            \<lparr>ioReq_pool := ioReq_pool st @ [i], cnt_onfly_ioReq := cnt_onfly_ioReq st + 1\<rparr>)
     else (False, (upd_req i (set_stat_fea IOREQ_S_OvlpWait IOREQ_FEA_IN_WAITPOOL) (linked i cs st))
            \<lparr>ioReq_ovlp_pool := ioReq_ovlp_pool st @ [i], cnt_onfly_ovlpioReq := cnt_onfly_ovlpioReq st + 1\<rparr>))"
proof -
  let ?c1 = "filter (\<lambda>c. must_wait st c i) (rev (ioReq_ovlp_pool st))"
  let ?c2 = "filter (\<lambda>c. must_wait st c i) (rev (ioReq_pool st))"
  have i: "i \<notin> set (ioReq_ovlp_pool st)" "i \<notin> set (ioReq_pool st)"
    using assms(3) by (simp_all add: fresh_req_def live_def)
  have cs: "cs = ?c1 @ ?c2" by (simp add: cs_def)
  have link: "linked i ?c2 (linked i ?c1 st) = linked i cs st"
    unfolding cs using assms(2) i by (intro linked_append) auto
  have r1: "chk_ovlp_ReqPool alloc i (ioReq_ovlp_pool st) st = ((?c1 \<noteq> [], 0), linked i ?c1 st)"
    using assms(2,4) i by (subst chk_ovlp_ReqPool_eq) (simp_all add: Let_def)
  have r2: "chk_ovlp_ReqPool alloc i (ioReq_pool st) (linked i ?c1 st) = ((?c2 \<noteq> [], 0), linked i cs st)"
    using assms(2,4) i by (subst chk_ovlp_ReqPool_eq) (simp_all add: Let_def link)
  have nempty: "?c1 \<noteq> [] \<or> ?c2 \<noteq> [] \<longleftrightarrow> cs \<noteq> []" unfolding cs by (simp only: append_is_Nil_conv de_Morgan_conj)
  have f: "st_ioReq (ioReq_stat (reqs (linked i cs st) i)) = IOREQ_S_INIT"
    "\<not> bit (ioReq_fea (reqs (linked i cs st) i)) IOREQ_FEA_IN_REQPOOL"
    "\<not> bit (ioReq_fea (reqs (linked i cs st) i)) IOREQ_FEA_IN_WAITPOOL"
    using assms(3) by (simp_all add: fresh_req_def linked_reqs)
  have "ioReq_add_ReqPool alloc i st = (if cs \<noteq> []
      then let r3 = ioReq_fsm_event i IOREQ_E_OvlpOtherIO (linked i cs st)
        in (False, if fst r3 = IOREQ_A_AddOvlpWaitQ then IOReqPool_addOvlpReq_nolock i (snd r3) else snd r3)
      else let r3 = ioReq_fsm_event i IOREQ_E_INIT_DONE (linked i cs st)
        in (True, if fst r3 = IOREQ_A_SubmitIO then IOReqPool_addReq_nolock i (snd r3) else snd r3))"
    unfolding ioReq_add_ReqPool_def r1 Let_def fst_conv snd_conv linked_pools r2 nempty by simp
  then show ?thesis
    using f by (auto simp: ioReq_fsm_event_def fsm_defs IOReqPool_addOvlpReq_nolock_def
      IOReqPool_addReq_nolock_def ioReq_chkset_fea_def test_and_set_bit_def Let_def upd_req_def set_stat_fea_def fun_eq_iff)
qed

subsection \<open>The invariant of the pools\<close>

definition before :: "nat list \<Rightarrow> nat \<Rightarrow> nat \<Rightarrow> bool" where
  "before xs p w \<longleftrightarrow> (\<exists>us vs. xs = us @ w # vs \<and> p \<in> set us)"

lemma before_snoc: "before xs p w \<Longrightarrow> before (xs @ [y]) p w"
  by (fastforce simp: before_def)

lemma before_last: "p \<in> set xs \<Longrightarrow> before (xs @ [y]) p y"
  by (auto simp: before_def)

lemma before_filter: "before xs p w \<Longrightarrow> P p \<Longrightarrow> P w \<Longrightarrow> before (filter P xs) p w"
  by (force simp: before_def)

lemma before_mem: "before xs p w \<Longrightarrow> p \<in> set xs \<and> w \<in> set xs"
  by (auto simp: before_def)

lemma not_before_hd: "distinct (x # xs) \<Longrightarrow> \<not> before (x # xs) p x"
  by (auto simp: before_def Cons_eq_append_conv)

definition running :: "IOR_FSM_state_t \<Rightarrow> bool" where
  "running s \<longleftrightarrow> s \<in> {IOREQ_S_RWUserData, IOREQ_S_ReportMD, IOREQ_S_SelfHealing, IOREQ_S_ReqDone}"

definition waits :: "volume_IOReqPool_t \<Rightarrow> nat \<Rightarrow> nat \<Rightarrow> bool" where
  "waits st p w \<longleftrightarrow> p \<in> process_ior ` set (wait_list (reqs st w))"

definition counts_ok :: "io_request_t \<Rightarrow> bool" where
  "counts_ok r \<longleftrightarrow> addr_wf (usrIO_addr r) \<and> cnt_ovlp_wait r = int (length (wait_list r)) \<and>
     cnt_ovlp_wake r = int (length (wake_list r)) \<and>
     distinct (map process_ior (wait_list r)) \<and> distinct (map wait_ior (wake_list r))"

definition pool_ok :: "io_request_t \<Rightarrow> bool" where
  "pool_ok r \<longleftrightarrow> wait_list r = [] \<and> running (st_ioReq (ioReq_stat r)) \<and>
     bit (ioReq_fea r) IOREQ_FEA_IN_REQPOOL \<and> \<not> bit (ioReq_fea r) IOREQ_FEA_IN_WAITPOOL"

definition ovlp_ok :: "io_request_t \<Rightarrow> bool" where
  "ovlp_ok r \<longleftrightarrow> wait_list r \<noteq> [] \<and> st_ioReq (ioReq_stat r) = IOREQ_S_OvlpWait \<and>
     \<not> bit (ioReq_fea r) IOREQ_FEA_IN_REQPOOL \<and> bit (ioReq_fea r) IOREQ_FEA_IN_WAITPOOL"

text \<open>Wait and wake lists mirror each other.\<close>

definition wait_links :: "volume_IOReqPool_t \<Rightarrow> nat \<Rightarrow> bool" where
  "wait_links st i \<longleftrightarrow> (\<forall>it \<in> set (wait_list (reqs st i)). wait_ior it = i \<and>
     it \<in> set (wake_list (reqs st (process_ior it))) \<and>
     (process_ior it \<in> set (ioReq_pool st) \<or> before (ioReq_ovlp_pool st) (process_ior it) i))"

definition wake_links :: "volume_IOReqPool_t \<Rightarrow> nat \<Rightarrow> bool" where
  "wake_links st i \<longleftrightarrow> (\<forall>it \<in> set (wake_list (reqs st i)). process_ior it = i \<and>
     wait_ior it \<in> set (ioReq_ovlp_pool st) \<and> it \<in> set (wait_list (reqs st (wait_ior it))))"

definition conflicts_ordered :: "volume_IOReqPool_t \<Rightarrow> bool" where
  "conflicts_ordered st \<longleftrightarrow> (\<forall>a \<in> live st. \<forall>b \<in> live st. a \<noteq> b \<longrightarrow> conflict (reqs st a) (reqs st b) \<longrightarrow>
     waits st a b \<or> waits st b a)"

definition ioq_inv :: "volume_IOReqPool_t \<Rightarrow> bool" where
  "ioq_inv st \<longleftrightarrow> distinct (ioReq_pool st @ ioReq_ovlp_pool st) \<and>
     (\<forall>i \<in> live st. counts_ok (reqs st i) \<and> wait_links st i \<and> wake_links st i) \<and>
     (\<forall>i \<in> set (ioReq_pool st). pool_ok (reqs st i)) \<and>
     (\<forall>i \<in> set (ioReq_ovlp_pool st). ovlp_ok (reqs st i)) \<and>
     conflicts_ordered st \<and>
     cnt_onfly_ioReq st = int (length (ioReq_pool st)) \<and>
     cnt_onfly_ovlpioReq st = int (length (ioReq_ovlp_pool st))"

lemma set_stat_fea_simps [simp]:
  "usrIO_addr (set_stat_fea s b q) = usrIO_addr q" "iodir (set_stat_fea s b q) = iodir q"
  "wait_list (set_stat_fea s b q) = wait_list q" "wake_list (set_stat_fea s b q) = wake_list q"
  "cnt_ovlp_wait (set_stat_fea s b q) = cnt_ovlp_wait q" "cnt_ovlp_wake (set_stat_fea s b q) = cnt_ovlp_wake q"
  "st_ioReq (ioReq_stat (set_stat_fea s b q)) = s" "ioReq_fea (set_stat_fea s b q) = set_bit b (ioReq_fea q)"
  by (simp_all add: set_stat_fea_def)

lemmas fea_bits = IOREQ_FEA_IN_REQPOOL_def IOREQ_FEA_IN_WAITPOOL_def bit_simps

lemma ioq_inv_links:
  assumes "ioq_inv st" "x \<in> live st"
  shows "it \<in> set (wait_list (reqs st x)) \<Longrightarrow> process_ior it \<in> live st"
    and "it \<in> set (wake_list (reqs st x)) \<Longrightarrow> wait_ior it \<in> live st"
  using assms by (auto simp: ioq_inv_def wait_links_def wake_links_def live_def dest: before_mem)

text \<open>A request that conflicts with nobody joins the running pool.\<close>

lemma ioq_inv_add_run:
  assumes inv: "ioq_inv st" and fresh: "fresh_req st i"
    and free: "\<And>c. c \<in> live st \<Longrightarrow> \<not> conflict (reqs st c) (reqs st i)"
    and st': "st' = (upd_req i (set_stat_fea IOREQ_S_RWUserData IOREQ_FEA_IN_REQPOOL) st)
            \<lparr>ioReq_pool := ioReq_pool st @ [i], cnt_onfly_ioReq := cnt_onfly_ioReq st + 1\<rparr>"
  shows "ioq_inv st'"
proof -
  have i: "i \<notin> live st" "wait_list (reqs st i) = []" "wake_list (reqs st i) = []" "addr_wf (usrIO_addr (reqs st i))"
    using fresh by (simp_all add: fresh_req_def)
  have same: "reqs st' x = reqs st x" if "x \<in> live st" for x using that i by (auto simp: st')
  have live: "live st' = insert i (live st)" by (auto simp: st' live_def)
  have pools: "ioReq_pool st' = ioReq_pool st @ [i]" "ioReq_ovlp_pool st' = ioReq_ovlp_pool st" by (simp_all add: st')
  have ri: "reqs st' i = set_stat_fea IOREQ_S_RWUserData IOREQ_FEA_IN_REQPOOL (reqs st i)" by (simp add: st')
  have "counts_ok (reqs st' i) \<and> wait_links st' i \<and> wake_links st' i \<and> pool_ok (reqs st' i)"
    using fresh by (simp add: ri fresh_req_def counts_ok_def wait_links_def wake_links_def pool_ok_def running_def fea_bits)
  moreover have "counts_ok (reqs st' x) \<and> wait_links st' x \<and> wake_links st' x" if x: "x \<in> live st" for x
  proof -
    have "counts_ok (reqs st x)" "wait_links st x" "wake_links st x" using inv x by (simp_all add: ioq_inv_def)
    then show ?thesis
      using same x ioq_inv_links [OF inv x] by (auto simp: wait_links_def wake_links_def pools)
  qed
  moreover have "conflicts_ordered st'"
    using inv free same i ri
    by (auto simp: ioq_inv_def conflicts_ordered_def live waits_def conflict_def)
  ultimately show ?thesis
    using inv i same by (auto simp: ioq_inv_def live pools) (auto simp: st' live_def)
qed

text \<open>A request that conflicts with somebody waits for all of them, at the end of the wait pool.\<close>

definition waiting :: "nat \<Rightarrow> nat list \<Rightarrow> volume_IOReqPool_t \<Rightarrow> volume_IOReqPool_t" where
  "waiting i cs st = (upd_req i (set_stat_fea IOREQ_S_OvlpWait IOREQ_FEA_IN_WAITPOOL) (linked i cs st))
     \<lparr>ioReq_ovlp_pool := ioReq_ovlp_pool st @ [i], cnt_onfly_ovlpioReq := cnt_onfly_ovlpioReq st + 1\<rparr>"

lemma waiting_simps [simp]:
  "ioReq_pool (waiting i cs st) = ioReq_pool st" "ioReq_ovlp_pool (waiting i cs st) = ioReq_ovlp_pool st @ [i]"
  "live (waiting i cs st) = insert i (live st)"
  "cnt_onfly_ioReq (waiting i cs st) = cnt_onfly_ioReq st"
  "cnt_onfly_ovlpioReq (waiting i cs st) = cnt_onfly_ovlpioReq st + 1"
  "usrIO_addr (reqs (waiting i cs st) x) = usrIO_addr (reqs st x)"
  "iodir (reqs (waiting i cs st) x) = iodir (reqs st x)"
  "reqs (waiting i cs st) i = set_stat_fea IOREQ_S_OvlpWait IOREQ_FEA_IN_WAITPOOL
     (waiter (map (\<lambda>c. ovlp_item st c i) cs) (reqs st i))"
  by (auto simp: waiting_def linked_reqs live_def)

lemma waiting_other:
  assumes "x \<noteq> i"
  shows "reqs (waiting i cs st) x = (if x \<in> set cs then waker (ovlp_item st x i) (reqs st x) else reqs st x)"
    and "wait_list (reqs (waiting i cs st) x) = wait_list (reqs st x)"
    and "pool_ok (reqs (waiting i cs st) x) = pool_ok (reqs st x)"
    and "ovlp_ok (reqs (waiting i cs st) x) = ovlp_ok (reqs st x)"
    and "set (wake_list (reqs st x)) \<subseteq> set (wake_list (reqs (waiting i cs st) x))"
  using assms by (auto simp: waiting_def linked_reqs pool_ok_def ovlp_ok_def)

lemma waiting_new_ok:
  assumes fresh: "fresh_req st i"
    and cs: "cs \<noteq> []" "distinct cs" "set cs = {c \<in> live st. conflict (reqs st c) (reqs st i)}"
  defines "st' \<equiv> waiting i cs st"
  shows "counts_ok (reqs st' i) \<and> wait_links st' i \<and> wake_links st' i \<and> ovlp_ok (reqs st' i)"
proof -
  have i: "wait_list (reqs st i) = []" "i \<notin> set cs" using fresh cs(3) by (auto simp: fresh_req_def)
  have "c \<in> set (ioReq_pool st) \<or> before (ioReq_ovlp_pool st @ [i]) c i" if "c \<in> set cs" for c
    using that cs(3) before_last [of c "ioReq_ovlp_pool st" i] by (auto simp: live_def)
  moreover have "ovlp_item st c i \<in> set (wake_list (reqs st' c))" if "c \<in> set cs" for c
    using that i(2) waiting_other(1) [of c i cs st] unfolding st'_def by (cases "c = i") auto
  ultimately have "wait_links st' i" using i by (auto simp: wait_links_def st'_def)
  moreover have "distinct (map process_ior (map (\<lambda>c. ovlp_item st c i) cs))" using cs(2) by (simp add: comp_def)
  ultimately show ?thesis
    using fresh cs(1) by (simp add: st'_def fresh_req_def counts_ok_def wake_links_def ovlp_ok_def fea_bits comp_def)
qed

lemma waiting_old_ok:
  fixes cs
  assumes inv: "ioq_inv st" and i: "i \<notin> live st" and x: "x \<in> live st"
  defines "st' \<equiv> waiting i cs st"
  shows "counts_ok (reqs st' x) \<and> wait_links st' x \<and> wake_links st' x"
proof -
  have ok: "counts_ok (reqs st x)" "wait_links st x" "wake_links st x" using inv x by (simp_all add: ioq_inv_def)
  have ne: "y \<noteq> i" if "y \<in> live st" for y using that i by auto
  note xi = ne [OF x]
  have "i \<notin> wait_ior ` set (wake_list (reqs st x))" using ioq_inv_links(2) [OF inv x] i by auto
  then have "counts_ok (reqs st' x)" using ok(1) by (simp add: st'_def waiting_other(1) [OF xi] counts_ok_def)
  moreover have "it \<in> set (wake_list (reqs st' (process_ior it)))"
    if "it \<in> set (wait_list (reqs st x))" for it
  proof -
    have "it \<in> set (wake_list (reqs st (process_ior it)))" using ok(2) that by (simp add: wait_links_def)
    then show ?thesis
      using waiting_other(5) [OF ne [OF ioq_inv_links(1) [OF inv x that]]] unfolding st'_def by blast
  qed
  then have "wait_links st' x"
    using ok(2) by (auto simp: wait_links_def st'_def waiting_other(2) [OF xi] intro: before_snoc)
  moreover have "wait_list (reqs st' (wait_ior it)) = wait_list (reqs st (wait_ior it))"
    if "it \<in> set (wake_list (reqs st x))" for it
    using waiting_other(2) [OF ne [OF ioq_inv_links(2) [OF inv x that]]] by (simp add: st'_def)
  then have "wake_links st' x" using ok(3) by (auto simp: wake_links_def st'_def waiting_other(1) [OF xi])
  ultimately show ?thesis by simp
qed

lemma waiting_conflicts:
  assumes inv: "ioq_inv st" and i: "i \<notin> live st"
    and cs: "set cs = {c \<in> live st. conflict (reqs st c) (reqs st i)}"
  shows "conflicts_ordered (waiting i cs st)"
  unfolding conflicts_ordered_def waiting_simps
proof (intro ballI impI)
  let ?st' = "waiting i cs st"
  fix a b
  assume ab: "a \<in> insert i (live st)" "b \<in> insert i (live st)" "a \<noteq> b" "conflict (reqs ?st' a) (reqs ?st' b)"
  have c: "conflict (reqs st a) (reqs st b)" using ab(4) by (simp add: conflict_def del: waiting_simps(8))
  have new: "waits ?st' c i" if "c \<in> live st" "conflict (reqs st c) (reqs st i)" for c
    using that cs unfolding waits_def by (intro image_eqI [of _ _ "ovlp_item st c i"]) simp_all
  have old: "waits ?st' a b \<or> waits ?st' b a" if "a \<in> live st" "b \<in> live st"
  proof -
    have "waits st a b \<or> waits st b a" using inv that ab(3) c by (simp add: ioq_inv_def conflicts_ordered_def)
    moreover have "a \<noteq> i" "b \<noteq> i" using that i by auto
    ultimately show ?thesis by (simp add: waits_def waiting_other(2))
  qed
  show "waits ?st' a b \<or> waits ?st' b a"
    using ab(1-3) old new [of a] new [of b] c conflict_sym [of "reqs st a" "reqs st b"] by auto
qed

lemma ioq_inv_add_wait:
  assumes inv: "ioq_inv st" and fresh: "fresh_req st i"
    and cs: "cs \<noteq> []" "distinct cs" "set cs = {c \<in> live st. conflict (reqs st c) (reqs st i)}"
  shows "ioq_inv (waiting i cs st)"
proof -
  have i: "i \<notin> live st" using fresh by (simp add: fresh_req_def)
  have "pool_ok (reqs (waiting i cs st) x) = pool_ok (reqs st x)"
    "ovlp_ok (reqs (waiting i cs st) x) = ovlp_ok (reqs st x)" if "x \<in> live st" for x
    using that i by (metis waiting_other(3), metis waiting_other(4))
  then show ?thesis
    using inv i waiting_conflicts [OF inv i cs(3)] waiting_old_ok [OF inv i] waiting_new_ok [OF fresh cs]
    by (simp add: ioq_inv_def del: waiting_simps(8)) (simp add: live_def)
qed

lemma ioq_inv_add:
  assumes "ioq_inv st" "fresh_req st i" "\<And>c. alloc c i"
  shows "ioq_inv (snd (ioReq_add_ReqPool alloc i st))"
proof -
  let ?cs = "filter (\<lambda>c. must_wait st c i) (rev (ioReq_ovlp_pool st) @ rev (ioReq_pool st))"
  have dist: "distinct (ioReq_pool st @ ioReq_ovlp_pool st)" using assms(1) by (simp add: ioq_inv_def)
  have wf: "addr_wf (usrIO_addr (reqs st i))" "\<And>c. c \<in> live st \<Longrightarrow> addr_wf (usrIO_addr (reqs st c))"
    using assms(1,2) by (simp_all add: fresh_req_def ioq_inv_def counts_ok_def)
  have cs: "set ?cs = {c \<in> live st. conflict (reqs st c) (reqs st i)}"
    using wf must_wait_conflict [of st _ i] by (auto simp: live_def)
  note eq = ioReq_add_ReqPool_eq [where alloc = alloc and st = st and i = i, OF dist assms(2,3)]
  show ?thesis
  proof (cases "?cs = []")
    case True
    then have "\<And>c. c \<in> live st \<Longrightarrow> \<not> conflict (reqs st c) (reqs st i)" using cs by auto
    from ioq_inv_add_run [OF assms(1,2) this refl] show ?thesis
      by (simp only: eq if_P [OF True] snd_conv)
  next
    case False
    have "distinct ?cs" using dist by auto
    from ioq_inv_add_wait [OF assms(1,2) False this cs] show ?thesis
      by (simp only: eq if_not_P [OF False] snd_conv waiting_def)
  qed
qed

end
