(* ===== verification/Io_Completion.thy ===== *)
theory Io_Completion
  imports Io_Ordering
begin

text \<open>
  Completions in the overlap ordering: what \<^verbatim>\<open>ioReq_end_request\<close> does to the waiters of a request, that it
  keeps the invariant of \<^verbatim>\<open>Io_Ordering\<close>, and the properties of every history of arrivals, progress events
  and completions.
\<close>

subsection \<open>Finishing a request\<close>

lemma remove1_key: "distinct (map f xs) \<Longrightarrow> y \<in> set xs \<Longrightarrow> remove1 y xs = filter (\<lambda>z. f z \<noteq> f y) xs"
proof (induction xs)
  case (Cons z xs)
  then have "z = y \<Longrightarrow> filter (\<lambda>z. f z \<noteq> f y) xs = xs" by (auto simp: filter_id_conv) (metis image_eqI)
  with Cons show ?case by auto
qed simp

lemma pool_eqI:
  assumes "\<And>x. reqs a x = reqs b x" "ioReq_pool a = ioReq_pool b" "ioReq_ovlp_pool a = ioReq_ovlp_pool b"
    "cnt_onfly_ioReq a = cnt_onfly_ioReq b" "cnt_onfly_ovlpioReq a = cnt_onfly_ovlpioReq b"
  shows "a = (b :: volume_IOReqPool_t)"
  using assms by (simp add: fun_eq_iff)

text \<open>The waiters of a request that are let go when it ends, and what happens to a waiter.\<close>

definition woken :: "volume_IOReqPool_t \<Rightarrow> ovlp_item_t list \<Rightarrow> nat list" where
  "woken st its = filter (\<lambda>w. cnt_ovlp_wait (reqs st w) = 1) (map wait_ior its)"

definition dewait :: "ovlp_item_t \<Rightarrow> io_request_t \<Rightarrow> io_request_t" where
  "dewait it r = r\<lparr>wait_list := remove1 it (wait_list r), cnt_ovlp_wait := cnt_ovlp_wait r - 1,
     ioReq_stat := if cnt_ovlp_wait r = 1 then (ioReq_stat r)\<lparr>st_ioReq := IOREQ_S_RWUserData\<rparr> else ioReq_stat r\<rparr>"

definition dewaited :: "nat \<Rightarrow> ovlp_item_t list \<Rightarrow> volume_IOReqPool_t \<Rightarrow> volume_IOReqPool_t" where
  "dewaited i its st = st\<lparr>reqs := \<lambda>x.
       if x = i then (reqs st i)\<lparr>cnt_ovlp_wake := cnt_ovlp_wake (reqs st i) - int (length its)\<rparr>
       else case find (\<lambda>it. wait_ior it = x) its of None \<Rightarrow> reqs st x | Some it \<Rightarrow> dewait it (reqs st x),
     ioReq_ovlp_pool := filter (\<lambda>x. x \<notin> set (woken st its)) (ioReq_ovlp_pool st)\<rparr>"

lemma find_wait_None: "find (\<lambda>it. wait_ior it = x) its = None \<longleftrightarrow> x \<notin> wait_ior ` set its"
  by (auto simp: find_None_iff)

lemma find_wait_Some:
  "find (\<lambda>it. wait_ior it = x) its = Some it \<Longrightarrow> it \<in> set its \<and> wait_ior it = x"
  by (auto simp: find_Some_iff)

lemma dewaited_reqs:
  "reqs (dewaited i its st) x =
    (if x = i then (reqs st i)\<lparr>cnt_ovlp_wake := cnt_ovlp_wake (reqs st i) - int (length its)\<rparr>
     else case find (\<lambda>it. wait_ior it = x) its of None \<Rightarrow> reqs st x | Some it \<Rightarrow> dewait it (reqs st x))"
  by (simp add: dewaited_def)

lemma woken_Cons:
  "woken st (it # its) = (if cnt_ovlp_wait (reqs st (wait_ior it)) = 1 then [wait_ior it] else []) @ woken st its"
  by (simp add: woken_def)

lemma woken_dewaited:
  assumes "wait_ior it \<notin> wait_ior ` set its"
  shows "woken (dewaited i [it] st) its = woken st its"
  unfolding woken_def using assms by (intro filter_cong) (auto simp: dewaited_reqs)

lemma dewaited_Cons:
  assumes "wait_ior it \<noteq> i" "wait_ior it \<notin> wait_ior ` set its"
  shows "dewaited i its (dewaited i [it] st) = dewaited i (it # its) st"
proof -
  have "reqs (dewaited i its (dewaited i [it] st)) x = reqs (dewaited i (it # its) st) x" for x
    using assms find_wait_None [of "wait_ior it" its]
    by (auto simp: dewaited_reqs split: option.split dest: find_wait_Some)
  moreover have "ioReq_ovlp_pool (dewaited i its (dewaited i [it] st)) = ioReq_ovlp_pool (dewaited i (it # its) st)"
    using woken_dewaited [OF assms(2), of i st]
    by (auto simp: dewaited_def woken_Cons woken_def [of _ "[]"] intro: filter_cong)
  ultimately show ?thesis by (simp add: dewaited_def fun_eq_iff)
qed

lemma get_ovlpReq_step:
  assumes "wait_ior it \<noteq> i" "st_ioReq (ioReq_stat (reqs st (wait_ior it))) = IOREQ_S_OvlpWait"
    "distinct (ioReq_ovlp_pool st)"
  shows "get_ovlpReq_loop i (it # its) (buff, st) =
    get_ovlpReq_loop i its (buff @ woken st [it], dewaited i [it] st)"
proof -
  let ?w = "wait_ior it"
  let ?st2 = "upd_req ?w (\<lambda>q. q\<lparr>wait_list := remove1 it (wait_list q), cnt_ovlp_wait := cnt_ovlp_wait q - 1\<rparr>)
    (upd_req i (\<lambda>q. q\<lparr>cnt_ovlp_wake := cnt_ovlp_wake q - 1\<rparr>) st)"
  have "cnt_ovlp_wait (reqs ?st2 ?w) = 0 \<longleftrightarrow> cnt_ovlp_wait (reqs st ?w) = 1" using assms(1) by simp
  moreover have "ioReq_fsm_event ?w IOREQ_E_OvlpIODone ?st2 = (IOREQ_A_SubmitIO,
      upd_req ?w (\<lambda>q. q\<lparr>ioReq_stat := (ioReq_stat q)\<lparr>st_ioReq := IOREQ_S_RWUserData\<rparr>\<rparr>) ?st2)"
    using assms(1,2) by (simp add: ioReq_fsm_event_def fsm_defs Let_def upd_req_def)
  moreover have "?st2 = dewaited i [it] st" if "cnt_ovlp_wait (reqs st ?w) \<noteq> 1"
    using assms(1) that by (intro pool_eqI) (auto simp: dewaited_def dewait_def woken_def)
  moreover have "(upd_req ?w (\<lambda>q. q\<lparr>ioReq_stat := (ioReq_stat q)\<lparr>st_ioReq := IOREQ_S_RWUserData\<rparr>\<rparr>) ?st2)
        \<lparr>ioReq_ovlp_pool := remove1 ?w (ioReq_ovlp_pool st)\<rparr> = dewaited i [it] st"
    if "cnt_ovlp_wait (reqs st ?w) = 1"
    using assms(1,3) that
    by (intro pool_eqI) (auto simp: dewaited_def dewait_def woken_def distinct_remove1_removeAll
      removeAll_filter_not_eq intro: filter_cong)
  ultimately show ?thesis by (simp add: woken_def)
qed

lemma get_ovlpReq_loop_eq:
  assumes "distinct (map wait_ior its)" "i \<notin> wait_ior ` set its"
    "\<And>it. it \<in> set its \<Longrightarrow> st_ioReq (ioReq_stat (reqs st (wait_ior it))) = IOREQ_S_OvlpWait"
    "distinct (ioReq_ovlp_pool st)"
  shows "get_ovlpReq_loop i its (buff, st) = (buff @ woken st its, dewaited i its st)"
  using assms
proof (induction its arbitrary: buff st)
  case Nil
  have "dewaited i [] st = st" by (rule pool_eqI) (simp_all add: dewaited_def woken_def)
  then show ?case by (simp add: woken_def)
next
  case (Cons it its)
  have ne: "wait_ior it \<noteq> i" "wait_ior it \<notin> wait_ior ` set its" using Cons.prems(1,2) by auto
  have "get_ovlpReq_loop i its (buff @ woken st [it], dewaited i [it] st) =
      ((buff @ woken st [it]) @ woken (dewaited i [it] st) its, dewaited i its (dewaited i [it] st))"
  proof (rule Cons.IH)
    fix it' assume "it' \<in> set its"
    then show "st_ioReq (ioReq_stat (reqs (dewaited i [it] st) (wait_ior it'))) = IOREQ_S_OvlpWait"
      using ne Cons.prems(2) Cons.prems(3) [of it'] by (auto simp: dewaited_reqs image_iff)
  qed (use Cons.prems in \<open>simp_all add: dewaited_def\<close>)
  then show ?case
    using get_ovlpReq_step [OF ne(1) Cons.prems(3) Cons.prems(4)] Cons.prems
    by (simp add: woken_dewaited [OF ne(2)] dewaited_Cons [OF ne] woken_Cons woken_def [of _ "[]"])
qed

definition promote :: "io_request_t \<Rightarrow> io_request_t" where
  "promote r = r\<lparr>ioReq_fea := set_bit IOREQ_FEA_IN_REQPOOL (unset_bit IOREQ_FEA_IN_WAITPOOL (ioReq_fea r)),
     ref_cnt := ref_cnt r + 1\<rparr>"

definition promoted :: "nat list \<Rightarrow> volume_IOReqPool_t \<Rightarrow> volume_IOReqPool_t" where
  "promoted ws st = st\<lparr>reqs := \<lambda>x. if x \<in> set ws then promote (reqs st x) else reqs st x,
     ioReq_pool := ioReq_pool st @ ws, cnt_onfly_ioReq := cnt_onfly_ioReq st + int (length ws),
     cnt_onfly_ovlpioReq := cnt_onfly_ovlpioReq st - int (length ws)\<rparr>"

lemma promoted_Nil [simp]: "promoted [] st = st"
  by (rule pool_eqI) (simp_all add: promoted_def)

lemma mv_ovlp_step:
  assumes "bit (ioReq_fea (reqs st w)) IOREQ_FEA_IN_WAITPOOL" "\<not> bit (ioReq_fea (reqs st w)) IOREQ_FEA_IN_REQPOOL"
    "w \<notin> set (ioReq_ovlp_pool st)"
  shows "mv_ovlp_loop (w # ws) st = mv_ovlp_loop ws (promoted [w] st)"
proof -
  have "IOReqPool_addReq_nolock w (upd_req w (\<lambda>q. q\<lparr>ref_cnt := ref_cnt q + 1\<rparr>) (IOReqPool_rmOvlpReq_nolock w st))
      = promoted [w] st"
    using assms
    by (intro pool_eqI) (simp_all add: IOReqPool_rmOvlpReq_nolock_def IOReqPool_addReq_nolock_def
      ioReq_chkset_fea_def ioReq_chkclear_fea_def test_and_set_bit_def test_and_clear_bit_def Let_def
      promoted_def promote_def remove1_idem fea_bits)
  then show ?thesis by (simp add: Let_def)
qed

lemma mv_ovlp_loop_eq:
  assumes "distinct ws" "set ws \<inter> set (ioReq_ovlp_pool st) = {}"
    "\<And>w. w \<in> set ws \<Longrightarrow> bit (ioReq_fea (reqs st w)) IOREQ_FEA_IN_WAITPOOL \<and>
       \<not> bit (ioReq_fea (reqs st w)) IOREQ_FEA_IN_REQPOOL"
  shows "mv_ovlp_loop ws st = promoted ws st"
  using assms
proof (induction ws arbitrary: st)
  case Nil
  show ?case by simp
next
  case (Cons w ws)
  have "mv_ovlp_loop (w # ws) st = mv_ovlp_loop ws (promoted [w] st)"
    using Cons.prems by (intro mv_ovlp_step) auto
  also have "\<dots> = promoted ws (promoted [w] st)"
    using Cons.prems by (intro Cons.IH) (auto simp: promoted_def)
  also have "\<dots> = promoted (w # ws) st"
    using Cons.prems(1) by (intro pool_eqI) (auto simp: promoted_def)
  finally show ?case .
qed

text \<open>A waiter after the request it waited for has ended.\<close>

definition released :: "volume_IOReqPool_t \<Rightarrow> nat \<Rightarrow> nat \<Rightarrow> io_request_t" where
  "released st i x = (case find (\<lambda>it. wait_ior it = x) (wake_list (reqs st i)) of
       None \<Rightarrow> reqs st x
     | Some it \<Rightarrow> (if cnt_ovlp_wait (reqs st x) = 1 then promote else id) (dewait it (reqs st x)))"

definition finished :: "nat \<Rightarrow> volume_IOReqPool_t \<Rightarrow> volume_IOReqPool_t" where
  "finished i st = (let its = wake_list (reqs st i);
       st0 = (upd_req i (\<lambda>q. q\<lparr>ioReq_fea := unset_bit IOREQ_FEA_IN_REQPOOL (ioReq_fea q)\<rparr>) st)
         \<lparr>ioReq_pool := remove1 i (ioReq_pool st), cnt_onfly_ioReq := cnt_onfly_ioReq st - 1\<rparr>
     in promoted (woken st its) (upd_req i (\<lambda>q. q\<lparr>wake_list := []\<rparr>) (dewaited i its st0)))"

lemma ioReq_end_request_finished:
  assumes inv: "ioq_inv st" and i: "i \<in> set (ioReq_pool st)"
  shows "ioReq_end_request i st = finished i st"
proof -
  let ?its = "wake_list (reqs st i)" and ?ws = "woken st (wake_list (reqs st i))"
  let ?st0 = "IOReqPool_rmReq_nolock i st"
  let ?st2 = "upd_req i (\<lambda>q. q\<lparr>wake_list := []\<rparr>) (dewaited i ?its ?st0)"
  have live: "i \<in> live st" using i by (simp add: live_def)
  have ok: "counts_ok (reqs st i)" "wake_links st i" "pool_ok (reqs st i)"
    "distinct (ioReq_pool st)" "distinct (ioReq_ovlp_pool st)" "i \<notin> set (ioReq_ovlp_pool st)"
    using inv i live by (auto simp: ioq_inv_def)
  have wait: "wait_ior it \<noteq> i \<and> ovlp_ok (reqs st (wait_ior it))" if "it \<in> set ?its" for it
    using ok(2,6) that inv by (auto simp: wake_links_def ioq_inv_def)
  have st0: "?st0 = (upd_req i (\<lambda>q. q\<lparr>ioReq_fea := unset_bit IOREQ_FEA_IN_REQPOOL (ioReq_fea q)\<rparr>) st)
      \<lparr>ioReq_pool := remove1 i (ioReq_pool st), cnt_onfly_ioReq := cnt_onfly_ioReq st - 1\<rparr>"
    using ok(3) by (simp add: IOReqPool_rmReq_nolock_def ioReq_chkclear_fea_def test_and_clear_bit_def
      Let_def pool_ok_def upd_req_def)
  have ws: "woken ?st0 ?its = ?ws" unfolding woken_def using wait by (intro filter_cong) (auto simp: st0)
  have "get_ovlpReq_loop i (wake_list (reqs ?st0 i)) ([], ?st0) = ([] @ woken ?st0 ?its, dewaited i ?its ?st0)"
    unfolding st0 using ok wait by (subst get_ovlpReq_loop_eq) (auto simp: counts_ok_def ovlp_ok_def)
  then have get: "ioReq_get_ovlpReq i ?st0 = (?ws, ?st2)" by (simp add: ioReq_get_ovlpReq_def Let_def ws)
  have "mv_ovlp_loop ?ws ?st2 = promoted ?ws ?st2"
  proof (rule mv_ovlp_loop_eq)
    show "distinct ?ws" using ok(1) by (simp add: woken_def counts_ok_def)
    show "set ?ws \<inter> set (ioReq_ovlp_pool ?st2) = {}" by (auto simp: dewaited_def ws)
  next
    fix w assume "w \<in> set ?ws"
    then have "w \<noteq> i" "ovlp_ok (reqs st w)" using wait by (auto simp: woken_def)
    then show "bit (ioReq_fea (reqs ?st2 w)) IOREQ_FEA_IN_WAITPOOL \<and> \<not> bit (ioReq_fea (reqs ?st2 w)) IOREQ_FEA_IN_REQPOOL"
      by (auto simp: dewaited_reqs st0 ovlp_ok_def dewait_def split: option.split)
  qed
  then have "snd (ioReq_rm_ioReqQueue i st) = promoted ?ws ?st2"
    by (simp add: ioReq_rm_ioReqQueue_def mv_ovlp_ior_toIO_def get Let_def)
  moreover have "wake_list (reqs (promoted ?ws ?st2) i) = []" using wait by (auto simp: promoted_def woken_def promote_def)
  ultimately have "ioReq_end_request i st = promoted ?ws ?st2"
    by (simp add: ioReq_end_request_def ioReq_rm_all_ovlpReq_def)
  then show ?thesis by (simp only: finished_def Let_def st0)
qed

lemma finished_simps:
  assumes inv: "ioq_inv st" and i: "i \<in> set (ioReq_pool st)"
  defines "ws \<equiv> woken st (wake_list (reqs st i))"
  shows "ioReq_pool (finished i st) = remove1 i (ioReq_pool st) @ ws"
    and "ioReq_ovlp_pool (finished i st) = filter (\<lambda>x. x \<notin> set ws) (ioReq_ovlp_pool st)"
    and "cnt_onfly_ioReq (finished i st) = cnt_onfly_ioReq st - 1 + int (length ws)"
    and "cnt_onfly_ovlpioReq (finished i st) = cnt_onfly_ovlpioReq st - int (length ws)"
    and "x \<noteq> i \<Longrightarrow> reqs (finished i st) x = released st i x"
proof -
  have ne: "wait_ior it \<noteq> i" if "it \<in> set (wake_list (reqs st i))" for it
    using inv i that by (auto simp: ioq_inv_def wake_links_def live_def)
  then have "woken (upd_req i f st \<lparr>ioReq_pool := p, cnt_onfly_ioReq := c\<rparr>) (wake_list (reqs st i)) = ws" for f p c
    unfolding woken_def ws_def by (intro filter_cong) auto
  then show "ioReq_ovlp_pool (finished i st) = filter (\<lambda>x. x \<notin> set ws) (ioReq_ovlp_pool st)"
    by (simp add: finished_def promoted_def dewaited_def Let_def)
  show "reqs (finished i st) x = released st i x" if "x \<noteq> i"
    using that find_wait_None [of x "wake_list (reqs st i)"] find_wait_Some [of x "wake_list (reqs st i)"]
    by (cases "find (\<lambda>it. wait_ior it = x) (wake_list (reqs st i))")
      (auto simp: finished_def promoted_def dewaited_reqs released_def Let_def woken_def)
qed (simp_all add: finished_def promoted_def dewaited_def Let_def ws_def)

lemma released_same:
  "usrIO_addr (released st i x) = usrIO_addr (reqs st x)" "iodir (released st i x) = iodir (reqs st x)"
  "wake_list (released st i x) = wake_list (reqs st x)" "cnt_ovlp_wake (released st i x) = cnt_ovlp_wake (reqs st x)"
  by (simp_all add: released_def dewait_def promote_def split: option.split)

text \<open>What the end of a request leaves of a waiter: no item for the ended request, and the pool it belongs to.\<close>

definition released_ok :: "volume_IOReqPool_t \<Rightarrow> nat \<Rightarrow> nat \<Rightarrow> bool" where
  "released_ok st i x \<longleftrightarrow> (let r = released st i x; ws = woken st (wake_list (reqs st i)) in
     wait_list r = filter (\<lambda>it. process_ior it \<noteq> i) (wait_list (reqs st x)) \<and>
     cnt_ovlp_wait r = int (length (wait_list r)) \<and>
     (if x \<in> set ws then x \<in> set (ioReq_ovlp_pool st) \<and> pool_ok r
      else if x \<in> set (ioReq_ovlp_pool st) then ovlp_ok r else r = reqs st x))"

lemma released_none:
  assumes inv: "ioq_inv st" and x: "x \<in> live st" and no: "x \<notin> wait_ior ` set (wake_list (reqs st i))"
  shows "released_ok st i x"
proof -
  have ok: "counts_ok (reqs st x)" "wait_links st x" using inv x by (auto simp: ioq_inv_def)
  have "\<forall>it \<in> set (wait_list (reqs st x)). process_ior it \<noteq> i" using ok(2) no by (force simp: wait_links_def)
  moreover have "released st i x = reqs st x" using no
    by (simp add: released_def find_wait_None [THEN iffD2])
  ultimately show ?thesis
    using no ok(1) inv by (auto simp: released_ok_def counts_ok_def woken_def ioq_inv_def filter_id_conv)
qed

lemma released_some:
  assumes inv: "ioq_inv st" and i: "i \<in> live st" and x: "x \<in> live st"
    and find: "find (\<lambda>it. wait_ior it = x) (wake_list (reqs st i)) = Some it"
  shows "released_ok st i x"
proof -
  let ?r = "reqs st x" and ?ws = "woken st (wake_list (reqs st i))"
  have ok: "counts_ok ?r" "wake_links st i" using inv x i by (auto simp: ioq_inv_def)
  have it: "it \<in> set (wake_list (reqs st i))" "wait_ior it = x" using find_wait_Some [OF find] by auto
  then have w: "process_ior it = i" "x \<in> set (ioReq_ovlp_pool st)" "it \<in> set (wait_list ?r)"
    using ok(2) by (auto simp: wake_links_def)
  have eq: "remove1 it (wait_list ?r) = filter (\<lambda>it. process_ior it \<noteq> i) (wait_list ?r)"
    using ok(1) w by (simp add: counts_ok_def remove1_key [where f = process_ior])
  have rel: "released st i x = (if cnt_ovlp_wait ?r = 1 then promote else id) (dewait it ?r)"
    by (simp add: released_def find)
  then have wl: "wait_list (released st i x) = remove1 it (wait_list ?r)"
    "cnt_ovlp_wait (released st i x) = cnt_ovlp_wait ?r - 1" by (simp_all add: dewait_def promote_def)
  have cnt: "cnt_ovlp_wait ?r = int (length (wait_list (released st i x))) + 1"
    using Suc_pred [OF length_pos_if_in_set [OF w(3)]] w(3) ok(1)
    unfolding wl by (simp add: counts_ok_def length_remove1)
  then have mem: "x \<in> set ?ws \<longleftrightarrow> wait_list (released st i x) = []" using it by (auto simp: woken_def)
  have o: "ovlp_ok ?r" using inv w(2) by (simp add: ioq_inv_def)
  have "pool_ok (released st i x)" if "x \<in> set ?ws"
  proof -
    have e: "wait_list (released st i x) = []" "cnt_ovlp_wait ?r = 1" using that mem cnt by simp_all
    then show ?thesis
      using o rel unfolding pool_ok_def e(1)
      by (simp add: ovlp_ok_def promote_def dewait_def running_def fea_bits)
  qed
  moreover have "ovlp_ok (released st i x)" if "x \<notin> set ?ws"
  proof -
    have "cnt_ovlp_wait ?r \<noteq> 1" using that mem cnt by simp
    moreover have "wait_list (released st i x) \<noteq> []" using that mem by simp
    ultimately show ?thesis using o rel by (simp add: ovlp_ok_def dewait_def)
  qed
  ultimately show ?thesis using wl eq cnt w(2) by (simp add: released_ok_def)
qed

lemma released_all:
  assumes "ioq_inv st" "i \<in> live st" "x \<in> live st"
  shows "released_ok st i x"
proof (cases "find (\<lambda>it. wait_ior it = x) (wake_list (reqs st i))")
  case None
  then show ?thesis using released_none [OF assms(1,3)] find_wait_None by blast
next
  case (Some it)
  then show ?thesis by (rule released_some [OF assms])
qed

lemma ioq_inv_end_live:
  assumes inv: "ioq_inv st" and i: "i \<in> set (ioReq_pool st)"
  shows "live (finished i st) = live st - {i}"
proof -
  have "set (woken st (wake_list (reqs st i))) \<subseteq> set (ioReq_ovlp_pool st)"
    using inv i by (auto simp: ioq_inv_def live_def wake_links_def woken_def)
  moreover have "i \<notin> set (ioReq_ovlp_pool st)" "distinct (ioReq_pool st)" using inv i by (auto simp: ioq_inv_def)
  ultimately show ?thesis by (auto simp: live_def finished_simps [OF inv i])
qed

lemma ioq_inv_end_links:
  assumes inv: "ioq_inv st" and i: "i \<in> set (ioReq_pool st)" and x: "x \<in> live st" "x \<noteq> i"
  shows "counts_ok (reqs (finished i st) x) \<and> wait_links (finished i st) x \<and> wake_links (finished i st) x"
proof -
  let ?ws = "woken st (wake_list (reqs st i))"
  note fin = finished_simps [OF inv i]
  have il: "i \<in> live st" using i by (simp add: live_def)
  have ok: "counts_ok (reqs st x)" "wait_links st x" "wake_links st x" using inv x by (simp_all add: ioq_inv_def)
  have wl: "wait_list (reqs (finished i st) y) = filter (\<lambda>it. process_ior it \<noteq> i) (wait_list (reqs st y))"
      "cnt_ovlp_wait (reqs (finished i st) y) = int (length (wait_list (reqs (finished i st) y)))"
    if "y \<in> live st" "y \<noteq> i" for y
    using released_all [OF inv il that(1)] that by (simp_all add: fin(5) released_ok_def Let_def)
  have wk: "wake_list (reqs (finished i st) y) = wake_list (reqs st y)"
    "cnt_ovlp_wake (reqs (finished i st) y) = cnt_ovlp_wake (reqs st y)" if "y \<noteq> i" for y
    using that by (simp_all add: fin(5) released_same)
  have "counts_ok (reqs (finished i st) x)"
    using ok(1) wl [OF x] wk [OF x(2)] x
    by (auto simp: counts_ok_def fin(5) released_same distinct_map intro: inj_on_subset)
  moreover have nw: "y \<notin> set ?ws" if "y \<in> live st" "y \<noteq> i" "it \<in> set (wait_list (reqs (finished i st) y))" for y it
    using released_all [OF inv il that(1)] that(2,3)
    by (auto simp: fin(5) released_ok_def pool_ok_def Let_def filter_empty_conv)
  have "wait_links (finished i st) x"
    unfolding wait_links_def
  proof
    fix it assume it: "it \<in> set (wait_list (reqs (finished i st) x))"
    then have p: "process_ior it \<noteq> i" "it \<in> set (wait_list (reqs st x))" by (simp_all add: wl(1) [OF x])
    then have "process_ior it \<in> set (ioReq_pool st) \<or> before (ioReq_ovlp_pool st) (process_ior it) x"
      using ok(2) by (simp add: wait_links_def)
    then show "wait_ior it = x \<and> it \<in> set (wake_list (reqs (finished i st) (process_ior it))) \<and>
        (process_ior it \<in> set (ioReq_pool (finished i st)) \<or> before (ioReq_ovlp_pool (finished i st)) (process_ior it) x)"
      using ok(2) p nw [OF x it] before_filter [of "ioReq_ovlp_pool st" "process_ior it" x "\<lambda>y. y \<notin> set ?ws"]
      by (auto simp: wait_links_def fin(1,2) wk)
  qed
  moreover have "wake_links (finished i st) x"
    unfolding wake_links_def
  proof
    fix it assume "it \<in> set (wake_list (reqs (finished i st) x))"
    then have p: "process_ior it = x" "wait_ior it \<in> set (ioReq_ovlp_pool st)" "it \<in> set (wait_list (reqs st (wait_ior it)))"
      using ok(3) wk(1) [OF x(2)] by (auto simp: wake_links_def)
    have y: "wait_ior it \<in> live st" "wait_ior it \<noteq> i" using p(2) i inv by (auto simp: live_def ioq_inv_def)
    then have "it \<in> set (wait_list (reqs (finished i st) (wait_ior it)))" using p x(2) by (simp add: wl(1))
    then show "process_ior it = x \<and> wait_ior it \<in> set (ioReq_ovlp_pool (finished i st)) \<and>
        it \<in> set (wait_list (reqs (finished i st) (wait_ior it)))"
      using p(1,2) nw [OF y] by (simp add: fin(2))
  qed
  ultimately show ?thesis by simp
qed

lemma length_filter_notin:
  assumes "distinct xs" "distinct ws" "set ws \<subseteq> set xs"
  shows "length (filter (\<lambda>x. x \<notin> set ws) xs) + length ws = length xs"
proof -
  have "length (filter (\<lambda>x. x \<notin> set ws) xs) = card (set xs - set ws)"
    using assms(1) by (simp add: distinct_card [symmetric] set_diff_eq Collect_conj_eq)
  then show ?thesis
    using assms card_mono [of "set xs" "set ws"] by (simp add: card_Diff_subset distinct_card)
qed

lemma ioq_inv_end:
  assumes inv: "ioq_inv st" and i: "i \<in> set (ioReq_pool st)"
  shows "ioq_inv (ioReq_end_request i st)"
proof -
  let ?st' = "finished i st" and ?ws = "woken st (wake_list (reqs st i))"
  note fin = finished_simps [OF inv i] and live = ioq_inv_end_live [OF inv i]
  have il: "i \<in> live st" using i by (simp add: live_def)
  have ok: "distinct (ioReq_pool st @ ioReq_ovlp_pool st)" "counts_ok (reqs st i)"
    "conflicts_ordered st" "cnt_onfly_ioReq st = int (length (ioReq_pool st))"
    "cnt_onfly_ovlpioReq st = int (length (ioReq_ovlp_pool st))"
    "\<forall>x \<in> set (ioReq_pool st). pool_ok (reqs st x)" using inv il by (simp_all add: ioq_inv_def)
  have rel: "released_ok st i x" "reqs ?st' x = released st i x" if "x \<in> live ?st'" for x
    using that released_all [OF inv il, of x] fin(5) live by auto
  have ws: "set ?ws \<subseteq> set (ioReq_ovlp_pool st)" "distinct ?ws"
    using inv il ok(2) by (auto simp: ioq_inv_def wake_links_def woken_def counts_ok_def)
  have dist: "distinct (ioReq_pool ?st' @ ioReq_ovlp_pool ?st')" using ok(1) ws by (auto simp: fin(1,2))
  have "pool_ok (reqs ?st' x)" if "x \<in> set (ioReq_pool ?st')" for x
    using that rel [of x] ok(1,6) by (auto simp: fin(1) released_ok_def live_def Let_def split: if_splits)
  moreover have "ovlp_ok (reqs ?st' x)" if "x \<in> set (ioReq_ovlp_pool ?st')" for x
    using that rel [of x] by (simp add: fin(2) released_ok_def live_def Let_def)
  moreover have "conflicts_ordered ?st'"
    unfolding conflicts_ordered_def live
  proof (intro ballI impI)
    fix a b assume ab: "a \<in> live st - {i}" "b \<in> live st - {i}" "a \<noteq> b" "conflict (reqs ?st' a) (reqs ?st' b)"
    then have "conflict (reqs st a) (reqs st b)" by (simp add: conflict_def fin(5) released_same)
    then have "waits st a b \<or> waits st b a" using ok(3) ab by (simp add: conflicts_ordered_def)
    then show "waits ?st' a b \<or> waits ?st' b a"
      using ab rel [of a] rel [of b] by (auto simp: waits_def released_ok_def live Let_def)
  qed
  moreover have "cnt_onfly_ovlpioReq ?st' = int (length (ioReq_ovlp_pool ?st'))"
    using length_filter_notin [of "ioReq_ovlp_pool st" ?ws] ok(1,5) ws by (simp add: fin(2,4))
  moreover have "cnt_onfly_ioReq ?st' = int (length (ioReq_pool ?st'))"
    using i ok(4) Suc_pred [OF length_pos_if_in_set [OF i]] by (simp add: fin(1,3) length_remove1)
  ultimately have "ioq_inv ?st'"
    using dist ioq_inv_end_links [OF inv i] by (simp add: ioq_inv_def live)
  then show ?thesis by (simp add: ioReq_end_request_finished [OF inv i])
qed

subsection \<open>Histories of a volume\<close>

text \<open>A request as \<^verbatim>\<open>ioReq_init_request\<close> leaves it.\<close>

definition new_req :: "io_request_t \<Rightarrow> bool" where
  "new_req r \<longleftrightarrow> wait_list r = [] \<and> wake_list r = [] \<and> cnt_ovlp_wait r = 0 \<and> cnt_ovlp_wake r = 0 \<and>
     st_ioReq (ioReq_stat r) = IOREQ_S_INIT \<and> \<not> bit (ioReq_fea r) IOREQ_FEA_IN_REQPOOL \<and>
     \<not> bit (ioReq_fea r) IOREQ_FEA_IN_WAITPOOL \<and> addr_wf (usrIO_addr r)"

text \<open>Each pool function runs under the pool mutex, so that a history is a sequence of arrivals, progress
  events of running requests and completions, in any order.\<close>

inductive ioq_step :: "volume_IOReqPool_t \<Rightarrow> volume_IOReqPool_t \<Rightarrow> bool" where
  arrive: "i \<notin> live st \<Longrightarrow> new_req r \<Longrightarrow>
     ioq_step st (snd (ioReq_add_ReqPool (\<lambda>_ _. True) i (st\<lparr>reqs := (reqs st)(i := r)\<rparr>)))"
| progress: "i \<in> set (ioReq_pool st) \<Longrightarrow> ioq_step st (snd (ioReq_fsm_event i e st))"
| finish: "i \<in> set (ioReq_pool st) \<Longrightarrow> ioq_step st (ioReq_end_request i st)"

inductive ioq_reach :: "volume_IOReqPool_t \<Rightarrow> bool" where
  init: "ioReq_pool st = [] \<Longrightarrow> ioReq_ovlp_pool st = [] \<Longrightarrow> cnt_onfly_ioReq st = 0 \<Longrightarrow>
     cnt_onfly_ovlpioReq st = 0 \<Longrightarrow> ioq_reach st"
| step: "ioq_reach st \<Longrightarrow> ioq_step st st' \<Longrightarrow> ioq_reach st'"

lemma ioq_inv_new:
  assumes "ioq_inv st" "i \<notin> live st"
  shows "ioq_inv (st\<lparr>reqs := (reqs st)(i := r)\<rparr>)"
proof -
  let ?st' = "st\<lparr>reqs := (reqs st)(i := r)\<rparr>"
  have same: "reqs ?st' x = reqs st x" if "x \<in> live st" for x using that assms(2) by auto
  have live: "live ?st' = live st" by (simp add: live_def)
  have "wait_links ?st' x = wait_links st x" "wake_links ?st' x = wake_links st x" if x: "x \<in> live st" for x
    unfolding wait_links_def wake_links_def same [OF x]
    using same ioq_inv_links [OF assms(1) x] by auto
  moreover have "conflicts_ordered ?st' = conflicts_ordered st"
    unfolding conflicts_ordered_def waits_def live using same by auto
  ultimately show ?thesis
    using assms(1) same unfolding ioq_inv_def live by (simp add: live_def)
qed

lemma ioq_inv_event:
  assumes inv: "ioq_inv st" and i: "i \<in> set (ioReq_pool st)"
  shows "ioq_inv (snd (ioReq_fsm_event i e st))"
proof -
  let ?st' = "snd (ioReq_fsm_event i e st)"
  have same: "usrIO_addr (reqs ?st' x) = usrIO_addr (reqs st x)" "iodir (reqs ?st' x) = iodir (reqs st x)"
    "wait_list (reqs ?st' x) = wait_list (reqs st x)" "wake_list (reqs ?st' x) = wake_list (reqs st x)"
    "cnt_ovlp_wait (reqs ?st' x) = cnt_ovlp_wait (reqs st x)" "cnt_ovlp_wake (reqs ?st' x) = cnt_ovlp_wake (reqs st x)"
    "ioReq_fea (reqs ?st' x) = ioReq_fea (reqs st x)"
    "x \<noteq> i \<Longrightarrow> ioReq_stat (reqs ?st' x) = ioReq_stat (reqs st x)" for x
    by (simp_all add: ioReq_fsm_event_def Let_def)
  have pools: "ioReq_pool ?st' = ioReq_pool st" "ioReq_ovlp_pool ?st' = ioReq_ovlp_pool st"
    "cnt_onfly_ioReq ?st' = cnt_onfly_ioReq st" "cnt_onfly_ovlpioReq ?st' = cnt_onfly_ovlpioReq st" "live ?st' = live st"
    by (simp_all add: ioReq_fsm_event_def Let_def live_def)
  have "running (st_ioReq (ioReq_stat (reqs st i)))" using inv i by (simp add: ioq_inv_def pool_ok_def)
  then have "running (st_ioReq (ioReq_stat (reqs ?st' i)))"
    by (cases "st_ioReq (ioReq_stat (reqs st i))"; cases e)
      (simp_all add: ioReq_fsm_event_def fsm_defs Let_def running_def)
  then have "pool_ok (reqs ?st' x)" if "x \<in> set (ioReq_pool st)" for x
    using inv that same(3,7,8) [of x] by (cases "x = i") (auto simp: ioq_inv_def pool_ok_def)
  moreover have "ovlp_ok (reqs ?st' x)" if "x \<in> set (ioReq_ovlp_pool st)" for x
    using inv that same(3,7,8) [of x] i by (cases "x = i") (auto simp: ioq_inv_def ovlp_ok_def)
  moreover have "counts_ok (reqs ?st' x) = counts_ok (reqs st x)" "wait_links ?st' x = wait_links st x"
    "wake_links ?st' x = wake_links st x" "conflicts_ordered ?st' = conflicts_ordered st" for x
    by (simp_all add: counts_ok_def wait_links_def wake_links_def conflicts_ordered_def waits_def conflict_def same pools)
  ultimately show ?thesis using inv by (simp add: ioq_inv_def pools)
qed

lemma ioq_reach_inv: "ioq_reach st \<Longrightarrow> ioq_inv st"
proof (induction rule: ioq_reach.induct)
  case (init st)
  then show ?case by (simp add: ioq_inv_def live_def conflicts_ordered_def)
next
  case (step st st')
  from step.hyps(2) step.IH show ?case
  proof cases
    case (arrive i r)
    have "fresh_req (st\<lparr>reqs := (reqs st)(i := r)\<rparr>) i"
      using arrive(2,3) by (simp add: fresh_req_def new_req_def live_def)
    then show ?thesis
      unfolding arrive(1) by (rule ioq_inv_add [OF ioq_inv_new [OF step.IH arrive(2)]]) simp
  qed (simp_all add: ioq_inv_event ioq_inv_end)
qed

subsection \<open>Consequences of the invariant\<close>

lemma ioq_inv_no_conflict:
  assumes "ioq_inv st" "a \<in> set (ioReq_pool st)" "b \<in> set (ioReq_pool st)" "a \<noteq> b"
  shows "\<not> conflict (reqs st a) (reqs st b)"
proof
  assume "conflict (reqs st a) (reqs st b)"
  then have "waits st a b \<or> waits st b a" using assms by (simp add: ioq_inv_def conflicts_ordered_def live_def)
  moreover have "wait_list (reqs st a) = []" "wait_list (reqs st b) = []"
    using assms by (simp_all add: ioq_inv_def pool_ok_def)
  ultimately show False by (simp add: waits_def)
qed

text \<open>The oldest waiting request waits for running requests only.\<close>

lemma ioq_inv_oldest:
  assumes "ioq_inv st" "ioReq_ovlp_pool st = w # ws"
  shows "wait_list (reqs st w) \<noteq> [] \<and> process_ior ` set (wait_list (reqs st w)) \<subseteq> set (ioReq_pool st)"
proof -
  have "w \<in> live st" "ovlp_ok (reqs st w)" "distinct (w # ws)" "wait_links st w"
    using assms by (simp_all add: ioq_inv_def live_def)
  then show ?thesis using assms(2) not_before_hd [of w ws] by (auto simp: wait_links_def ovlp_ok_def)
qed

lemma ioq_inv_pool_empty: "ioq_inv st \<Longrightarrow> ioReq_pool st = [] \<Longrightarrow> ioReq_ovlp_pool st = []"
  using ioq_inv_oldest [of st] by (cases "ioReq_ovlp_pool st") auto

text \<open>Completing the oldest running request again and again.\<close>

fun drain :: "nat \<Rightarrow> volume_IOReqPool_t \<Rightarrow> volume_IOReqPool_t" where
  "drain 0 st = st"
| "drain (Suc n) st = (case ioReq_pool st of [] \<Rightarrow> st | i # _ \<Rightarrow> drain n (ioReq_end_request i st))"

lemma end_request_length:
  assumes inv: "ioq_inv st" and i: "i \<in> set (ioReq_pool st)"
  shows "Suc (length (ioReq_pool (ioReq_end_request i st)) + length (ioReq_ovlp_pool (ioReq_end_request i st)))
    = length (ioReq_pool st) + length (ioReq_ovlp_pool st)"
proof -
  have card: "length (ioReq_pool s) + length (ioReq_ovlp_pool s) = card (live s)" if "ioq_inv s" for s
    using that distinct_card [of "ioReq_pool s @ ioReq_ovlp_pool s"] by (simp add: ioq_inv_def live_def)
  have "live (ioReq_end_request i st) = live st - {i}"
    by (simp add: ioReq_end_request_finished [OF assms] ioq_inv_end_live [OF assms])
  moreover have "i \<in> live st" "finite (live st)" using i by (simp_all add: live_def)
  ultimately show ?thesis
    unfolding card [OF inv] card [OF ioq_inv_end [OF assms]] by (simp only: card_Suc_Diff1)
qed

lemma drain_inv:
  assumes "ioq_inv st" "n = length (ioReq_pool st) + length (ioReq_ovlp_pool st)"
  shows "ioReq_pool (drain n st) = [] \<and> ioReq_ovlp_pool (drain n st) = []"
  using assms
proof (induction n arbitrary: st)
  case (Suc n)
  show ?case
  proof (cases "ioReq_pool st")
    case Nil
    then show ?thesis using ioq_inv_pool_empty [OF Suc.prems(1)] by simp
  next
    case (Cons i rest)
    then have i: "i \<in> set (ioReq_pool st)" by simp
    have "n = length (ioReq_pool (ioReq_end_request i st)) + length (ioReq_ovlp_pool (ioReq_end_request i st))"
      using end_request_length [OF Suc.prems(1) i] Suc.prems(2) by linarith
    from Suc.IH [OF ioq_inv_end [OF Suc.prems(1) i] this] show ?thesis by (simp add: Cons)
  qed
qed simp

lemma end_request_pools:
  assumes inv: "ioq_inv st" and i: "i \<in> set (ioReq_pool st)"
  defines "st' \<equiv> ioReq_end_request i st"
  defines "W \<equiv> {w \<in> set (ioReq_ovlp_pool st). process_ior ` set (wait_list (reqs st w)) = {i}}"
  shows "set (ioReq_pool st') = set (ioReq_pool st) - {i} \<union> W"
    and "ioReq_ovlp_pool st' = filter (\<lambda>w. w \<notin> W) (ioReq_ovlp_pool st)"
proof -
  let ?ws = "woken st (wake_list (reqs st i))"
  have il: "i \<in> live st" and d: "distinct (ioReq_pool st)" "i \<notin> set (ioReq_ovlp_pool st)"
    using inv i by (auto simp: live_def ioq_inv_def)
  have W: "w \<in> set ?ws \<longleftrightarrow> process_ior ` set (wait_list (reqs st w)) = {i}" if w: "w \<in> set (ioReq_ovlp_pool st)" for w
  proof -
    have wl: "w \<in> live st" "wait_list (reqs st w) \<noteq> []" using inv w by (auto simp: live_def ioq_inv_def ovlp_ok_def)
    have rel: "released_ok st i w" by (rule released_all [OF inv il wl(1)])
    have "w \<in> set ?ws \<longleftrightarrow> wait_list (released st i w) = []"
      using rel w by (auto simp: released_ok_def pool_ok_def ovlp_ok_def Let_def split: if_splits)
    also have "\<dots> \<longleftrightarrow> (\<forall>it \<in> set (wait_list (reqs st w)). process_ior it = i)"
      using rel by (simp add: released_ok_def Let_def filter_empty_conv)
    also have "\<dots> \<longleftrightarrow> process_ior ` set (wait_list (reqs st w)) = {i}" using wl(2) by (cases "wait_list (reqs st w)") auto
    finally show ?thesis .
  qed
  have sub: "set ?ws \<subseteq> set (ioReq_ovlp_pool st)"
    using inv il by (auto simp: ioq_inv_def wake_links_def woken_def)
  note fin = finished_simps [OF inv i] and eq = ioReq_end_request_finished [OF inv i]
  show "set (ioReq_pool st') = set (ioReq_pool st) - {i} \<union> W"
    using W sub d unfolding st'_def eq fin(1) W_def by auto
  show "ioReq_ovlp_pool st' = filter (\<lambda>w. w \<notin> W) (ioReq_ovlp_pool st)"
    unfolding st'_def eq fin(2) W_def using W by (intro filter_cong) auto
qed

subsection \<open>Properties\<close>

text \<open>A sample history: two disjoint writes run, a third one overlaps both and waits.\<close>

definition sample_req :: "nat \<Rightarrow> nat \<Rightarrow> io_request_t" where
  "sample_req s l = \<lparr>usrIO_addr = \<lparr>metaSrv_ipaddr = 0, metaSrv_port = 0, volumeID = 1, lbid_len = l, lbid_start = s\<rparr>,
     ioReqID = 0, ioReq_fea = 0, ioReq_stat = \<lparr>st_ioReq = IOREQ_S_INIT\<rparr>, iodir = KERNEL_IO_WRITE,
     is_ovlp_ior = False, ref_cnt = 1, wait_list = [], wake_list = [], cnt_ovlp_wait = 0, cnt_ovlp_wake = 0\<rparr>"

definition sample_empty :: volume_IOReqPool_t where
  "sample_empty = \<lparr>reqs = \<lambda>_. sample_req 0 1, ioReq_pool = [], ioReq_ovlp_pool = [],
     cnt_onfly_ioReq = 0, cnt_onfly_ovlpioReq = 0\<rparr>"

definition sample_arrive :: "nat \<Rightarrow> io_request_t \<Rightarrow> volume_IOReqPool_t \<Rightarrow> volume_IOReqPool_t" where
  "sample_arrive i r st = snd (ioReq_add_ReqPool (\<lambda>_ _. True) i (st\<lparr>reqs := (reqs st)(i := r)\<rparr>))"

definition sample_pool :: volume_IOReqPool_t where
  "sample_pool = sample_arrive 2 (sample_req 4 8) (sample_arrive 1 (sample_req 8 4)
     (sample_arrive 0 (sample_req 0 8) sample_empty))"

lemma sample_new: "new_req (sample_req 0 8)" "new_req (sample_req 8 4)" "new_req (sample_req 4 8)"
  by (simp_all add: new_req_def sample_req_def addr_wf_def)

lemma sample_arrive_reach:
  "ioq_reach st \<Longrightarrow> i \<notin> live st \<Longrightarrow> new_req r \<Longrightarrow> ioq_reach (sample_arrive i r st)"
  unfolding sample_arrive_def by (rule ioq_reach.step, assumption, rule ioq_step.arrive)

lemmas sample_defs = sample_arrive_def sample_empty_def sample_req_def ioReq_add_ReqPool_def chk_ovlp_ReqPool_def
  ioReq_chk_ovlp_def chk_io_rw_def chk_lb_ovlp_def w64_def w32_def sub64_def gen_ovlp_item_def
  ioReq_add_waitReq_def ioReq_add_wakeReq_def ioReq_fsm_event_def fsm_defs IOReqPool_addReq_nolock_def
  IOReqPool_addOvlpReq_nolock_def ioReq_chkset_fea_def test_and_set_bit_def Let_def fea_bits

lemma sample_live:
  "0 \<notin> live sample_empty"
  "1 \<notin> live (sample_arrive 0 (sample_req 0 8) sample_empty)"
  "2 \<notin> live (sample_arrive 1 (sample_req 8 4) (sample_arrive 0 (sample_req 0 8) sample_empty))"
  by (simp_all add: live_def sample_defs)

lemma sample_pool_reach: "ioq_reach sample_pool"
  unfolding sample_pool_def
  by (intro sample_arrive_reach sample_live sample_new ioq_reach.init) (simp_all add: sample_empty_def)

lemma sample_pool_pools: "ioReq_pool sample_pool = [0, 1]" "ioReq_ovlp_pool sample_pool = [2]"
  "map process_ior (wait_list (reqs sample_pool 2)) = [1, 0]"
  by (simp_all add: sample_pool_def sample_defs)



text \<open>(C2) No deadlock and no lost request: completing the oldest running request as often as there are
  requests in the two pools empties both.\<close>

theorem drain_empties_pools:
  assumes "ioq_reach st" "n = length (ioReq_pool st) + length (ioReq_ovlp_pool st)"
  shows "ioReq_pool (drain n st) = [] \<and> ioReq_ovlp_pool (drain n st) = []"
  using drain_inv [OF ioq_reach_inv [OF assms(1)] assms(2)] .

theorem drain_empties_pools_witness:
  "ioReq_pool (drain 3 sample_pool) = [] \<and> ioReq_ovlp_pool (drain 3 sample_pool) = []"
  using drain_empties_pools [of sample_pool 3] by (simp add: sample_pool_reach sample_pool_pools)

text \<open>(C3) Completion wakes exactly the requests that waited for the completed one and for nobody else: they
  join the running pool, the others keep their place in the wait pool.\<close>

theorem end_request_wakes_exactly:
  assumes "ioq_reach st" "i \<in> set (ioReq_pool st)"
  shows "set (ioReq_pool (ioReq_end_request i st)) = set (ioReq_pool st) - {i} \<union>
      {w \<in> set (ioReq_ovlp_pool st). process_ior ` set (wait_list (reqs st w)) = {i}} \<and>
    ioReq_ovlp_pool (ioReq_end_request i st) =
      filter (\<lambda>w. process_ior ` set (wait_list (reqs st w)) \<noteq> {i}) (ioReq_ovlp_pool st)"
  using end_request_pools [OF ioq_reach_inv [OF assms(1)] assms(2)] by (auto intro: filter_cong)

theorem end_request_wakes_exactly_witness:
  "set (ioReq_pool (ioReq_end_request 0 sample_pool)) = {1} \<and>
   ioReq_ovlp_pool (ioReq_end_request 0 sample_pool) = [2]"
proof -
  have "process_ior ` set (wait_list (reqs sample_pool 2)) = {0, 1}"
    using sample_pool_pools(3) by (metis list.set_map list.simps(15) list.set(1) insert_commute)
  then show ?thesis
    using end_request_wakes_exactly [of sample_pool 0] by (auto simp: sample_pool_reach sample_pool_pools)
qed



text \<open>(C20) The overlap check answers ``no overlap'' exactly when the block ranges are disjoint, and otherwise
  reports exactly their intersection, for ranges that do not wrap around.\<close>

theorem chk_lb_ovlp_exact:
  assumes "addr_wf p" "addr_wf n"
  shows "(fst (chk_lb_ovlp p n) = IOR_Wait_NoOvlp \<longleftrightarrow> lb_set p \<inter> lb_set n = {}) \<and>
    (lb_set p \<inter> lb_set n \<noteq> {} \<longrightarrow>
      (\<exists>s l. snd (chk_lb_ovlp p n) = Some (s, l) \<and> {s..<s + l} = lb_set p \<inter> lb_set n))"
  using chk_lb_ovlp_disjoint [OF assms] chk_lb_ovlp_range [OF assms] by simp

theorem chk_lb_ovlp_exact_witness:
  "let p = usrIO_addr (sample_req 0 8); n = usrIO_addr (sample_req 4 8)
   in fst (chk_lb_ovlp p n) \<noteq> IOR_Wait_NoOvlp \<and> {4..<4 + 4} = lb_set p \<inter> lb_set n"
proof -
  let ?p = "usrIO_addr (sample_req 0 8)" and ?n = "usrIO_addr (sample_req 4 8)"
  have "addr_wf ?p" "addr_wf ?n" using sample_new by (simp_all add: new_req_def)
  from chk_lb_ovlp_exact [OF this] show ?thesis by (auto simp: lb_set_def sample_req_def)
qed

text \<open>When the overlap item cannot be allocated, a conflicting request is submitted all the same.\<close>

lemma ovlp_alloc_failure_submits:
  assumes "ioReq_pool st = [c]" "ioReq_ovlp_pool st = []" "c \<noteq> i" "must_wait st c i"
    "st_ioReq (ioReq_stat (reqs st i)) = IOREQ_S_INIT" "\<not> bit (ioReq_fea (reqs st i)) IOREQ_FEA_IN_REQPOOL"
  shows "fst (ioReq_add_ReqPool (\<lambda>_ _. False) i st) \<and>
    ioReq_pool (snd (ioReq_add_ReqPool (\<lambda>_ _. False) i st)) = [c, i]"
  using assms
  by (auto simp: ioReq_add_ReqPool_def chk_ovlp_ReqPool_def ioReq_chk_ovlp_def must_wait_def Let_def
    ioReq_fsm_event_def fsm_defs IOReqPool_addReq_nolock_def ioReq_chkset_fea_def test_and_set_bit_def)

end
