(* ===== verification/Req_Pool.thy ===== *)
theory Req_Pool
  imports Disco_Prelude
begin

text \<open>
  The contract of the hash pools in which the managers keep their outstanding requests (datanode,
  namenode and payload requests, and the per-volume I/O pools): an array of linked lists, each list
  under its own lock, and an atomic counter.  A request is a pointer (a number); its key is read from
  the request store.  \<^verbatim>\<open>list_add_tail\<close> appends to one bucket, \<^verbatim>\<open>list_del\<close> takes the entry out of the list it is
  linked into, whichever that is.  The theory holds the bucket operations, the invariant of a bucket
  array and the interface that the pools of the components implement.
\<close>

subsection \<open>Bucket arrays\<close>

type_synonym buckets = "nat \<Rightarrow> nat list"

definition bk_add :: "nat \<Rightarrow> nat \<Rightarrow> buckets \<Rightarrow> buckets" where
  "bk_add r i b = b(i := b i @ [r])"

definition bk_del :: "nat \<Rightarrow> buckets \<Rightarrow> buckets" where
  "bk_del r b = (\<lambda>i. remove1 r (b i))"

definition bk_mems :: "buckets \<Rightarrow> nat set" where
  "bk_mems b = (\<Union>i. set (b i))"

definition bk_inv :: "(nat \<Rightarrow> nat) \<Rightarrow> buckets \<Rightarrow> bool" where
  "bk_inv h b \<longleftrightarrow> finite (bk_mems b) \<and> (\<forall>i. distinct (b i) \<and> (\<forall>r \<in> set (b i). h r = i))"

lemma bk_add_apply [simp]: "bk_add r i b j = (if j = i then b i @ [r] else b j)"
  by (simp add: bk_add_def)

lemma bk_del_apply [simp]: "bk_del r b i = remove1 r (b i)"
  by (simp add: bk_del_def)

lemma bk_mems_empty [simp]: "bk_mems (\<lambda>_. []) = {}"
  by (simp add: bk_mems_def)

lemma bk_inv_empty [simp]: "bk_inv h (\<lambda>_. [])"
  by (simp add: bk_inv_def)

lemma bk_mem_iff: "bk_inv h b \<Longrightarrow> r \<in> bk_mems b \<longleftrightarrow> r \<in> set (b (h r))"
  by (auto simp: bk_inv_def bk_mems_def)

lemma bk_mems_add [simp]: "bk_mems (bk_add r i b) = insert r (bk_mems b)"
  by (auto simp: bk_mems_def bk_add_def split: if_splits)

lemma bk_inv_add:
  assumes "bk_inv h b" "r \<notin> bk_mems b"
  shows "bk_inv h (bk_add r (h r) b)"
proof -
  have "finite (bk_mems (bk_add r (h r) b))" using assms(1) by (simp add: bk_inv_def)
  then show ?thesis using assms by (auto simp: bk_inv_def bk_add_def bk_mems_def)
qed

lemma bk_mems_del: "bk_inv h b \<Longrightarrow> bk_mems (bk_del r b) = bk_mems b - {r}"
  by (auto simp: bk_inv_def bk_mems_def bk_del_def)

lemma bk_inv_del: "bk_inv h b \<Longrightarrow> bk_inv h (bk_del r b)"
  using bk_mems_del [of h b r] by (auto simp: bk_inv_def bk_del_def)

lemma bk_inv_cong:
  assumes "bk_inv h b" "\<And>r. r \<in> bk_mems b \<Longrightarrow> h r = h' r"
  shows "bk_inv h' b"
proof -
  have "r \<in> set (b i) \<Longrightarrow> h r = h' r" for r i using assms(2) by (auto simp: bk_mems_def)
  then show ?thesis using assms(1) unfolding bk_inv_def by metis
qed

text \<open>A bucket array with the counter of its entries.\<close>

definition bk_counted :: "(nat \<Rightarrow> nat) \<Rightarrow> buckets \<Rightarrow> int \<Rightarrow> bool" where
  "bk_counted h b n \<longleftrightarrow> bk_inv h b \<and> n = int (card (bk_mems b))"

lemma bk_counted_empty [simp]: "bk_counted h (\<lambda>_. []) 0"
  by (simp add: bk_counted_def)

lemma bk_countedD: "bk_counted h b n \<Longrightarrow> bk_inv h b" "bk_counted h b n \<Longrightarrow> n = int (card (bk_mems b)) \<and> finite (bk_mems b)"
  by (simp_all add: bk_counted_def bk_inv_def)

lemma bk_counted_add: "bk_counted h b n \<Longrightarrow> r \<notin> bk_mems b \<Longrightarrow> bk_counted h (bk_add r (h r) b) (n + 1)"
  using bk_inv_add by (auto simp: bk_counted_def bk_inv_def)

lemma bk_counted_del:
  assumes "bk_counted h b n" "r \<in> bk_mems b"
  shows "bk_counted h (bk_del r b) (n - 1)"
proof -
  have "Suc (card (bk_mems b - {r})) = card (bk_mems b)" using bk_countedD(2) [OF assms(1)] assms(2) by (meson card_Suc_Diff1)
  then show ?thesis using assms bk_inv_del [of h b r] by (auto simp: bk_counted_def bk_mems_del)
qed

lemma bk_counted_cong: "bk_counted h b n \<Longrightarrow> (\<And>r. r \<in> bk_mems b \<Longrightarrow> h r = h' r) \<Longrightarrow> bk_counted h' b n"
  unfolding bk_counted_def by (metis bk_inv_cong)

text \<open>Searching the bucket of a key.\<close>

lemma bk_find_Some:
  assumes "bk_inv (idx \<circ> key) b" "find (\<lambda>r. key r = k) (b (idx k)) = Some r"
  shows "r \<in> bk_mems b \<and> key r = k"
  using assms(2) by (auto simp: find_Some_iff bk_mems_def) (metis nth_mem)

lemma bk_find_None:
  assumes "bk_inv (idx \<circ> key) b" "find (\<lambda>r. key r = k) (b (idx k)) = None" "r \<in> bk_mems b"
  shows "key r \<noteq> k"
  using assms bk_mem_iff [OF assms(1), of r] by (auto simp: find_None_iff)

subsection \<open>The interface\<close>

locale req_pool =
  fixes idx :: "'k \<Rightarrow> nat"
    and init :: 'p
    and add :: "nat \<Rightarrow> nat \<Rightarrow> 'p \<Rightarrow> 'p"
    and rm :: "nat \<Rightarrow> 'p \<Rightarrow> 'p"
    and lookup :: "(nat \<Rightarrow> 'k) \<Rightarrow> 'k \<Rightarrow> nat \<Rightarrow> 'p \<Rightarrow> nat option"
    and num :: "'p \<Rightarrow> int"
    and mems :: "'p \<Rightarrow> nat set"
    and inv :: "(nat \<Rightarrow> 'k) \<Rightarrow> 'p \<Rightarrow> bool"
  assumes inv_init: "inv key init" and mems_init: "mems init = {}"
    and inv_add: "inv key p \<Longrightarrow> r \<notin> mems p \<Longrightarrow> inv key (add r (idx (key r)) p)"
    and mems_add: "mems (add r i p) = insert r (mems p)"
    and inv_rm: "inv key p \<Longrightarrow> r \<in> mems p \<Longrightarrow> inv key (rm r p)"
    and mems_rm: "inv key p \<Longrightarrow> mems (rm r p) = mems p - {r}"
    and lookup_Some: "inv key p \<Longrightarrow> lookup key k (idx k) p = Some r \<Longrightarrow> r \<in> mems p \<and> key r = k"
    and lookup_None: "inv key p \<Longrightarrow> lookup key k (idx k) p = None \<Longrightarrow> r \<in> mems p \<Longrightarrow> key r \<noteq> k"
    and num_mems: "inv key p \<Longrightarrow> num p = int (card (mems p)) \<and> finite (mems p)"
    and inv_cong: "inv key p \<Longrightarrow> (\<And>r. r \<in> mems p \<Longrightarrow> key r = key' r) \<Longrightarrow> inv key' p"
begin

text \<open>When the keys of the members are different, the pool is a map from keys to requests.\<close>

lemma lookup_iff:
  assumes "inv key p" "inj_on key (mems p)"
  shows "lookup key k (idx k) p = Some r \<longleftrightarrow> r \<in> mems p \<and> key r = k"
proof
  assume "r \<in> mems p \<and> key r = k"
  then obtain r' where r': "lookup key k (idx k) p = Some r'"
    using lookup_None [OF assms(1), of k r] by (cases "lookup key k (idx k) p") auto
  with lookup_Some [OF assms(1) r'] \<open>r \<in> mems p \<and> key r = k\<close> assms(2) show "lookup key k (idx k) p = Some r"
    by (auto dest: inj_onD)
qed (use lookup_Some [OF assms(1)] in blast)

lemma lookup_none_iff:
  assumes "inv key p"
  shows "lookup key k (idx k) p = None \<longleftrightarrow> (\<forall>r \<in> mems p. key r \<noteq> k)"
  using lookup_None [OF assms, of k] lookup_Some [OF assms, of k]
  by (cases "lookup key k (idx k) p") auto

lemma lookup_add:
  assumes "inv key p" "r \<notin> mems p" "\<forall>r' \<in> mems p. key r' \<noteq> key r"
  shows "lookup key (key r) (idx (key r)) (add r (idx (key r)) p) = Some r"
proof -
  let ?p = "add r (idx (key r)) p"
  have inv: "inv key ?p" by (rule inv_add [OF assms(1,2)])
  then obtain r' where r': "lookup key (key r) (idx (key r)) ?p = Some r'"
    using lookup_none_iff [OF inv, of "key r"] by (cases "lookup key (key r) (idx (key r)) ?p") (auto simp: mems_add)
  with lookup_Some [OF inv r'] assms(3) show ?thesis by (auto simp: mems_add)
qed

lemma lookup_rm:
  assumes "inv key p" "inj_on key (mems p)" "r \<in> mems p"
  shows "lookup key (key r) (idx (key r)) (rm r p) = None"
  using assms(2,3) unfolding lookup_none_iff [OF inv_rm [OF assms(1,3)]] mems_rm [OF assms(1)]
  by (auto dest: inj_onD)

lemma lookup_add_other:
  assumes "inv key p" "inj_on key (mems p)" "r \<notin> mems p" "\<forall>r' \<in> mems p. key r' \<noteq> key r" "k \<noteq> key r"
  shows "lookup key k (idx k) (add r (idx (key r)) p) = lookup key k (idx k) p"
proof -
  let ?p = "add r (idx (key r)) p"
  have inv: "inv key ?p" by (rule inv_add [OF assms(1,3)])
  have inj: "inj_on key (mems ?p)" using assms(2-4) by (auto simp: mems_add inj_on_def)
  have "lookup key k (idx k) ?p = Some x \<longleftrightarrow> lookup key k (idx k) p = Some x" for x
    unfolding lookup_iff [OF inv inj] lookup_iff [OF assms(1,2)] using assms(5) by (auto simp: mems_add)
  then show ?thesis by (metis option.exhaust)
qed

lemma lookup_rm_other:
  assumes "inv key p" "inj_on key (mems p)" "r \<in> mems p" "k \<noteq> key r"
  shows "lookup key k (idx k) (rm r p) = lookup key k (idx k) p"
proof -
  have inv: "inv key (rm r p)" by (rule inv_rm [OF assms(1,3)])
  have inj: "inj_on key (mems (rm r p))" using assms(2) by (simp add: mems_rm [OF assms(1)] inj_on_diff)
  have "lookup key k (idx k) (rm r p) = Some x \<longleftrightarrow> lookup key k (idx k) p = Some x" for x
    unfolding lookup_iff [OF inv inj] lookup_iff [OF assms(1,2)]
    using assms(4) by (auto simp: mems_rm [OF assms(1)])
  then show ?thesis by (metis option.exhaust)
qed

end

end
