(* ===== verification/Work_Queue.thy ===== *)
theory Work_Queue
  imports Req_Pool
begin

unbundle bit_operations_syntax

text \<open>
  The work queues of the socket senders (\<^verbatim>\<open>discoNN_client/discoC_NNC_worker.c\<close> and
  \<^verbatim>\<open>discoDN_client/discoC_DNC_worker.c\<close>): 32 buckets filled by request number, one bucket for high-priority
  requests, and a dequeue index that visits the buckets in turn.  The two workers are written
  separately with the same members; \<^verbatim>\<open>discoNNC_worker_t\<close> is the record of both.  The thread, its wait queue and
  its function are not part of the record: a worker round is one call of the functions below.
\<close>

subsection \<open>The contract of a work queue\<close>

text \<open>Rounds of a worker: pick a bucket, take its first request out if there is one.\<close>

primrec serve :: "('w \<Rightarrow> nat \<times> 'w) \<Rightarrow> (nat \<Rightarrow> 'w \<Rightarrow> nat option) \<Rightarrow> (nat \<Rightarrow> nat \<Rightarrow> 'w \<Rightarrow> 'w) \<Rightarrow> nat \<Rightarrow> 'w \<Rightarrow> nat list \<times> 'w" where
  "serve probe first del 0 w = ([], w)"
| "serve probe first del (Suc n) w =
     (let p = probe w in
      case first (fst p) (snd p) of
        None \<Rightarrow> serve probe first del n (snd p)
      | Some r \<Rightarrow> (let q = serve probe first del n (del (fst p) r (snd p)) in (r # fst q, snd q)))"

locale work_queue =
  fixes N :: nat
    and put :: "nat \<Rightarrow> nat \<Rightarrow> 'w \<Rightarrow> 'w"
    and probe :: "'w \<Rightarrow> nat \<times> 'w"
    and first :: "nat \<Rightarrow> 'w \<Rightarrow> nat option"
    and del :: "nat \<Rightarrow> nat \<Rightarrow> 'w \<Rightarrow> 'w"
    and size :: "'w \<Rightarrow> int"
    and mems :: "'w \<Rightarrow> nat set"
    and inv :: "(nat \<Rightarrow> nat) \<Rightarrow> 'w \<Rightarrow> bool"
  assumes inv_put: "inv h w \<Longrightarrow> r \<notin> mems w \<Longrightarrow> h r < N \<Longrightarrow> inv h (put (h r) r w)"
    and mems_put: "mems (put i r w) = insert r (mems w)"
    and inv_del: "inv h w \<Longrightarrow> r \<in> mems w \<Longrightarrow> inv h (del (h r) r w)"
    and mems_del: "inv h w \<Longrightarrow> mems (del i r w) = mems w - {r}"
    and inv_probe: "inv h w \<Longrightarrow> inv h (snd (probe w))"
    and mems_probe: "mems (snd (probe w)) = mems w"
    and first_Some: "inv h w \<Longrightarrow> first i w = Some r \<Longrightarrow> r \<in> mems w \<and> h r = i"
    and probe_finds: "inv h w \<Longrightarrow> mems w \<noteq> {} \<Longrightarrow>
      \<exists>n < N. let p = probe (((snd \<circ> probe) ^^ n) w) in first (fst p) (snd p) \<noteq> None"
    and size_mems: "inv h w \<Longrightarrow> size w = int (card (mems w)) \<and> finite (mems w)"
begin

lemma serve_sound:
  assumes "inv h w"
  shows "inv h (snd (serve probe first del n w)) \<and> distinct (fst (serve probe first del n w)) \<and>
    set (fst (serve probe first del n w)) \<subseteq> mems w \<and>
    mems (snd (serve probe first del n w)) = mems w - set (fst (serve probe first del n w))"
  using assms
proof (induction n arbitrary: w)
  case (Suc n)
  let ?p = "probe w"
  have p: "inv h (snd ?p)" "mems (snd ?p) = mems w" using inv_probe [OF Suc.prems] mems_probe by auto
  show ?case
  proof (cases "first (fst ?p) (snd ?p)")
    case None
    then show ?thesis using Suc.IH [OF p(1)] p(2) by simp
  next
    case (Some r)
    then have r: "r \<in> mems w" "h r = fst ?p" using first_Some [OF p(1)] p(2) by auto
    have d: "inv h (del (fst ?p) r (snd ?p))" "mems (del (fst ?p) r (snd ?p)) = mems w - {r}"
      using inv_del [OF p(1), of r] mems_del [OF p(1)] r p(2) by auto
    show ?thesis using Suc.IH [OF d(1)] d(2) r(1) by (auto simp: Some Let_def)
  qed
qed simp

lemma serve_add:
  "serve probe first del (m + n) w =
    (let q = serve probe first del m w; q' = serve probe first del n (snd q) in (fst q @ fst q', snd q'))"
  by (induction m arbitrary: w) (auto simp: Let_def split: option.split)

lemma serve_none:
  "fst (serve probe first del n w) = [] \<Longrightarrow> k < n \<Longrightarrow>
    (let p = probe (((snd \<circ> probe) ^^ k) w) in first (fst p) (snd p) = None)"
proof (induction n arbitrary: w k)
  case (Suc n)
  have none: "first (fst (probe w)) (snd (probe w)) = None"
    and rest: "fst (serve probe first del n (snd (probe w))) = []"
    using Suc.prems(1) by (auto simp: Let_def split: option.splits)
  show ?case
  proof (cases k)
    case 0
    then show ?thesis using none by simp
  next
    case (Suc k')
    then show ?thesis using Suc.IH [OF rest, of k'] Suc.prems(2) by (simp add: funpow_Suc_right Let_def del: funpow.simps)
  qed
qed simp

lemma serve_progress:
  assumes "inv h w" "mems w \<noteq> {}"
  shows "fst (serve probe first del N w) \<noteq> []"
  using probe_finds [OF assms] serve_none [of N w] by (auto simp: Let_def)

text \<open>Without further arrivals every queued request is taken out, once.\<close>

lemma serve_all:
  assumes "inv h w" "card (mems w) \<le> k"
  shows "set (fst (serve probe first del (k * N) w)) = mems w \<and>
    distinct (fst (serve probe first del (k * N) w)) \<and> mems (snd (serve probe first del (k * N) w)) = {}"
  using assms
proof (induction k arbitrary: w)
  case 0
  then have "mems w = {}" using size_mems [OF 0(1)] by simp
  then show ?case by simp
next
  case (Suc k)
  let ?q = "serve probe first del N w"
  have q: "inv h (snd ?q)" "set (fst ?q) \<subseteq> mems w" "mems (snd ?q) = mems w - set (fst ?q)" "distinct (fst ?q)"
    using serve_sound [OF Suc.prems(1), of N] by auto
  have fin: "finite (mems w)" using size_mems [OF Suc.prems(1)] by simp
  have "card (mems (snd ?q)) \<le> k"
  proof (cases "mems w = {}")
    case False
    then have "0 < card (set (fst ?q))" using serve_progress [OF Suc.prems(1)] by (simp add: card_gt_0_iff)
    then show ?thesis using Suc.prems(2) q(2,3) fin by (simp add: card_Diff_subset)
  qed (simp add: q(3))
  from Suc.IH [OF q(1) this] show ?case
    using q(2,3,4) by (auto simp: serve_add Let_def)
qed

end

subsection \<open>The namenode worker\<close>

datatype priority_type = PRIORITY_HIGH | PRIORITY_LOW

definition NNC_WORKQ_HASH_NUM :: nat where
  "NNC_WORKQ_HASH_NUM = 32"

definition NNC_WORKQ_MOD_NUM :: u32 where
  "NNC_WORKQ_MOD_NUM = of_nat NNC_WORKQ_HASH_NUM - 1"

definition NNC_WORKQ_TOTAL_NUM :: nat where
  "NNC_WORKQ_TOTAL_NUM = NNC_WORKQ_HASH_NUM + 1"

definition NNC_WORKQ_HP_BK_IDX :: nat where
  "NNC_WORKQ_HP_BK_IDX = NNC_WORKQ_HASH_NUM"

record discoNNC_worker_t =
  wker_ReqPool :: buckets
  wker_ReqPlock :: "nat \<Rightarrow> bool"
  deq_bucket_idx :: u32
  wker_ReqQ_size :: int
  wker_HPReqQ_size :: int

definition NNCWker_get_numReq_workQ :: "discoNNC_worker_t \<Rightarrow> int" where
  "NNCWker_get_numReq_workQ myWker = wker_ReqQ_size myWker"

definition NNCWker_gain_qlock :: "u32 \<Rightarrow> priority_type \<Rightarrow> discoNNC_worker_t \<Rightarrow> nat \<times> discoNNC_worker_t" where
  "NNCWker_gain_qlock reqID ptype myWker =
     (let hindex = (if PRIORITY_LOW = ptype then unat (reqID AND NNC_WORKQ_MOD_NUM) else NNC_WORKQ_HP_BK_IDX)
      in (hindex, myWker\<lparr>wker_ReqPlock := (wker_ReqPlock myWker)(hindex := True)\<rparr>))"

definition NNCWker_rel_qlock :: "nat \<Rightarrow> discoNNC_worker_t \<Rightarrow> discoNNC_worker_t" where
  "NNCWker_rel_qlock lockID myWker = myWker\<lparr>wker_ReqPlock := (wker_ReqPlock myWker)(lockID := False)\<rparr>"

definition NNCWker_addReq_workerQ_nolock :: "nat \<Rightarrow> nat \<Rightarrow> discoNNC_worker_t \<Rightarrow> discoNNC_worker_t" where
  "NNCWker_addReq_workerQ_nolock lockID list_ptr myWker =
     (let w1 = myWker\<lparr>wker_ReqPool := bk_add list_ptr lockID (wker_ReqPool myWker),
                      wker_ReqQ_size := wker_ReqQ_size myWker + 1\<rparr>;
          w2 = (if wker_ReqQ_size w1 = 1 then w1\<lparr>deq_bucket_idx := of_nat lockID\<rparr> else w1)
      in if NNC_WORKQ_HP_BK_IDX = lockID then w2\<lparr>wker_HPReqQ_size := wker_HPReqQ_size w2 + 1\<rparr> else w2)"

definition NNCWker_peekReq_gain_lock :: "discoNNC_worker_t \<Rightarrow> nat \<times> discoNNC_worker_t" where
  "NNCWker_peekReq_gain_lock myWker =
     (let r = (if wker_HPReqQ_size myWker > 0 then (NNC_WORKQ_HP_BK_IDX, myWker)
               else (unat (deq_bucket_idx myWker),
                     myWker\<lparr>deq_bucket_idx := (deq_bucket_idx myWker + 1) AND NNC_WORKQ_MOD_NUM\<rparr>))
      in (fst r, (snd r)\<lparr>wker_ReqPlock := (wker_ReqPlock (snd r))(fst r := True)\<rparr>))"

definition NNCWker_peekReq_workerQ_nolock :: "nat \<Rightarrow> discoNNC_worker_t \<Rightarrow> nat option" where
  "NNCWker_peekReq_workerQ_nolock lockID myWker =
     (case wker_ReqPool myWker lockID of [] \<Rightarrow> None | cur # _ \<Rightarrow> Some cur)"

definition NNCWker_rmReq_workerQ_nolock :: "nat \<Rightarrow> nat \<Rightarrow> discoNNC_worker_t \<Rightarrow> discoNNC_worker_t" where
  "NNCWker_rmReq_workerQ_nolock lockID list_ptr myWker =
     (let w1 = myWker\<lparr>wker_ReqPool := bk_del list_ptr (wker_ReqPool myWker),
                      wker_ReqQ_size := wker_ReqQ_size myWker - 1\<rparr>
      in if NNC_WORKQ_HP_BK_IDX = lockID then w1\<lparr>wker_HPReqQ_size := wker_HPReqQ_size w1 - 1\<rparr> else w1)"

definition NNCWker_addReq_workerQ :: "u32 \<Rightarrow> priority_type \<Rightarrow> nat \<Rightarrow> discoNNC_worker_t \<Rightarrow> discoNNC_worker_t" where
  "NNCWker_addReq_workerQ reqID ptype list_ptr myWker =
     (let hindex = (if PRIORITY_LOW = ptype then unat (reqID AND NNC_WORKQ_MOD_NUM) else NNC_WORKQ_HP_BK_IDX);
          w0 = myWker\<lparr>wker_ReqPlock := (wker_ReqPlock myWker)(hindex := True)\<rparr>;
          w1 = w0\<lparr>wker_ReqPool := bk_add list_ptr hindex (wker_ReqPool w0), wker_ReqQ_size := wker_ReqQ_size w0 + 1\<rparr>;
          w2 = (if wker_ReqQ_size w1 = 1 then w1\<lparr>deq_bucket_idx := of_nat hindex\<rparr> else w1);
          w3 = (if NNC_WORKQ_HP_BK_IDX = hindex then w2\<lparr>wker_HPReqQ_size := wker_HPReqQ_size w2 + 1\<rparr> else w2)
      in w3\<lparr>wker_ReqPlock := (wker_ReqPlock w3)(hindex := False)\<rparr>)"

definition NNCWker_peekReq_workerQ :: "discoNNC_worker_t \<Rightarrow> nat option \<times> discoNNC_worker_t" where
  "NNCWker_peekReq_workerQ myWker =
     (let r = (if wker_HPReqQ_size myWker > 0 then (NNC_WORKQ_HP_BK_IDX, myWker)
               else (unat (deq_bucket_idx myWker),
                     myWker\<lparr>deq_bucket_idx := (deq_bucket_idx myWker + 1) AND NNC_WORKQ_MOD_NUM\<rparr>));
          deq_index = fst r;
          w1 = (snd r)\<lparr>wker_ReqPlock := (wker_ReqPlock (snd r))(deq_index := True)\<rparr>
      in case wker_ReqPool w1 deq_index of
           [] \<Rightarrow> (None, w1\<lparr>wker_ReqPlock := (wker_ReqPlock w1)(deq_index := False)\<rparr>)
         | cur # _ \<Rightarrow>
             (let w2 = w1\<lparr>wker_ReqPool := bk_del cur (wker_ReqPool w1)\<rparr>;
                  w3 = w2\<lparr>wker_ReqPlock := (wker_ReqPlock w2)(deq_index := False)\<rparr>;
                  w4 = (if NNC_WORKQ_HP_BK_IDX = deq_index then w3\<lparr>wker_HPReqQ_size := wker_HPReqQ_size w3 - 1\<rparr> else w3)
              in (Some cur, w4\<lparr>wker_ReqQ_size := wker_ReqQ_size w4 - 1\<rparr>)))"

definition NNCWker_init_worker :: discoNNC_worker_t where
  "NNCWker_init_worker = \<lparr>wker_ReqPool = \<lambda>_. [], wker_ReqPlock = \<lambda>_. False, deq_bucket_idx = 0,
     wker_ReqQ_size = 0, wker_HPReqQ_size = 0\<rparr>"

subsection \<open>The datanode worker\<close>

type_synonym discoDNC_worker_t = discoNNC_worker_t

definition DNC_WORKQ_HASH_NUM :: nat where
  "DNC_WORKQ_HASH_NUM = 32"

definition DNC_WORKQ_MOD_NUM :: u32 where
  "DNC_WORKQ_MOD_NUM = of_nat DNC_WORKQ_HASH_NUM - 1"

definition DNC_WORKQ_TOTAL_NUM :: nat where
  "DNC_WORKQ_TOTAL_NUM = DNC_WORKQ_HASH_NUM + 1"

definition DNC_WORKQ_HP_BK_IDX :: nat where
  "DNC_WORKQ_HP_BK_IDX = DNC_WORKQ_HASH_NUM"

definition DNCWker_get_numReq_workQ :: "discoDNC_worker_t \<Rightarrow> int" where
  "DNCWker_get_numReq_workQ myWker = wker_ReqQ_size myWker"

definition acquire_DNCWorkQ_lock :: "u32 \<Rightarrow> priority_type \<Rightarrow> discoDNC_worker_t \<Rightarrow> nat \<times> discoDNC_worker_t" where
  "acquire_DNCWorkQ_lock reqID ptype myWker =
     (let hindex = (if PRIORITY_LOW = ptype then unat (reqID AND DNC_WORKQ_MOD_NUM) else DNC_WORKQ_HP_BK_IDX)
      in (hindex, myWker\<lparr>wker_ReqPlock := (wker_ReqPlock myWker)(hindex := True)\<rparr>))"

definition rel_DNCWorkQ_lock :: "nat \<Rightarrow> discoDNC_worker_t \<Rightarrow> discoDNC_worker_t" where
  "rel_DNCWorkQ_lock lockID myWker = myWker\<lparr>wker_ReqPlock := (wker_ReqPlock myWker)(lockID := False)\<rparr>"

definition addReq_DNCWorkQ_nolock :: "nat \<Rightarrow> nat \<Rightarrow> discoDNC_worker_t \<Rightarrow> discoDNC_worker_t" where
  "addReq_DNCWorkQ_nolock lockID list_ptr myWker =
     (let w1 = myWker\<lparr>wker_ReqPool := bk_add list_ptr lockID (wker_ReqPool myWker),
                      wker_ReqQ_size := wker_ReqQ_size myWker + 1\<rparr>;
          w2 = (if wker_ReqQ_size w1 = 1 then w1\<lparr>deq_bucket_idx := of_nat lockID\<rparr> else w1)
      in if DNC_WORKQ_HP_BK_IDX = lockID then w2\<lparr>wker_HPReqQ_size := wker_HPReqQ_size w2 + 1\<rparr> else w2)"

definition peekReq_acquire_DNCWorkQ_lock :: "discoDNC_worker_t \<Rightarrow> nat \<times> discoDNC_worker_t" where
  "peekReq_acquire_DNCWorkQ_lock myWker =
     (let r = (if wker_HPReqQ_size myWker > 0 then (DNC_WORKQ_HP_BK_IDX, myWker)
               else (unat (deq_bucket_idx myWker),
                     myWker\<lparr>deq_bucket_idx := (deq_bucket_idx myWker + 1) AND DNC_WORKQ_MOD_NUM\<rparr>))
      in (fst r, (snd r)\<lparr>wker_ReqPlock := (wker_ReqPlock (snd r))(fst r := True)\<rparr>))"

definition peekReq_DNCWorkQ_nolock :: "nat \<Rightarrow> discoDNC_worker_t \<Rightarrow> nat option" where
  "peekReq_DNCWorkQ_nolock lockID myWker = (case wker_ReqPool myWker lockID of [] \<Rightarrow> None | cur # _ \<Rightarrow> Some cur)"

definition rmReq_DNCWorkQ_nolock :: "nat \<Rightarrow> nat \<Rightarrow> discoDNC_worker_t \<Rightarrow> discoDNC_worker_t" where
  "rmReq_DNCWorkQ_nolock lockID list_ptr myWker =
     (let w1 = myWker\<lparr>wker_ReqPool := bk_del list_ptr (wker_ReqPool myWker),
                      wker_ReqQ_size := wker_ReqQ_size myWker - 1\<rparr>
      in if DNC_WORKQ_HP_BK_IDX = lockID then w1\<lparr>wker_HPReqQ_size := wker_HPReqQ_size w1 - 1\<rparr> else w1)"

definition DNCWker_init_worker :: discoDNC_worker_t where
  "DNCWker_init_worker = \<lparr>wker_ReqPool = \<lambda>_. [], wker_ReqPlock = \<lambda>_. False, deq_bucket_idx = 0,
     wker_ReqQ_size = 0, wker_HPReqQ_size = 0\<rparr>"

subsection \<open>The workers implement the contract\<close>

definition wq_mems :: "discoNNC_worker_t \<Rightarrow> nat set" where
  "wq_mems w = bk_mems (wker_ReqPool w)"

definition wq_inv :: "(nat \<Rightarrow> nat) \<Rightarrow> discoNNC_worker_t \<Rightarrow> bool" where
  "wq_inv h w \<longleftrightarrow> bk_inv h (wker_ReqPool w) \<and> (\<forall>r \<in> wq_mems w. h r < NNC_WORKQ_TOTAL_NUM) \<and>
     wker_ReqQ_size w = int (card (wq_mems w)) \<and>
     wker_HPReqQ_size w = int (length (wker_ReqPool w NNC_WORKQ_HP_BK_IDX)) \<and>
     unat (deq_bucket_idx w) < NNC_WORKQ_TOTAL_NUM"

lemmas wq_consts = NNC_WORKQ_HASH_NUM_def NNC_WORKQ_MOD_NUM_def NNC_WORKQ_TOTAL_NUM_def NNC_WORKQ_HP_BK_IDX_def
  DNC_WORKQ_HASH_NUM_def DNC_WORKQ_MOD_NUM_def DNC_WORKQ_TOTAL_NUM_def DNC_WORKQ_HP_BK_IDX_def

lemma workq_mod: "unat ((x :: u32) AND NNC_WORKQ_MOD_NUM) = unat x mod 32"
proof -
  have "NNC_WORKQ_MOD_NUM = mask 5" by (simp add: wq_consts mask_eq_exp_minus_1)
  then have "x AND NNC_WORKQ_MOD_NUM = take_bit 5 x" by (simp add: take_bit_eq_mask)
  then have "unat (x AND NNC_WORKQ_MOD_NUM) = take_bit 5 (unat x)" by (simp only: unsigned_take_bit_eq)
  then show ?thesis by (simp add: take_bit_eq_mod)
qed

lemma workq_next: "unat (d :: u32) < NNC_WORKQ_TOTAL_NUM \<Longrightarrow> unat ((d + 1) AND NNC_WORKQ_MOD_NUM) = (unat d + 1) mod 32"
  unfolding workq_mod by (simp add: wq_consts unat_word_ariths)

lemma addReq_workerQ_simps [simp]:
  "wker_ReqPool (NNCWker_addReq_workerQ_nolock i r w) = bk_add r i (wker_ReqPool w)"
  "wker_ReqQ_size (NNCWker_addReq_workerQ_nolock i r w) = wker_ReqQ_size w + 1"
  "wker_HPReqQ_size (NNCWker_addReq_workerQ_nolock i r w) =
     (if i = NNC_WORKQ_HP_BK_IDX then wker_HPReqQ_size w + 1 else wker_HPReqQ_size w)"
  "deq_bucket_idx (NNCWker_addReq_workerQ_nolock i r w) =
     (if wker_ReqQ_size w = 0 then of_nat i else deq_bucket_idx w)"
  by (auto simp: NNCWker_addReq_workerQ_nolock_def Let_def)

lemma rmReq_workerQ_simps [simp]:
  "wker_ReqPool (NNCWker_rmReq_workerQ_nolock i r w) = bk_del r (wker_ReqPool w)"
  "wker_ReqQ_size (NNCWker_rmReq_workerQ_nolock i r w) = wker_ReqQ_size w - 1"
  "wker_HPReqQ_size (NNCWker_rmReq_workerQ_nolock i r w) =
     (if i = NNC_WORKQ_HP_BK_IDX then wker_HPReqQ_size w - 1 else wker_HPReqQ_size w)"
  "deq_bucket_idx (NNCWker_rmReq_workerQ_nolock i r w) = deq_bucket_idx w"
  by (auto simp: NNCWker_rmReq_workerQ_nolock_def Let_def)

lemma peekReq_gain_lock_simps [simp]:
  "wker_ReqPool (snd (NNCWker_peekReq_gain_lock w)) = wker_ReqPool w"
  "wker_ReqQ_size (snd (NNCWker_peekReq_gain_lock w)) = wker_ReqQ_size w"
  "wker_HPReqQ_size (snd (NNCWker_peekReq_gain_lock w)) = wker_HPReqQ_size w"
  "deq_bucket_idx (snd (NNCWker_peekReq_gain_lock w)) =
     (if wker_HPReqQ_size w > 0 then deq_bucket_idx w else (deq_bucket_idx w + 1) AND NNC_WORKQ_MOD_NUM)"
  "fst (NNCWker_peekReq_gain_lock w) =
     (if wker_HPReqQ_size w > 0 then NNC_WORKQ_HP_BK_IDX else unat (deq_bucket_idx w))"
  by (auto simp: NNCWker_peekReq_gain_lock_def Let_def)

lemma wq_inv_put:
  assumes "wq_inv h w" "r \<notin> wq_mems w" "h r < NNC_WORKQ_TOTAL_NUM"
  shows "wq_inv h (NNCWker_addReq_workerQ_nolock (h r) r w)"
proof -
  have "unat (word_of_nat (h r) :: u32) = h r" using assms(3) by (simp add: wq_consts unat_of_nat)
  moreover have "finite (bk_mems (wker_ReqPool w))" using assms(1) by (simp add: wq_inv_def bk_inv_def)
  ultimately show ?thesis
    using assms bk_inv_add [of h "wker_ReqPool w" r] by (auto simp: wq_inv_def wq_mems_def)
qed

lemma wq_inv_del:
  assumes "wq_inv h w" "r \<in> wq_mems w"
  shows "wq_inv h (NNCWker_rmReq_workerQ_nolock (h r) r w)"
proof -
  have b: "bk_inv h (wker_ReqPool w)" using assms(1) by (simp add: wq_inv_def)
  have r: "r \<in> set (wker_ReqPool w (h r))" using assms(2) bk_mem_iff [OF b] by (simp add: wq_mems_def)
  have "finite (bk_mems (wker_ReqPool w))" using b by (simp add: bk_inv_def)
  then have "int (card (bk_mems (wker_ReqPool w) - {r})) = int (card (bk_mems (wker_ReqPool w))) - 1"
    using assms(2) by (metis card_Suc_Diff1 of_nat_Suc add_diff_cancel_left' wq_mems_def)
  moreover have "int (length (remove1 r (wker_ReqPool w NNC_WORKQ_HP_BK_IDX))) =
      int (length (wker_ReqPool w NNC_WORKQ_HP_BK_IDX)) - (if h r = NNC_WORKQ_HP_BK_IDX then 1 else 0)"
  proof (cases "h r = NNC_WORKQ_HP_BK_IDX")
    case True
    then show ?thesis using r length_pos_if_in_set [OF r] by (simp add: length_remove1 of_nat_diff Suc_leI)
  next
    case False
    then have "r \<notin> set (wker_ReqPool w NNC_WORKQ_HP_BK_IDX)" using b unfolding bk_inv_def by metis
    then show ?thesis using False by (simp add: remove1_idem)
  qed
  ultimately show ?thesis
    using assms bk_inv_del [OF b, of r] by (simp add: wq_inv_def wq_mems_def bk_mems_del [OF b])
qed

lemma wq_inv_probe: "wq_inv h w \<Longrightarrow> wq_inv h (snd (NNCWker_peekReq_gain_lock w))"
  by (auto simp: wq_inv_def wq_mems_def workq_next) (simp add: wq_consts)

text \<open>Without high-priority requests the probes visit the normal buckets in turn.\<close>

lemma wq_probes:
  assumes "wq_inv h w" "wker_HPReqQ_size w = 0"
  defines "f \<equiv> snd \<circ> NNCWker_peekReq_gain_lock"
  shows "wker_ReqPool ((f ^^ n) w) = wker_ReqPool w \<and> wker_HPReqQ_size ((f ^^ n) w) = 0 \<and> wq_inv h ((f ^^ n) w) \<and>
    (0 < n \<longrightarrow> unat (deq_bucket_idx ((f ^^ n) w)) = (unat (deq_bucket_idx w) + n) mod 32)"
proof (induction n)
  case (Suc n)
  have "unat (deq_bucket_idx ((f ^^ n) w)) < NNC_WORKQ_TOTAL_NUM" using Suc by (simp add: wq_inv_def)
  then show ?case
    using Suc by (cases "n = 0") (auto simp: f_def workq_next mod_Suc_eq wq_inv_probe comp_def)
qed (use assms in simp)

lemma wq_probe_finds:
  assumes "wq_inv h w" "wq_mems w \<noteq> {}"
  shows "\<exists>n < NNC_WORKQ_TOTAL_NUM. let p = NNCWker_peekReq_gain_lock (((snd \<circ> NNCWker_peekReq_gain_lock) ^^ n) w)
    in NNCWker_peekReq_workerQ_nolock (fst p) (snd p) \<noteq> None"
proof (cases "wker_HPReqQ_size w > 0")
  case True
  then show ?thesis
    using assms(1) by (intro exI [of _ 0]) (auto simp: wq_inv_def NNCWker_peekReq_workerQ_nolock_def Let_def wq_consts split: list.split)
next
  case False
  then have hp: "wker_HPReqQ_size w = 0" "wker_ReqPool w NNC_WORKQ_HP_BK_IDX = []"
    using assms(1) by (auto simp: wq_inv_def)
  obtain r where r: "r \<in> wq_mems w" using assms(2) by auto
  have b: "bk_inv h (wker_ReqPool w)" "h r < NNC_WORKQ_TOTAL_NUM" using assms(1) r by (auto simp: wq_inv_def)
  have ne: "wker_ReqPool w (h r) \<noteq> []" using bk_mem_iff [OF b(1), of r] r by (auto simp: wq_mems_def)
  then have lt: "h r < 32" using b(2) hp(2) by (cases "h r = 32") (auto simp: wq_consts)
  define d where "d = unat (deq_bucket_idx w)"
  have d: "d < 33" using assms(1) by (simp add: d_def wq_inv_def wq_consts)
  define n where "n = (h r + 63 - d) mod 32 + 1"
  have "(d + n) mod 32 = (d + (h r + 63 - d) + 1) mod 32" unfolding n_def by (metis add.assoc mod_add_left_eq mod_add_right_eq)
  also have "\<dots> = (h r + 64) mod 32" using d by (simp add: add.commute)
  also have "\<dots> = h r" using lt mod_mult_self1 [of "h r" 2 32] by simp
  finally have n: "(d + n) mod 32 = h r" "0 < n" "n < 33" by (simp_all add: n_def)
  let ?w = "((snd \<circ> NNCWker_peekReq_gain_lock) ^^ n) w"
  have w: "wker_ReqPool ?w = wker_ReqPool w" "wker_HPReqQ_size ?w = 0" "unat (deq_bucket_idx ?w) = h r"
    using wq_probes [OF assms(1) hp(1), of n] n(1,2) by (simp_all only: d_def)
  have "NNCWker_peekReq_workerQ_nolock (fst (NNCWker_peekReq_gain_lock ?w)) (snd (NNCWker_peekReq_gain_lock ?w)) \<noteq> None"
    using ne unfolding NNCWker_peekReq_workerQ_nolock_def peekReq_gain_lock_simps w by (simp split: list.split)
  moreover have "n < NNC_WORKQ_TOTAL_NUM" using n(3) by (simp add: wq_consts)
  ultimately show ?thesis unfolding Let_def by blast
qed

lemma wq_first_Some:
  "wq_inv h w \<Longrightarrow> NNCWker_peekReq_workerQ_nolock i w = Some r \<Longrightarrow> r \<in> wq_mems w \<and> h r = i"
  by (auto simp: wq_inv_def bk_inv_def wq_mems_def bk_mems_def NNCWker_peekReq_workerQ_nolock_def split: list.splits)
    (metis list.set_intros(1))

lemma wq_inv_locks [simp]: "wq_inv h (w\<lparr>wker_ReqPlock := l\<rparr>) = wq_inv h w" "wq_mems (w\<lparr>wker_ReqPlock := l\<rparr>) = wq_mems w"
  by (simp_all add: wq_inv_def wq_mems_def)

text \<open>
  One look at the queue: the bucket is chosen and locked, and unlocked again when the round is over.
  The lock flags do not influence the choice.
\<close>

definition NNCWker_probe :: "discoNNC_worker_t \<Rightarrow> nat \<times> discoNNC_worker_t" where
  "NNCWker_probe w = (let p = NNCWker_peekReq_gain_lock w in (fst p, NNCWker_rel_qlock (fst p) (snd p)))"

lemma probe_lock:
  "\<exists>l'. snd (NNCWker_probe (w\<lparr>wker_ReqPlock := l\<rparr>)) = (snd (NNCWker_peekReq_gain_lock w))\<lparr>wker_ReqPlock := l'\<rparr>"
  by (cases "wker_HPReqQ_size w > 0")
    (auto simp: NNCWker_probe_def NNCWker_peekReq_gain_lock_def NNCWker_rel_qlock_def Let_def)

lemma probe_iter:
  "\<exists>l. ((snd \<circ> NNCWker_probe) ^^ n) w = (((snd \<circ> NNCWker_peekReq_gain_lock) ^^ n) w)\<lparr>wker_ReqPlock := l\<rparr>"
proof (induction n)
  case 0
  show ?case by (intro exI [of _ "wker_ReqPlock w"]) simp
next
  case (Suc n)
  then obtain l where "((snd \<circ> NNCWker_probe) ^^ n) w = (((snd \<circ> NNCWker_peekReq_gain_lock) ^^ n) w)\<lparr>wker_ReqPlock := l\<rparr>"
    by blast
  then show ?case using probe_lock unfolding funpow.simps comp_apply by metis
qed

lemma probe_pool [simp]:
  "wker_ReqPool (snd (NNCWker_probe w)) = wker_ReqPool w"
  "fst (NNCWker_probe (w\<lparr>wker_ReqPlock := l\<rparr>)) = fst (NNCWker_peekReq_gain_lock w)"
  "wker_ReqPool (w\<lparr>wker_ReqPlock := l\<rparr>) = wker_ReqPool w"
  by (simp_all add: NNCWker_probe_def NNCWker_rel_qlock_def Let_def)

interpretation nnq: work_queue NNC_WORKQ_TOTAL_NUM NNCWker_addReq_workerQ_nolock NNCWker_probe
  NNCWker_peekReq_workerQ_nolock NNCWker_rmReq_workerQ_nolock NNCWker_get_numReq_workQ wq_mems wq_inv
proof (unfold_locales, goal_cases)
  case (1 h w r) then show ?case by (rule wq_inv_put)
next
  case (2 i r w) show ?case by (simp add: wq_mems_def)
next
  case (3 h w r) then show ?case by (rule wq_inv_del)
next
  case (4 h w i r) then show ?case by (auto simp: wq_inv_def wq_mems_def bk_mems_del)
next
  case (5 h w) then show ?case by (simp add: NNCWker_probe_def NNCWker_rel_qlock_def Let_def wq_inv_probe)
next
  case (6 w) show ?case by (simp add: wq_mems_def)
next
  case (7 h w i r) then show ?case by (rule wq_first_Some)
next
  case (8 h w)
  from wq_probe_finds [OF this] obtain n where n: "n < NNC_WORKQ_TOTAL_NUM"
    "let p = NNCWker_peekReq_gain_lock (((snd \<circ> NNCWker_peekReq_gain_lock) ^^ n) w)
     in NNCWker_peekReq_workerQ_nolock (fst p) (snd p) \<noteq> None" by blast
  from probe_iter [of n w] obtain l where
    "((snd \<circ> NNCWker_probe) ^^ n) w = (((snd \<circ> NNCWker_peekReq_gain_lock) ^^ n) w)\<lparr>wker_ReqPlock := l\<rparr>" ..
  then have "let p = NNCWker_probe (((snd \<circ> NNCWker_probe) ^^ n) w) in NNCWker_peekReq_workerQ_nolock (fst p) (snd p) \<noteq> None"
    using n(2) by (simp only: Let_def NNCWker_peekReq_workerQ_nolock_def probe_pool peekReq_gain_lock_simps
        discoNNC_worker_t.simps not_False_eq_True)
  then show ?case using n(1) by blast
next
  case (9 h w) then show ?case by (simp add: NNCWker_get_numReq_workQ_def wq_inv_def wq_mems_def bk_inv_def)
qed

text \<open>The datanode worker is the same code under other names.\<close>

lemma DNC_is_NNC:
  "acquire_DNCWorkQ_lock = NNCWker_gain_qlock" "rel_DNCWorkQ_lock = NNCWker_rel_qlock"
  "addReq_DNCWorkQ_nolock = NNCWker_addReq_workerQ_nolock"
  "peekReq_acquire_DNCWorkQ_lock = NNCWker_peekReq_gain_lock"
  "peekReq_DNCWorkQ_nolock = NNCWker_peekReq_workerQ_nolock"
  "rmReq_DNCWorkQ_nolock = NNCWker_rmReq_workerQ_nolock"
  "DNCWker_get_numReq_workQ = NNCWker_get_numReq_workQ"
  "DNCWker_init_worker = NNCWker_init_worker"
  by (auto simp: fun_eq_iff wq_consts acquire_DNCWorkQ_lock_def NNCWker_gain_qlock_def rel_DNCWorkQ_lock_def
      NNCWker_rel_qlock_def addReq_DNCWorkQ_nolock_def NNCWker_addReq_workerQ_nolock_def
      peekReq_acquire_DNCWorkQ_lock_def NNCWker_peekReq_gain_lock_def peekReq_DNCWorkQ_nolock_def
      NNCWker_peekReq_workerQ_nolock_def rmReq_DNCWorkQ_nolock_def NNCWker_rmReq_workerQ_nolock_def
      DNCWker_get_numReq_workQ_def NNCWker_get_numReq_workQ_def DNCWker_init_worker_def NNCWker_init_worker_def)

definition DNCWker_probe :: "discoDNC_worker_t \<Rightarrow> nat \<times> discoDNC_worker_t" where
  "DNCWker_probe w = (let p = peekReq_acquire_DNCWorkQ_lock w in (fst p, rel_DNCWorkQ_lock (fst p) (snd p)))"

lemma DNC_probe: "DNCWker_probe = NNCWker_probe"
  by (simp add: fun_eq_iff DNCWker_probe_def NNCWker_probe_def DNC_is_NNC)

interpretation dnq: work_queue DNC_WORKQ_TOTAL_NUM addReq_DNCWorkQ_nolock DNCWker_probe
  peekReq_DNCWorkQ_nolock rmReq_DNCWorkQ_nolock DNCWker_get_numReq_workQ wq_mems wq_inv
proof -
  have "DNC_WORKQ_TOTAL_NUM = NNC_WORKQ_TOTAL_NUM" by (simp add: wq_consts)
  then show "work_queue DNC_WORKQ_TOTAL_NUM addReq_DNCWorkQ_nolock DNCWker_probe
    peekReq_DNCWorkQ_nolock rmReq_DNCWorkQ_nolock DNCWker_get_numReq_workQ wq_mems wq_inv"
    using nnq.work_queue_axioms by (simp only: DNC_is_NNC DNC_probe)
qed

subsection \<open>Rounds of the namenode worker\<close>

text \<open>The requests that \<^verbatim>\<open>n\<close> calls of \<^verbatim>\<open>NNCWker_peekReq_workerQ\<close> take out, in order.\<close>

primrec NNCWker_rounds :: "nat \<Rightarrow> discoNNC_worker_t \<Rightarrow> nat list \<times> discoNNC_worker_t" where
  "NNCWker_rounds 0 w = ([], w)"
| "NNCWker_rounds (Suc n) w =
     (let p = NNCWker_peekReq_workerQ w; q = NNCWker_rounds n (snd p)
      in ((case fst p of None \<Rightarrow> [] | Some r \<Rightarrow> [r]) @ fst q, snd q))"

definition NNCWker_arrivals :: "(u32 \<times> priority_type \<times> nat) list \<Rightarrow> discoNNC_worker_t" where
  "NNCWker_arrivals rs = fold (\<lambda>(reqID, ptype, r). NNCWker_addReq_workerQ reqID ptype r) rs NNCWker_init_worker"

lemma peekReq_workerQ_split:
  "NNCWker_peekReq_workerQ w = (let p = NNCWker_probe w in
     case NNCWker_peekReq_workerQ_nolock (fst p) (snd p) of
       None \<Rightarrow> (None, snd p)
     | Some r \<Rightarrow> (Some r, NNCWker_rmReq_workerQ_nolock (fst p) r (snd p)))"
  by (auto simp: NNCWker_peekReq_workerQ_def NNCWker_probe_def NNCWker_peekReq_gain_lock_def NNCWker_rel_qlock_def
      NNCWker_peekReq_workerQ_nolock_def NNCWker_rmReq_workerQ_nolock_def Let_def split: list.split)

lemma rounds_serve:
  "NNCWker_rounds n w = serve NNCWker_probe NNCWker_peekReq_workerQ_nolock NNCWker_rmReq_workerQ_nolock n w"
  by (induction n arbitrary: w) (auto simp: peekReq_workerQ_split Let_def split: option.split)

lemma addReq_workerQ_split:
  "NNCWker_addReq_workerQ reqID ptype r w = (let p = NNCWker_gain_qlock reqID ptype w in
     NNCWker_rel_qlock (fst p) (NNCWker_addReq_workerQ_nolock (fst p) r (snd p)))"
  by (simp add: NNCWker_addReq_workerQ_def NNCWker_gain_qlock_def NNCWker_rel_qlock_def
      NNCWker_addReq_workerQ_nolock_def Let_def)

lemma gain_qlock_bound: "fst (NNCWker_gain_qlock reqID ptype w) < NNC_WORKQ_TOTAL_NUM"
  unfolding NNCWker_gain_qlock_def Let_def fst_conv workq_mod
  by (simp add: wq_consts) (meson less_trans mod_less_divisor numeral_less_iff semiring_norm zero_less_numeral)

lemma addReq_workerQ_locks:
  "NNCWker_addReq_workerQ_nolock i r (w\<lparr>wker_ReqPlock := l\<rparr>) = (NNCWker_addReq_workerQ_nolock i r w)\<lparr>wker_ReqPlock := l\<rparr>"
  by (simp add: NNCWker_addReq_workerQ_nolock_def Let_def)

lemma wq_inv_cong:
  assumes "wq_inv h w" "\<And>r. r \<in> wq_mems w \<Longrightarrow> h r = h' r"
  shows "wq_inv h' w"
  using assms bk_inv_cong [of h "wker_ReqPool w" h'] by (auto simp: wq_inv_def wq_mems_def)

lemma wq_mems_addReq: "wq_mems (NNCWker_addReq_workerQ reqID ptype r w) = insert r (wq_mems w)"
  by (simp add: addReq_workerQ_split Let_def NNCWker_rel_qlock_def NNCWker_gain_qlock_def wq_mems_def)

lemma wq_inv_addReq:
  assumes "wq_inv h w" "r \<notin> wq_mems w"
  shows "\<exists>h'. wq_inv h' (NNCWker_addReq_workerQ reqID ptype r w)"
proof -
  let ?i = "fst (NNCWker_gain_qlock reqID ptype w)"
  have "wq_inv (h(r := ?i)) w" by (rule wq_inv_cong [OF assms(1)]) (use assms(2) in auto)
  then have "wq_inv (h(r := ?i)) (NNCWker_addReq_workerQ_nolock ?i r w)"
    using wq_inv_put [of "h(r := ?i)" w r] assms(2) gain_qlock_bound by simp
  then show ?thesis
    by (auto simp: addReq_workerQ_split Let_def NNCWker_rel_qlock_def NNCWker_gain_qlock_def addReq_workerQ_locks
        simp del: fun_upd_apply)
qed

lemma wq_inv_init: "wq_inv h NNCWker_init_worker" "wq_mems NNCWker_init_worker = {}"
  by (simp_all add: wq_inv_def wq_mems_def NNCWker_init_worker_def wq_consts)

lemma arrivals_snoc:
  "NNCWker_arrivals (rs @ [(reqID, ptype, r)]) = NNCWker_addReq_workerQ reqID ptype r (NNCWker_arrivals rs)"
  by (simp add: NNCWker_arrivals_def)

lemma wq_inv_arrivals:
  assumes "distinct (map (snd \<circ> snd) rs)"
  shows "(\<exists>h. wq_inv h (NNCWker_arrivals rs)) \<and> wq_mems (NNCWker_arrivals rs) = snd ` snd ` set rs"
  using assms
proof (induction rs rule: rev_induct)
  case (snoc x rs)
  obtain reqID ptype r where x: "x = (reqID, ptype, r)" by (cases x) auto
  have "r \<notin> wq_mems (NNCWker_arrivals rs)" using snoc x by (auto simp: image_iff)
  moreover obtain h where "wq_inv h (NNCWker_arrivals rs)" using snoc by auto
  ultimately have "\<exists>h. wq_inv h (NNCWker_arrivals (rs @ [x]))"
    unfolding x arrivals_snoc by (blast intro: wq_inv_addReq)
  then show ?case using snoc x by (simp add: arrivals_snoc wq_mems_addReq)
qed (use wq_inv_init in \<open>auto simp: NNCWker_arrivals_def\<close>)

text \<open>
  (C17) The work queue of the namenode client starves no request: after any series of arrivals of different
  requests, with request numbers and priorities in any mix, 33 rounds per queued request take every request
  out, each exactly once, and leave the queue with size 0.
\<close>

theorem workQ_serves_all:
  assumes "distinct (map (snd \<circ> snd) rs)"
  shows "set (fst (NNCWker_rounds (33 * length rs) (NNCWker_arrivals rs))) = snd ` snd ` set rs \<and>
    distinct (fst (NNCWker_rounds (33 * length rs) (NNCWker_arrivals rs))) \<and>
    NNCWker_get_numReq_workQ (snd (NNCWker_rounds (33 * length rs) (NNCWker_arrivals rs))) = 0"
proof -
  from wq_inv_arrivals [OF assms] obtain h where h: "wq_inv h (NNCWker_arrivals rs)"
    and m: "wq_mems (NNCWker_arrivals rs) = snd ` snd ` set rs" by blast
  have "card (snd ` snd ` set rs) \<le> length rs"
    by (metis card_length image_comp length_map list.set_map)
  then have "card (wq_mems (NNCWker_arrivals rs)) \<le> length rs" by (simp only: m)
  note all = nnq.serve_all [OF h this, folded rounds_serve]
  have n: "length rs * NNC_WORKQ_TOTAL_NUM = 33 * length rs" by (simp add: wq_consts)
  have "wq_inv h (snd (NNCWker_rounds (33 * length rs) (NNCWker_arrivals rs)))"
    using nnq.serve_sound [OF h] unfolding rounds_serve by blast
  from nnq.size_mems [OF this] all m show ?thesis unfolding n by simp
qed

theorem workQ_serves_all_witness:
  "set (fst (NNCWker_rounds 99 (NNCWker_arrivals [(7, PRIORITY_LOW, 1), (40, PRIORITY_HIGH, 2), (39, PRIORITY_LOW, 3)]))) = {1, 2, 3}"
  using workQ_serves_all [of "[(7, PRIORITY_LOW, 1), (40, PRIORITY_HIGH, 2), (39, PRIORITY_LOW, 3)]"] by simp

text \<open>
  (C28) High-priority requests go first: whenever high-priority requests are queued, the next request that the
  worker takes out is the oldest of them, whatever the dequeue index says, and the index does not move; with no
  high-priority request the worker takes the oldest request of the bucket of the index and steps to the next one
  of the 32 buckets.
\<close>

theorem workQ_priority_first:
  assumes "wq_inv h w"
  shows "if wker_ReqPool w 32 \<noteq> []
    then fst (NNCWker_peekReq_workerQ w) = Some (hd (wker_ReqPool w 32)) \<and>
         deq_bucket_idx (snd (NNCWker_peekReq_workerQ w)) = deq_bucket_idx w
    else fst (NNCWker_peekReq_workerQ w) = (case wker_ReqPool w (unat (deq_bucket_idx w)) of [] \<Rightarrow> None | r # _ \<Rightarrow> Some r) \<and>
         unat (deq_bucket_idx (snd (NNCWker_peekReq_workerQ w))) = (unat (deq_bucket_idx w) + 1) mod 32"
proof -
  have w: "wker_HPReqQ_size w = int (length (wker_ReqPool w 32))" "unat (deq_bucket_idx w) < NNC_WORKQ_TOTAL_NUM"
    using assms by (simp_all add: wq_inv_def wq_consts)
  show ?thesis
    using w workq_next [OF w(2)]
    by (auto simp: peekReq_workerQ_split NNCWker_probe_def NNCWker_rel_qlock_def NNCWker_peekReq_workerQ_nolock_def Let_def
        NNC_WORKQ_HP_BK_IDX_def NNC_WORKQ_HASH_NUM_def split: list.split)
qed

theorem workQ_priority_first_witness:
  "fst (NNCWker_peekReq_workerQ (NNCWker_addReq_workerQ 40 PRIORITY_HIGH 2 NNCWker_init_worker)) = Some 2"
proof -
  let ?w = "NNCWker_addReq_workerQ 40 PRIORITY_HIGH 2 NNCWker_init_worker"
  obtain h where h: "wq_inv h ?w" using wq_inv_addReq [OF wq_inv_init(1), of 2] wq_inv_init(2) by blast
  have "wker_ReqPool ?w 32 = [2]" by (simp add: NNCWker_addReq_workerQ_def NNCWker_init_worker_def wq_consts)
  then show ?thesis using workQ_priority_first [OF h] by simp
qed

end
