(* ===== verification/Md_Manager.thy ===== *)
theory Md_Manager
  imports Fsm_Spec
begin

unbundle bit_operations_syntax

text \<open>
  The metadata items and the commit criteria (\<^verbatim>\<open>metadata_manager/metadata_manager.c\<close>, without
  \<^verbatim>\<open>DISCO_ERC_SUPPORT\<close>, which is not defined).  A metadata item describes where the replicas of a
  range of blocks are; while a write is under way it also counts the answers of the datanodes and decides, under its
  lock, when the write is reported to the user and to the namenode.  The \<^verbatim>\<open>int8_t\<close> counters wrap
  around (\<^verbatim>\<open>s8\<close>); \<^verbatim>\<open>CommitUser_min_DiskAck\<close> of the configuration is an argument.
\<close>

subsection \<open>Data\<close>

datatype MData_state_t = MData_VALID | MData_INVALID | MData_VALID_LESS_REPLICA

datatype UData_state_t = UData_S_INIT | UData_S_READ_OK | UData_S_WRITE_OK | UData_S_WRITE_MEM_OK
  | UData_S_DISK_FAILURE | UData_S_MD_ERR | UData_S_READ_NA | UData_S_WRITE_FAIL | UData_S_OPERATION_ERR

datatype MData_fea_t = MDATA_FEA_UDataCIUser | MDATA_FEA_UDataCIMDS | MDATA_FEA_TRUE_MD | MDATA_FEA_ERC
  | MDATA_FEA_PREALLOC

primrec MData_fea_bit :: "MData_fea_t \<Rightarrow> nat" where
  "MData_fea_bit MDATA_FEA_UDataCIUser = 0"
| "MData_fea_bit MDATA_FEA_UDataCIMDS = 1"
| "MData_fea_bit MDATA_FEA_TRUE_MD = 2"
| "MData_fea_bit MDATA_FEA_ERC = 3"
| "MData_fea_bit MDATA_FEA_PREALLOC = 4"

lemma MData_fea_bit_inj: "MData_fea_bit f = MData_fea_bit g \<longleftrightarrow> f = g"
  by (cases f; cases g) simp_all

lemma MData_fea_bit_less: "MData_fea_bit f < 32"
  by (cases f) simp_all

record metaD_DNLoc_t =
  ipaddr :: u32
  port :: u32
  rbid_len_offset :: "u64 list"
  num_phyLocs :: u16
  udata_status :: UData_state_t

record metaD_item_t =
  num_dnLoc :: nat
  num_hbids :: nat
  arr_HBID :: "u64 list"
  udata_dnLoc :: "metaD_DNLoc_t list"
  mdata_stat :: MData_state_t
  lbid_s :: nat
  memack :: int
  diskack :: int
  diskErr_ack :: int
  wfail_connErr :: int
  num_replica :: int
  mdata_fea :: u32

text \<open>Counting in an \<^verbatim>\<open>int8_t\<close>.\<close>

definition s8 :: "int \<Rightarrow> int" where
  "s8 x = (x + 128) mod 256 - 128"

lemma s8_small [simp]: "- 128 \<le> x \<Longrightarrow> x < 128 \<Longrightarrow> s8 x = x"
  by (simp add: s8_def)

definition md_fea :: "metaD_item_t \<Rightarrow> MData_fea_t \<Rightarrow> bool" where
  "md_fea mdItem f = bit (mdata_fea mdItem) (MData_fea_bit f)"

definition md_set_fea :: "MData_fea_t \<Rightarrow> metaD_item_t \<Rightarrow> metaD_item_t" where
  "md_set_fea f mdItem = mdItem\<lparr>mdata_fea := set_bit (MData_fea_bit f) (mdata_fea mdItem)\<rparr>"

definition md_clear_fea :: "MData_fea_t \<Rightarrow> metaD_item_t \<Rightarrow> metaD_item_t" where
  "md_clear_fea f mdItem = mdItem\<lparr>mdata_fea := unset_bit (MData_fea_bit f) (mdata_fea mdItem)\<rparr>"

lemma md_fea_set [simp]: "md_fea (md_set_fea f m) g \<longleftrightarrow> f = g \<or> md_fea m g"
  using MData_fea_bit_less [of g] by (auto simp: md_fea_def md_set_fea_def bit_set_bit_iff MData_fea_bit_inj)

lemma md_fea_clear [simp]: "md_fea (md_clear_fea f m) g \<longleftrightarrow> f \<noteq> g \<and> md_fea m g"
  by (auto simp: md_fea_def md_clear_fea_def bit_unset_bit_iff MData_fea_bit_inj)

lemma md_set_fea_other [simp]:
  "memack (md_set_fea f m) = memack m" "diskack (md_set_fea f m) = diskack m"
  "diskErr_ack (md_set_fea f m) = diskErr_ack m" "wfail_connErr (md_set_fea f m) = wfail_connErr m"
  "num_dnLoc (md_set_fea f m) = num_dnLoc m" "num_replica (md_set_fea f m) = num_replica m"
  "udata_dnLoc (md_set_fea f m) = udata_dnLoc m"
  by (simp_all add: md_set_fea_def)

lemma md_fea_upd [simp]:
  "md_fea (m\<lparr>memack := x\<rparr>) f = md_fea m f" "md_fea (m\<lparr>diskack := x\<rparr>) f = md_fea m f"
  "md_fea (m\<lparr>diskErr_ack := x\<rparr>) f = md_fea m f" "md_fea (m\<lparr>wfail_connErr := x\<rparr>) f = md_fea m f"
  by (simp_all add: md_fea_def)

subsection \<open>The commit criteria of writes\<close>

definition chk_ciUser_criteria :: "metaD_item_t \<Rightarrow> int \<Rightarrow> bool \<times> bool" where
  "chk_ciUser_criteria mdItem minDiskAck =
     (if minDiskAck = 0 \<and> (diskack mdItem > 0 \<or> memack mdItem = num_replica mdItem) then (True, True)
      else if diskack mdItem \<ge> minDiskAck \<or> diskack mdItem \<ge> num_replica mdItem then (True, True)
      else if num_replica mdItem = diskErr_ack mdItem then (True, False)
      else if diskack mdItem + diskErr_ack mdItem = num_replica mdItem then (True, True)
      else (False, False))"

definition chk_ciMDS_criteria :: "metaD_item_t \<Rightarrow> bool" where
  "chk_ciMDS_criteria mdItem =
     (if diskack mdItem = int (num_dnLoc mdItem) then True
      else if diskack mdItem \<ge> 1 \<and> diskack mdItem + wfail_connErr mdItem = int (num_dnLoc mdItem) then True
      else if diskack mdItem \<ge> 1 \<and>
        diskack mdItem + diskErr_ack mdItem + wfail_connErr mdItem = int (num_dnLoc mdItem) then True
      else diskack mdItem + diskErr_ack mdItem = int (num_dnLoc mdItem))"

text \<open>The result of a commit check: report to the namenode, report to the user, with which result.\<close>

record md_commit =
  ciMDS :: bool
  ciUser :: bool
  ciUser_ret :: bool

definition md_count_ack :: "UData_state_t \<Rightarrow> metaD_item_t \<Rightarrow> metaD_item_t" where
  "md_count_ack udstatus mdItem =
     (case udstatus of
        UData_S_WRITE_MEM_OK \<Rightarrow> mdItem\<lparr>memack := s8 (memack mdItem + 1)\<rparr>
      | UData_S_WRITE_OK \<Rightarrow> mdItem\<lparr>diskack := s8 (diskack mdItem + 1)\<rparr>
      | UData_S_DISK_FAILURE \<Rightarrow> mdItem\<lparr>diskErr_ack := s8 (diskErr_ack mdItem + 1)\<rparr>
      | UData_S_WRITE_FAIL \<Rightarrow> mdItem\<lparr>wfail_connErr := s8 (wfail_connErr mdItem + 1)\<rparr>
      | _ \<Rightarrow> mdItem)"

definition MData_writeAck_commitResult :: "int \<Rightarrow> UData_state_t \<Rightarrow> metaD_item_t \<Rightarrow> md_commit \<times> metaD_item_t" where
  "MData_writeAck_commitResult minDiskAck udstatus mdItem =
     (let m1 = md_count_ack udstatus mdItem;
          c = chk_ciUser_criteria m1 minDiskAck;
          user1 = (fst c \<and> \<not> md_fea m1 MDATA_FEA_UDataCIUser);
          m2 = (if fst c then md_set_fea MDATA_FEA_UDataCIUser m1 else m1)
      in if chk_ciMDS_criteria m2 then
           (let m3 = md_set_fea MDATA_FEA_UDataCIMDS m2
            in if \<not> md_fea m2 MDATA_FEA_UDataCIMDS
               then (\<lparr>ciMDS = True, ciUser = (user1 \<or> \<not> md_fea m3 MDATA_FEA_UDataCIUser), ciUser_ret = snd c\<rparr>,
                     md_set_fea MDATA_FEA_UDataCIUser m3)
               else (\<lparr>ciMDS = False, ciUser = user1, ciUser_ret = snd c\<rparr>, m3))
         else (\<lparr>ciMDS = False, ciUser = user1, ciUser_ret = snd c\<rparr>, m2))"

definition MData_timeout_commitResult :: "metaD_item_t \<Rightarrow> md_commit \<times> metaD_item_t" where
  "MData_timeout_commitResult mdItem =
     (\<lparr>ciMDS = (\<not> md_fea mdItem MDATA_FEA_UDataCIMDS), ciUser = (\<not> md_fea mdItem MDATA_FEA_UDataCIUser),
       ciUser_ret = (diskack mdItem > 0)\<rparr>,
      md_set_fea MDATA_FEA_UDataCIMDS (md_set_fea MDATA_FEA_UDataCIUser mdItem))"

subsection \<open>The commit criteria of reads\<close>

definition DNReadAck_check_wait :: "nat \<Rightarrow> int \<Rightarrow> int \<Rightarrow> int \<Rightarrow> bool \<times> bool" where
  "DNReadAck_check_wait n num_MDErr num_DiskErr num_DNNA =
     (if num_MDErr = int n then (False, True)
      else if num_DiskErr = int n then (False, False)
      else if num_DNNA = int n then (True, False)
      else if num_MDErr + num_DiskErr = int n then (False, True)
      else if num_MDErr + num_DNNA = int n then (True, False)
      else if num_DiskErr + num_DNNA = int n then (True, False)
      else if num_MDErr + num_DiskErr + num_DNNA = int n then (True, False)
      else (True, False))"

text \<open>
  The scan over the replicas: it stops at the first one that was read (None), otherwise it counts the wrong block
  numbers, the disk errors and the unreachable datanodes.
\<close>

fun ciUser_scan :: "metaD_DNLoc_t list \<Rightarrow> int \<Rightarrow> int \<Rightarrow> int \<Rightarrow> (int \<times> int \<times> int) option" where
  "ciUser_scan [] md de na = Some (md, de, na)"
| "ciUser_scan (d # ds) md de na =
     (if udata_status d = UData_S_READ_OK then None
      else if udata_status d = UData_S_MD_ERR then ciUser_scan ds (md + 1) de na
      else if udata_status d = UData_S_DISK_FAILURE then ciUser_scan ds md (de + 1) na
      else if udata_status d = UData_S_READ_NA then ciUser_scan ds md de (na + 1)
      else ciUser_scan ds md de na)"

definition MData_check_ciUserStatus :: "metaD_item_t \<Rightarrow> bool \<times> bool" where
  "MData_check_ciUserStatus mdItem =
     (case ciUser_scan (take (num_dnLoc mdItem) (udata_dnLoc mdItem)) 0 0 0 of
        None \<Rightarrow> (False, True)
      | Some (num_MDErr, num_DiskErr, num_DNNA) \<Rightarrow> DNReadAck_check_wait (num_dnLoc mdItem) num_MDErr num_DiskErr num_DNNA)"

subsection \<open>Locations and items\<close>

definition MData_init_DNLoc :: "u32 \<Rightarrow> u32 \<Rightarrow> u16 \<Rightarrow> metaD_DNLoc_t \<Rightarrow> metaD_DNLoc_t" where
  "MData_init_DNLoc ip prt num_rlo dnLoc =
     dnLoc\<lparr>ipaddr := ip, port := prt, num_phyLocs := num_rlo, udata_status := UData_S_INIT\<rparr>"

definition MData_update_DNUDataStat :: "UData_state_t \<Rightarrow> metaD_DNLoc_t \<Rightarrow> metaD_DNLoc_t" where
  "MData_update_DNUDataStat st dnLoc = dnLoc\<lparr>udata_status := st\<rparr>"

definition MData_wRetry_reset_DNLoc :: "nat \<Rightarrow> metaD_item_t \<Rightarrow> metaD_item_t" where
  "MData_wRetry_reset_DNLoc dnLoc_idx mdItem =
     (let dnLoc = udata_dnLoc mdItem ! dnLoc_idx;
          locs = (udata_dnLoc mdItem)[dnLoc_idx := dnLoc\<lparr>udata_status := UData_S_INIT\<rparr>]
      in case udata_status dnLoc of
           UData_S_WRITE_MEM_OK \<Rightarrow> mdItem\<lparr>memack := s8 (memack mdItem - 1), udata_dnLoc := locs\<rparr>
         | UData_S_WRITE_FAIL \<Rightarrow> mdItem\<lparr>wfail_connErr := s8 (wfail_connErr mdItem - 1), udata_dnLoc := locs\<rparr>
         | _ \<Rightarrow> mdItem)"

definition MData_chk_UDStatus_writefail :: "metaD_DNLoc_t \<Rightarrow> bool" where
  "MData_chk_UDStatus_writefail dnLoc = (UData_S_WRITE_OK \<noteq> udata_status dnLoc)"

definition MData_chk_UDStatus_readfail :: "metaD_DNLoc_t \<Rightarrow> bool" where
  "MData_chk_UDStatus_readfail dnLoc = (UData_S_DISK_FAILURE = udata_status dnLoc)"

definition MData_get_num_diskAck :: "metaD_item_t \<Rightarrow> int" where
  "MData_get_num_diskAck mdItem = diskack mdItem"

definition MData_chk_TrueMD :: "metaD_item_t \<Rightarrow> bool" where
  "MData_chk_TrueMD mdItem = md_fea mdItem MDATA_FEA_TRUE_MD"

definition MData_chk_ciUser :: "metaD_item_t \<Rightarrow> bool" where
  "MData_chk_ciUser mdItem = md_fea mdItem MDATA_FEA_UDataCIUser"

definition MData_set_ciUser :: "metaD_item_t \<Rightarrow> metaD_item_t" where
  "MData_set_ciUser mdItem = md_set_fea MDATA_FEA_UDataCIUser mdItem"

definition MData_init_MDItem :: "nat \<Rightarrow> nat \<Rightarrow> nat \<Rightarrow> MData_state_t \<Rightarrow> bool \<Rightarrow> bool \<Rightarrow> bool \<Rightarrow> metaD_item_t \<Rightarrow> metaD_item_t" where
  "MData_init_MDItem lb n replica md_stat isERC isTrue isPrealloc md_item =
     (let m1 = md_item\<lparr>lbid_s := lb, num_hbids := n, num_dnLoc := replica, mdata_stat := md_stat, memack := 0,
                       diskack := 0, diskErr_ack := 0, wfail_connErr := 0, num_replica := int replica, mdata_fea := 0\<rparr>;
          m2 = (if isERC then md_set_fea MDATA_FEA_ERC m1 else m1);
          m3 = (if isTrue then md_set_fea MDATA_FEA_TRUE_MD m2 else m2)
      in if isPrealloc then md_set_fea MDATA_FEA_PREALLOC m3 else m3)"

text \<open>The items of an I/O: \<^verbatim>\<open>array_metadata\<close> holds pointers to items (0 is \<^verbatim>\<open>NULL\<close>) into a store.\<close>

record metadata_t =
  array_metadata :: "nat list option"
  num_MD_items :: nat
  num_invalMD_items :: nat

definition init_metadata :: metadata_t where
  "init_metadata = \<lparr>array_metadata = None, num_MD_items = 0, num_invalMD_items = 0\<rparr>"

definition free_metadata :: "metadata_t \<Rightarrow> nat list \<times> metadata_t" where
  "free_metadata my_metaD =
     (case array_metadata my_metaD of
        None \<Rightarrow> ([], my_metaD)
      | Some arr \<Rightarrow> (filter (\<lambda>p. p \<noteq> 0) (take (num_MD_items my_metaD) arr),
          my_metaD\<lparr>array_metadata := None, num_MD_items := 0, num_invalMD_items := 0\<rparr>))"

definition md_reset_item :: "UData_state_t \<Rightarrow> metaD_item_t \<Rightarrow> metaD_item_t" where
  "md_reset_item st m =
     (let m1 = md_clear_fea MDATA_FEA_UDataCIMDS (md_clear_fea MDATA_FEA_UDataCIUser m)
      in m1\<lparr>udata_dnLoc := map (MData_update_DNUDataStat st) (take (num_dnLoc m) (udata_dnLoc m)) @ drop (num_dnLoc m) (udata_dnLoc m)\<rparr>)"

definition update_metadata_UDataStat :: "UData_state_t \<Rightarrow> metadata_t \<Rightarrow> (nat \<Rightarrow> metaD_item_t) \<Rightarrow> (nat \<Rightarrow> metaD_item_t)" where
  "update_metadata_UDataStat st my_metaD mem =
     fold (\<lambda>p mem. if p = 0 then mem else mem(p := md_reset_item st (mem p)))
       (take (num_MD_items my_metaD) (case array_metadata my_metaD of None \<Rightarrow> [] | Some arr \<Rightarrow> arr)) mem"

subsection \<open>Histories of a written item\<close>

datatype md_event = MdAck UData_state_t | MdTimeout

definition mdItem_step :: "int \<Rightarrow> metaD_item_t \<Rightarrow> md_event \<Rightarrow> md_commit \<times> metaD_item_t" where
  "mdItem_step minDiskAck m e =
     (case e of MdAck udstatus \<Rightarrow> MData_writeAck_commitResult minDiskAck udstatus m | MdTimeout \<Rightarrow> MData_timeout_commitResult m)"

lemma md_count_ack_simps [simp]:
  "md_fea (md_count_ack u m) f = md_fea m f" "num_dnLoc (md_count_ack u m) = num_dnLoc m"
  "num_replica (md_count_ack u m) = num_replica m" "udata_dnLoc (md_count_ack u m) = udata_dnLoc m"
  by (cases u; simp add: md_count_ack_def)+

lemmas md_step_defs = mdItem_step_def MData_writeAck_commitResult_def MData_timeout_commitResult_def Let_def

lemma mdItem_step_fea:
  "md_fea (snd (mdItem_step k m e)) MDATA_FEA_UDataCIUser = (md_fea m MDATA_FEA_UDataCIUser \<or> ciUser (fst (mdItem_step k m e)))"
  "ciUser (fst (mdItem_step k m e)) \<Longrightarrow> \<not> md_fea m MDATA_FEA_UDataCIUser"
  "md_fea (snd (mdItem_step k m e)) MDATA_FEA_UDataCIMDS = (md_fea m MDATA_FEA_UDataCIMDS \<or> ciMDS (fst (mdItem_step k m e)))"
  "ciMDS (fst (mdItem_step k m e)) \<Longrightarrow> \<not> md_fea m MDATA_FEA_UDataCIMDS \<and> md_fea (snd (mdItem_step k m e)) MDATA_FEA_UDataCIUser"
  by (cases e; auto simp: md_step_defs split: if_splits)+

interpretation md_user: fsm_once "mdItem_step k" "\<lambda>e a. ciUser a" "\<lambda>m. md_fea m MDATA_FEA_UDataCIUser" for k
  by unfold_locales (auto simp: mdItem_step_fea dest: mdItem_step_fea(2))

interpretation md_mds: fsm_once "mdItem_step k" "\<lambda>e a. ciMDS a" "\<lambda>m. md_fea m MDATA_FEA_UDataCIMDS" for k
  by unfold_locales (auto simp: mdItem_step_fea dest: mdItem_step_fea(4))

text \<open>What a history leaves in the item: the counters only depend on the acknowledgements.\<close>

lemma mdItem_step_counts:
  "num_dnLoc (snd (mdItem_step k m e)) = num_dnLoc m" "num_replica (snd (mdItem_step k m e)) = num_replica m"
  "diskack (snd (mdItem_step k m e)) = (if e = MdAck UData_S_WRITE_OK then s8 (diskack m + 1) else diskack m)"
  "diskErr_ack (snd (mdItem_step k m e)) = (if e = MdAck UData_S_DISK_FAILURE then s8 (diskErr_ack m + 1) else diskErr_ack m)"
  by (cases e; auto simp: md_step_defs md_count_ack_def split: UData_state_t.splits)+

definition n_ack :: "UData_state_t \<Rightarrow> md_event list \<Rightarrow> nat" where
  "n_ack u es = count_if (\<lambda>e. e = MdAck u) es"

lemma n_ack_simps [simp]:
  "n_ack u [] = 0" "n_ack u (es @ [e]) = n_ack u es + of_bool (e = MdAck u)"
  by (simp_all add: n_ack_def)

lemma mdItem_final_counts:
  assumes "diskack m = 0" "diskErr_ack m = 0" "n_ack UData_S_WRITE_OK es < 128" "n_ack UData_S_DISK_FAILURE es < 128"
  shows "diskack (fsm_final (mdItem_step k) m es) = int (n_ack UData_S_WRITE_OK es) \<and>
    diskErr_ack (fsm_final (mdItem_step k) m es) = int (n_ack UData_S_DISK_FAILURE es)"
  using assms(3,4)
proof (induction es rule: rev_induct)
  case (snoc e es)
  then have IH: "diskack (fsm_final (mdItem_step k) m es) = int (n_ack UData_S_WRITE_OK es)"
    "diskErr_ack (fsm_final (mdItem_step k) m es) = int (n_ack UData_S_DISK_FAILURE es)" by auto
  show ?case using snoc.prems by (auto simp: fsm_run_append mdItem_step_counts IH Let_def)
qed (simp add: assms)

lemma mdItem_final_sizes:
  "num_dnLoc (fsm_final (mdItem_step k) m es) = num_dnLoc m" "num_replica (fsm_final (mdItem_step k) m es) = num_replica m"
  by (rule fsm_run_invariant [where I = "\<lambda>s. num_dnLoc s = num_dnLoc m"], simp add: mdItem_step_counts, simp)
    (rule fsm_run_invariant [where I = "\<lambda>s. num_replica s = num_replica m"], simp add: mdItem_step_counts, simp)

definition sample_item :: metaD_item_t where
  "sample_item = \<lparr>num_dnLoc = 0, num_hbids = 0, arr_HBID = [], udata_dnLoc = [], mdata_stat = MData_VALID, lbid_s = 0,
     memack = 0, diskack = 0, diskErr_ack = 0, wfail_connErr = 0, num_replica = 0, mdata_fea = 0\<rparr>"

lemma init_MDItem_simps [simp]:
  "diskack (MData_init_MDItem lb n r st b1 b2 b3 m) = 0" "diskErr_ack (MData_init_MDItem lb n r st b1 b2 b3 m) = 0"
  "num_dnLoc (MData_init_MDItem lb n r st b1 b2 b3 m) = r" "num_replica (MData_init_MDItem lb n r st b1 b2 b3 m) = int r"
  "\<not> md_fea (MData_init_MDItem lb n r st b1 b2 b3 m) MDATA_FEA_UDataCIUser"
  "\<not> md_fea (MData_init_MDItem lb n r st b1 b2 b3 m) MDATA_FEA_UDataCIMDS"
  by (auto simp: MData_init_MDItem_def Let_def) (auto simp: md_fea_def)

text \<open>When the last replica answers with a disk acknowledgement or a disk error, the item is committed.\<close>

lemma mds_after_final_ack:
  assumes "diskack (snd (mdItem_step k m (MdAck u))) + diskErr_ack (snd (mdItem_step k m (MdAck u))) = int (num_dnLoc m)"
  shows "md_fea (snd (mdItem_step k m (MdAck u))) MDATA_FEA_UDataCIMDS"
proof -
  have "chk_ciMDS_criteria (snd (mdItem_step k m (MdAck u)))"
    using assms by (simp add: chk_ciMDS_criteria_def mdItem_step_counts)
  then show ?thesis by (auto simp: md_step_defs chk_ciMDS_criteria_def split: if_splits)
qed

lemma md_all_answered:
  assumes "n_ack UData_S_WRITE_OK es + n_ack UData_S_DISK_FAILURE es = num_dnLoc m" "0 < num_dnLoc m" "num_dnLoc m < 128"
    and "diskack m = 0" "diskErr_ack m = 0"
  shows "md_fea (fsm_final (mdItem_step k) m es) MDATA_FEA_UDataCIMDS"
  using assms(1)
proof (induction es rule: rev_induct)
  case (snoc e es)
  let ?s = "fsm_final (mdItem_step k) m es"
  show ?case
  proof (cases "e = MdAck UData_S_WRITE_OK \<or> e = MdAck UData_S_DISK_FAILURE")
    case True
    then obtain u where u: "e = MdAck u" by auto
    have "diskack (snd (mdItem_step k ?s e)) + diskErr_ack (snd (mdItem_step k ?s e)) = int (num_dnLoc m)"
      using mdItem_final_counts [of m "es @ [e]" k] assms snoc.prems by (auto simp: fsm_run_append Let_def)
    then show ?thesis using mds_after_final_ack [of k ?s u] by (simp add: u fsm_run_append mdItem_final_sizes Let_def)
  next
    case False
    then have "md_fea ?s MDATA_FEA_UDataCIMDS" using snoc by auto
    then show ?thesis by (simp add: fsm_run_append mdItem_step_fea Let_def)
  qed
qed (use assms in simp)

lemma md_user_before_mds:
  assumes "md_fea m MDATA_FEA_UDataCIMDS \<longrightarrow> md_fea m MDATA_FEA_UDataCIUser"
  shows "md_fea (fsm_final (mdItem_step k) m es) MDATA_FEA_UDataCIMDS \<longrightarrow>
    md_fea (fsm_final (mdItem_step k) m es) MDATA_FEA_UDataCIUser"
  by (rule fsm_run_invariant [where I = "\<lambda>s. md_fea s MDATA_FEA_UDataCIMDS \<longrightarrow> md_fea s MDATA_FEA_UDataCIUser"])
    (use mdItem_step_fea in blast, rule assms)

text \<open>
  (C13) A write is reported exactly once.  In any history of datanode answers and timeouts on a fresh item, in any
  order and with any duplicates, the user and the namenode are each told at most once, and the namenode
  never without the user.  Once every replica has answered with a disk acknowledgement or a disk error, both have been
  told exactly once, whatever else (memory acknowledgements, connection errors, a timeout) came in between.
\<close>

theorem write_reported_once:
  fixes es k lb n r st b1 b2 b3 item
  defines "m \<equiv> MData_init_MDItem lb n r st b1 b2 b3 item"
  defines "user \<equiv> count_if (\<lambda>(e, a). ciUser a) (fsm_trace (mdItem_step k) m es)"
    and "mds \<equiv> count_if (\<lambda>(e, a). ciMDS a) (fsm_trace (mdItem_step k) m es)"
  shows "user \<le> 1 \<and> mds \<le> user \<and>
    (0 < r \<longrightarrow> r < 128 \<longrightarrow> n_ack UData_S_WRITE_OK es + n_ack UData_S_DISK_FAILURE es = r \<longrightarrow> user = 1 \<and> mds = 1)"
proof -
  have "user = of_bool (md_fea (fsm_final (mdItem_step k) m es) MDATA_FEA_UDataCIUser)"
    "mds = of_bool (md_fea (fsm_final (mdItem_step k) m es) MDATA_FEA_UDataCIMDS)"
    unfolding user_def mds_def by (rule md_user.granted_exactly md_mds.granted_exactly; simp add: m_def)+
  then show ?thesis using md_user_before_mds [of m k es] md_all_answered [of es m k] by (auto simp: m_def)
qed

theorem write_reported_once_witness:
  "count_if (\<lambda>(e, a). ciUser a) (fsm_trace (mdItem_step 2) (MData_init_MDItem 8 1 3 MData_VALID False False False sample_item)
     [MdAck UData_S_WRITE_OK, MdAck UData_S_DISK_FAILURE, MdTimeout, MdAck UData_S_WRITE_MEM_OK, MdAck UData_S_WRITE_OK]) = 1"
  using write_reported_once [of 2 8 1 3 MData_VALID False False False sample_item
      "[MdAck UData_S_WRITE_OK, MdAck UData_S_DISK_FAILURE, MdTimeout, MdAck UData_S_WRITE_MEM_OK, MdAck UData_S_WRITE_OK]"]
  by (simp add: n_ack_def)

lemma no_ack_no_diskack:
  "n_ack UData_S_WRITE_OK es = 0 \<Longrightarrow> diskack m = 0 \<Longrightarrow> diskack (fsm_final (mdItem_step k) m es) = 0"
proof (induction es rule: rev_induct)
  case (snoc e es)
  then show ?case by (auto simp: fsm_run_append mdItem_step_counts Let_def split: if_splits)
qed simp

lemma success_needs_disk:
  assumes "ciUser_ret (fst (mdItem_step k m e))" "1 \<le> k" "1 \<le> num_replica m"
  shows "diskack (snd (mdItem_step k m e)) \<noteq> 0"
proof
  assume d: "diskack (snd (mdItem_step k m e)) = 0"
  show False
  proof (cases e)
    case (MdAck u)
    have "diskack (md_count_ack u m) = 0"
      using d MdAck by (simp add: md_step_defs split: if_splits)
    then show False using assms MdAck by (auto simp: md_step_defs chk_ciUser_criteria_def split: if_splits)
  next
    case MdTimeout
    then show False using d assms(1) by (simp add: md_step_defs)
  qed
qed



subsection \<open>Reads, retries and the corners of the criteria\<close>

definition ud_all :: "UData_state_t list \<Rightarrow> metaD_DNLoc_t list \<Rightarrow> int" where
  "ud_all us ds = int (count_if (\<lambda>d. udata_status d \<in> set us) ds)"

lemma ciUser_scan_eq:
  "ciUser_scan ds md de na =
    (if \<exists>d \<in> set ds. udata_status d = UData_S_READ_OK then None
     else Some (md + ud_all [UData_S_MD_ERR] ds, de + ud_all [UData_S_DISK_FAILURE] ds, na + ud_all [UData_S_READ_NA] ds))"
  by (induction ds arbitrary: md de na) (auto simp: ud_all_def)

lemma ud_all_two:
  "u \<noteq> v \<Longrightarrow> ud_all [u] ds + ud_all [v] ds = ud_all [u, v] ds"
  by (induction ds) (auto simp: ud_all_def)

lemma ud_all_full: "ud_all us ds = int (length ds) \<longleftrightarrow> (\<forall>d \<in> set ds. udata_status d \<in> set us)"
proof (induction ds)
  case (Cons d ds)
  then show ?case using count_if_le_length [of "\<lambda>d. udata_status d \<in> set us" ds] by (auto simp: ud_all_def)
qed (simp add: ud_all_def)

lemma ud_all_none: "ud_all us ds = 0 \<longleftrightarrow> (\<forall>d \<in> set ds. udata_status d \<notin> set us)"
  by (auto simp: ud_all_def count_if_eq_0_iff)

lemma read_scan_answer:
  assumes "ds \<noteq> []"
  shows "(case ciUser_scan ds 0 0 0 of None \<Rightarrow> (False, True) | Some (a, b, c) \<Rightarrow> DNReadAck_check_wait (length ds) a b c) =
    (if \<exists>d \<in> set ds. udata_status d = UData_S_READ_OK then (False, True)
     else if \<forall>d \<in> set ds. udata_status d \<in> {UData_S_MD_ERR, UData_S_DISK_FAILURE}
     then (False, \<exists>d \<in> set ds. udata_status d = UData_S_MD_ERR) else (True, False))"
proof (cases "\<exists>d \<in> set ds. udata_status d = UData_S_READ_OK")
  case False
  obtain d where d: "d \<in> set ds" using assms by (meson last_in_set)
  have both: "ud_all [UData_S_MD_ERR] ds + ud_all [UData_S_DISK_FAILURE] ds = int (length ds) \<longleftrightarrow>
      (\<forall>d \<in> set ds. udata_status d \<in> {UData_S_MD_ERR, UData_S_DISK_FAILURE})"
    using ud_all_two [of UData_S_MD_ERR UData_S_DISK_FAILURE ds] ud_all_full [of "[UData_S_MD_ERR, UData_S_DISK_FAILURE]" ds] by simp
  have all: "ud_all [u] ds = int (length ds) \<longleftrightarrow> (\<forall>d \<in> set ds. udata_status d = u)" for u
    using ud_all_full [of "[u]" ds] by simp
  have "(case ciUser_scan ds 0 0 0 of None \<Rightarrow> (False, True) | Some (a, b, c) \<Rightarrow> DNReadAck_check_wait (length ds) a b c) =
    (if \<forall>d \<in> set ds. udata_status d = UData_S_MD_ERR then (False, True)
     else if \<forall>d \<in> set ds. udata_status d = UData_S_DISK_FAILURE then (False, False)
     else if \<forall>d \<in> set ds. udata_status d = UData_S_READ_NA then (True, False)
     else if \<forall>d \<in> set ds. udata_status d \<in> {UData_S_MD_ERR, UData_S_DISK_FAILURE} then (False, True) else (True, False))"
    using False unfolding ciUser_scan_eq DNReadAck_check_wait_def
    by (simp only: if_False add_0 option.case prod.case all both if_cancel)
  also have "\<dots> = (if \<forall>d \<in> set ds. udata_status d \<in> {UData_S_MD_ERR, UData_S_DISK_FAILURE}
     then (False, \<exists>d \<in> set ds. udata_status d = UData_S_MD_ERR) else (True, False))"
    using d by (auto dest: bspec)
  finally show ?thesis using False by simp
qed (simp add: ciUser_scan_eq)

text \<open>
  (C26) When a read may be answered: the client stops waiting exactly when some replica delivered the data, or when
  every replica is known to be useless (wrong block number on the datanode, or disk error).  In the second case the
  answer is a failure only if all replicas had disk errors.  A replica that is only unreachable keeps the read waiting.
\<close>

theorem read_answer_exact:
  assumes "num_dnLoc m \<le> length (udata_dnLoc m)" "0 < num_dnLoc m"
  defines "ds \<equiv> set (take (num_dnLoc m) (udata_dnLoc m))"
  shows "MData_check_ciUserStatus m =
    (if \<exists>d \<in> ds. udata_status d = UData_S_READ_OK then (False, True)
     else if \<forall>d \<in> ds. udata_status d \<in> {UData_S_MD_ERR, UData_S_DISK_FAILURE}
     then (False, \<exists>d \<in> ds. udata_status d = UData_S_MD_ERR) else (True, False))"
proof -
  let ?l = "take (num_dnLoc m) (udata_dnLoc m)"
  have l: "length ?l = num_dnLoc m" "?l \<noteq> []" using assms(1,2) by auto
  show ?thesis using read_scan_answer [OF l(2)] by (simp only: MData_check_ciUserStatus_def ds_def l(1))
qed

definition sample_loc :: "UData_state_t \<Rightarrow> metaD_DNLoc_t" where
  "sample_loc st = \<lparr>ipaddr = 0, port = 0, rbid_len_offset = [], num_phyLocs = 0, udata_status = st\<rparr>"

theorem read_answer_exact_witness:
  "MData_check_ciUserStatus (sample_item\<lparr>num_dnLoc := 2, udata_dnLoc := [sample_loc UData_S_DISK_FAILURE, sample_loc UData_S_MD_ERR]\<rparr>)
    = (False, True)"
  using read_answer_exact [of "sample_item\<lparr>num_dnLoc := 2, udata_dnLoc := [sample_loc UData_S_DISK_FAILURE, sample_loc UData_S_MD_ERR]\<rparr>"]
  by (simp add: sample_loc_def)

text \<open>The payload manager stores the status of a replica and counts it; this is what it does for one answer.\<close>

definition md_replica_answer :: "nat \<Rightarrow> UData_state_t \<Rightarrow> metaD_item_t \<Rightarrow> metaD_item_t" where
  "md_replica_answer i u m =
     md_count_ack u (m\<lparr>udata_dnLoc := (udata_dnLoc m)[i := MData_update_DNUDataStat u (udata_dnLoc m ! i)]\<rparr>)"

text \<open>
  (C27) Retrying a write after a lost connection gives back what the lost attempt had counted: if replica \<^verbatim>\<open>i\<close> had
  not answered, then a memory acknowledgement or a connection failure of that replica followed by
  \<^verbatim>\<open>MData_wRetry_reset_DNLoc\<close> restores the item exactly, so the criteria do not count the replica twice.
\<close>

theorem retry_restores_item:
  assumes "i < length (udata_dnLoc m)" "udata_status (udata_dnLoc m ! i) = UData_S_INIT"
    and "u = UData_S_WRITE_MEM_OK \<or> u = UData_S_WRITE_FAIL"
    and "0 \<le> memack m" "memack m < 127" "0 \<le> wfail_connErr m" "wfail_connErr m < 127"
  shows "MData_wRetry_reset_DNLoc i (md_replica_answer i u m) = m"
proof -
  have "(udata_dnLoc m ! i)\<lparr>udata_status := UData_S_INIT\<rparr> = udata_dnLoc m ! i" using assms(2) by simp
  then have "(udata_dnLoc m)[i := (udata_dnLoc m ! i)\<lparr>udata_status := UData_S_INIT\<rparr>] = udata_dnLoc m" by simp
  then show ?thesis
    using assms by (auto simp: MData_wRetry_reset_DNLoc_def md_replica_answer_def md_count_ack_def MData_update_DNUDataStat_def Let_def)
qed

theorem retry_restores_item_witness:
  "MData_wRetry_reset_DNLoc 0 (md_replica_answer 0 UData_S_WRITE_FAIL (sample_item\<lparr>num_dnLoc := 1, udata_dnLoc := [sample_loc UData_S_INIT]\<rparr>))
    = sample_item\<lparr>num_dnLoc := 1, udata_dnLoc := [sample_loc UData_S_INIT]\<rparr>"
  by (rule retry_restores_item) (simp_all add: sample_loc_def sample_item_def)

text \<open>
  With \<^verbatim>\<open>CommitUser_min_DiskAck\<close> = 0 the test \<^verbatim>\<open>diskack >= minDiskAck\<close> of \<^verbatim>\<open>_chk_ciUser_criteria\<close> always
  holds, so the first answer of any kind, a disk error included, reports success to the user.
\<close>

lemma min_ack_zero_reports_success:
  "ciUser (fst (MData_writeAck_commitResult 0 UData_S_DISK_FAILURE (MData_init_MDItem lb n 3 st b1 b2 b3 m))) \<and>
   ciUser_ret (fst (MData_writeAck_commitResult 0 UData_S_DISK_FAILURE (MData_init_MDItem lb n 3 st b1 b2 b3 m)))"
  by (auto simp: MData_writeAck_commitResult_def md_count_ack_def chk_ciUser_criteria_def chk_ciMDS_criteria_def Let_def)

text \<open>
  With \<^verbatim>\<open>CommitUser_min_DiskAck\<close> = 2 and three replicas, one disk acknowledgement and two lost connections
  commit the write to the namenode and at the same time report a failure to the user, because
  \<^verbatim>\<open>MData_writeAck_commitResult\<close> forces \<^verbatim>\<open>ciUser\<close> and leaves \<^verbatim>\<open>ciUser_ret\<close> at false; a timeout in the same
  situation reports success.
\<close>

lemma mds_commit_reports_failure:
  fixes lb n st b1 b2 b3 item
  defines "m \<equiv> fsm_final (mdItem_step 2) (MData_init_MDItem lb n 3 st b1 b2 b3 item) [MdAck UData_S_WRITE_OK, MdAck UData_S_WRITE_FAIL]"
  shows "ciMDS (fst (mdItem_step 2 m (MdAck UData_S_WRITE_FAIL))) \<and> ciUser (fst (mdItem_step 2 m (MdAck UData_S_WRITE_FAIL))) \<and>
    \<not> ciUser_ret (fst (mdItem_step 2 m (MdAck UData_S_WRITE_FAIL))) \<and> ciUser_ret (fst (mdItem_step 2 m MdTimeout))"
proof -
  let ?i = "MData_init_MDItem lb n 3 st b1 b2 b3 item"
  have w: "wfail_connErr ?i = 0" by (simp add: MData_init_MDItem_def Let_def)
  have m: "m = md_count_ack UData_S_WRITE_FAIL (md_count_ack UData_S_WRITE_OK ?i)"
    unfolding m_def using w
    by (simp add: md_step_defs md_count_ack_def chk_ciUser_criteria_def chk_ciMDS_criteria_def)
  show ?thesis unfolding m using w
    by (simp add: md_step_defs md_count_ack_def chk_ciUser_criteria_def chk_ciMDS_criteria_def)
qed

end
