(* ===== verification/Dn_Request.thy ===== *)
theory Dn_Request
  imports Work_Queue Md_Manager Dn_Fsm
begin

unbundle bit_operations_syntax

text \<open>
  The requests of the datanode client: the request pool (\<^verbatim>\<open>discoDN_client/discoC_DNUDReqPool.c\<close>), the request and its
  operations (\<^verbatim>\<open>discoC_DNUData_Request.c\<close>), and the parts of the manager and of the socket worker that move requests
  (\<^verbatim>\<open>discoC_DNC_Manager.c\<close>, \<^verbatim>\<open>discoC_DNC_worker.c\<close>).  A request is a number (its address, never \<^verbatim>\<open>NULL\<close>); the
  manager record holds the request memory \<^verbatim>\<open>dn_mem\<close>, which requests are allocated (\<^verbatim>\<open>dn_live\<close>), the callers that wait
  inside \<^verbatim>\<open>DNUDReq_free_Req\<close> for the last reference (\<^verbatim>\<open>dn_waitfree\<close>), the metadata items the requests point to and
  the calls of the completion callback in order (\<^verbatim>\<open>dn_endfn\<close>).  Locks are flags: a call sets and clears them.
\<close>

subsection \<open>The request pool\<close>

definition DNREQ_HBUCKET_SIZE :: nat where
  "DNREQ_HBUCKET_SIZE = 4001"

record DNUDataReq_Pool_t =
  DNUDReq_pool :: buckets
  DNUDReq_plock :: "nat \<Rightarrow> bool"
  num_DNUDReq :: int

definition DNUDReqPool_get_numReq :: "DNUDataReq_Pool_t \<Rightarrow> int" where
  "DNUDReqPool_get_numReq reqPool = num_DNUDReq reqPool"

definition DNUDReqPool_acquire_plock :: "u32 \<Rightarrow> DNUDataReq_Pool_t \<Rightarrow> nat \<times> DNUDataReq_Pool_t" where
  "DNUDReqPool_acquire_plock dnReqID reqPool =
     (let bk_idx = unat dnReqID mod DNREQ_HBUCKET_SIZE
      in (bk_idx, reqPool\<lparr>DNUDReq_plock := (DNUDReq_plock reqPool)(bk_idx := True)\<rparr>))"

definition DNUDReqPool_rel_plock :: "nat \<Rightarrow> DNUDataReq_Pool_t \<Rightarrow> DNUDataReq_Pool_t" where
  "DNUDReqPool_rel_plock lockID reqPool = reqPool\<lparr>DNUDReq_plock := (DNUDReq_plock reqPool)(lockID := False)\<rparr>"

definition DNUDReqPool_addReq_nolock :: "nat \<Rightarrow> nat \<Rightarrow> DNUDataReq_Pool_t \<Rightarrow> DNUDataReq_Pool_t" where
  "DNUDReqPool_addReq_nolock dnUDReq lockID reqPool =
     reqPool\<lparr>DNUDReq_pool := bk_add dnUDReq lockID (DNUDReq_pool reqPool), num_DNUDReq := num_DNUDReq reqPool + 1\<rparr>"

definition DNUDReqPool_findReq_nolock :: "(nat \<Rightarrow> u32) \<Rightarrow> u32 \<Rightarrow> nat \<Rightarrow> DNUDataReq_Pool_t \<Rightarrow> nat option" where
  "DNUDReqPool_findReq_nolock reqID dnReqID lockID reqPool = find (\<lambda>cur. reqID cur = dnReqID) (DNUDReq_pool reqPool lockID)"

definition DNUDReqPool_rmReq_nolock :: "nat \<Rightarrow> DNUDataReq_Pool_t \<Rightarrow> DNUDataReq_Pool_t" where
  "DNUDReqPool_rmReq_nolock myReq reqPool =
     reqPool\<lparr>DNUDReq_pool := bk_del myReq (DNUDReq_pool reqPool), num_DNUDReq := num_DNUDReq reqPool - 1\<rparr>"

definition DNUDReqPool_init_pool :: DNUDataReq_Pool_t where
  "DNUDReqPool_init_pool = \<lparr>DNUDReq_pool = \<lambda>_. [], DNUDReq_plock = \<lambda>_. False, num_DNUDReq = 0\<rparr>"

definition dnp_mems :: "DNUDataReq_Pool_t \<Rightarrow> nat set" where
  "dnp_mems p = bk_mems (DNUDReq_pool p)"

definition dnp_inv :: "(nat \<Rightarrow> u32) \<Rightarrow> DNUDataReq_Pool_t \<Rightarrow> bool" where
  "dnp_inv key p \<longleftrightarrow> bk_counted ((\<lambda>k. unat k mod DNREQ_HBUCKET_SIZE) \<circ> key) (DNUDReq_pool p) (num_DNUDReq p)"

lemmas dnp_defs = dnp_inv_def dnp_mems_def DNUDReqPool_init_pool_def DNUDReqPool_addReq_nolock_def
  DNUDReqPool_rmReq_nolock_def DNUDReqPool_findReq_nolock_def DNUDReqPool_get_numReq_def

interpretation dnpool: req_pool "\<lambda>k. unat k mod DNREQ_HBUCKET_SIZE" DNUDReqPool_init_pool DNUDReqPool_addReq_nolock
  DNUDReqPool_rmReq_nolock DNUDReqPool_findReq_nolock DNUDReqPool_get_numReq dnp_mems dnp_inv
proof (unfold_locales, goal_cases)
  case (3 key p r)
  then show ?case using bk_counted_add [of "(\<lambda>k. unat k mod DNREQ_HBUCKET_SIZE) \<circ> key"] by (simp add: dnp_defs)
next
  case (5 key p r)
  then show ?case using bk_counted_del by (simp add: dnp_defs)
next
  case (6 key p r)
  then show ?case using bk_mems_del [OF bk_countedD(1)] by (simp add: dnp_defs)
next
  case (7 key p k r)
  then show ?case using bk_find_Some [OF bk_countedD(1)] by (simp only: dnp_defs)
next
  case (8 key p k r)
  then show ?case using bk_find_None [OF bk_countedD(1)] by (simp only: dnp_defs)
next
  case (9 key p)
  then show ?case using bk_countedD(2) by (auto simp: dnp_defs)
next
  case (10 key p key')
  show ?case unfolding dnp_inv_def
    by (rule bk_counted_cong [OF 10(1) [unfolded dnp_inv_def]]) (use 10(2) in \<open>simp add: dnp_mems_def\<close>)
qed (simp_all add: dnp_defs)

subsection \<open>Requests and the client manager\<close>

datatype DNUDReq_opcode_t = DNUDREQ_WRITE | DNUDREQ_READ | DNUDREQ_HEART_BEAT | DNUDREQ_WRITE_NO_PAYLOAD
  | DNUDREQ_READ_NO_PAYLOAD | DNUDREQ_WRITE_NO_IO | DNUDREQ_READ_NO_IO | DNUDREQ_WRITE_NO_PAYLOAD_IO
  | DNUDREQ_READ_NO_PAYLOAD_IO

text \<open>
  The response codes: \<^verbatim>\<open>DNUDResp_opcode_t\<close>, \<^verbatim>\<open>DNUDResp_err_code_t\<close> and any other value a packet may carry.
\<close>

datatype DNUDResp_opcode_t = DNUDRESP_READ_PAYLOAD | DNUDRESP_MEM_ACK | DNUDRESP_DISK_ACK
  | DNUDRESP_WRITEANDGETOLD_MEM_ACK | DNUDRESP_WRITEANDGETOLD_DISK_ACK | DNUDRESP_READ_NO_PAYLOAD
  | DNUDRESP_ERR_IOException | DNUDRESP_ERR_IOFailLUNOK | DNUDRESP_ERR_LUNFail | DNUDRESP_HBIDERR
  | DN_ERR_DISCONNECTED | DNUDRESP_OTHER nat

datatype DNMDReq_fea_t = DNREQ_FEA_IN_WORKQ | DNREQ_FEA_IN_REQPOOL | DNREQ_FEA_DO_RW_IO | DNREQ_FEA_SEND_PAYLOAD

primrec DNMDReq_fea_bit :: "DNMDReq_fea_t \<Rightarrow> nat" where
  "DNMDReq_fea_bit DNREQ_FEA_IN_WORKQ = 0"
| "DNMDReq_fea_bit DNREQ_FEA_IN_REQPOOL = 1"
| "DNMDReq_fea_bit DNREQ_FEA_DO_RW_IO = 2"
| "DNMDReq_fea_bit DNREQ_FEA_SEND_PAYLOAD = 3"

lemma DNMDReq_fea_bit_simps [simp]: "DNMDReq_fea_bit f = DNMDReq_fea_bit g \<longleftrightarrow> f = g" "DNMDReq_fea_bit f < 32"
  by (cases f; cases g; simp) (cases f; simp)

record 'op ReqCommon_t =
  ReqID :: u32
  CallerReqID :: u32
  ReqFeature :: u32
  ReqPrior :: priority_type
  ReqOPCode :: 'op
  ReqRefCnt :: int
  t_sendReq :: u64
  t_rcvReqAck :: u64

record DNUData_Req_t =
  dnReq_comm :: "DNUDReq_opcode_t ReqCommon_t"
  dnReq_stat :: DNUDReq_fsm_t
  mdata_item :: nat
  dnLoc_idx :: nat
  dn_ipaddr :: u32
  dn_port :: u16
  dn_num_hbids :: nat
  arr_hbids :: "u64 list"
  phyLoc_rlo :: "u64 list"
  UDataSeg :: "(nat \<times> nat \<times> nat) list"
  dn_payload_offset :: nat
  caller_bkidx :: int
  t_rcvReqAck_mem :: u64

record DNClient_MGR_t =
  UData_ReqPool :: DNUDataReq_Pool_t
  dnClient :: discoDNC_worker_t
  DNUDReqID_counter :: u32
  num_DNReq_waitResp :: int
  lastMax_DNUDRespID :: u32
  dn_mem :: "nat \<Rightarrow> DNUData_Req_t"
  dn_live :: "nat \<Rightarrow> bool"
  dn_waitfree :: "nat list"
  dn_mdata :: "nat \<Rightarrow> metaD_item_t"
  dn_endfn :: "(nat \<times> UData_state_t) list"

definition dn_id :: "DNClient_MGR_t \<Rightarrow> nat \<Rightarrow> u32" where
  "dn_id w r = ReqID (dnReq_comm (dn_mem w r))"

definition dn_upd :: "nat \<Rightarrow> (DNUData_Req_t \<Rightarrow> DNUData_Req_t) \<Rightarrow> DNClient_MGR_t \<Rightarrow> DNClient_MGR_t" where
  "dn_upd r f w = w\<lparr>dn_mem := (dn_mem w)(r := f (dn_mem w r))\<rparr>"

definition DNUDReq_set_feature :: "DNMDReq_fea_t \<Rightarrow> DNUData_Req_t \<Rightarrow> DNUData_Req_t" where
  "DNUDReq_set_feature fea_bit myReq = myReq\<lparr>dnReq_comm := (dnReq_comm myReq)\<lparr>ReqFeature :=
     set_bit (DNMDReq_fea_bit fea_bit) (ReqFeature (dnReq_comm myReq))\<rparr>\<rparr>"

definition DNUDReq_clear_feature :: "DNMDReq_fea_t \<Rightarrow> DNUData_Req_t \<Rightarrow> DNUData_Req_t" where
  "DNUDReq_clear_feature fea_bit myReq = myReq\<lparr>dnReq_comm := (dnReq_comm myReq)\<lparr>ReqFeature :=
     unset_bit (DNMDReq_fea_bit fea_bit) (ReqFeature (dnReq_comm myReq))\<rparr>\<rparr>"

definition DNUDReq_check_feature :: "DNMDReq_fea_t \<Rightarrow> DNUData_Req_t \<Rightarrow> bool" where
  "DNUDReq_check_feature fea_bit myReq = bit (ReqFeature (dnReq_comm myReq)) (DNMDReq_fea_bit fea_bit)"

definition DNUDReq_test_set_fea :: "DNMDReq_fea_t \<Rightarrow> DNUData_Req_t \<Rightarrow> bool \<times> DNUData_Req_t" where
  "DNUDReq_test_set_fea fea_bit myReq = (DNUDReq_check_feature fea_bit myReq, DNUDReq_set_feature fea_bit myReq)"

definition DNUDReq_test_clear_fea :: "DNMDReq_fea_t \<Rightarrow> DNUData_Req_t \<Rightarrow> bool \<times> DNUData_Req_t" where
  "DNUDReq_test_clear_fea fea_bit myReq = (DNUDReq_check_feature fea_bit myReq, DNUDReq_clear_feature fea_bit myReq)"

definition DNUDReq_ref_Req :: "DNUData_Req_t \<Rightarrow> DNUData_Req_t" where
  "DNUDReq_ref_Req myReq = myReq\<lparr>dnReq_comm := (dnReq_comm myReq)\<lparr>ReqRefCnt := ReqRefCnt (dnReq_comm myReq) + 1\<rparr>\<rparr>"

definition DNUDReq_deref_Req :: "DNUData_Req_t \<Rightarrow> DNUData_Req_t" where
  "DNUDReq_deref_Req myReq = myReq\<lparr>dnReq_comm := (dnReq_comm myReq)\<lparr>ReqRefCnt := ReqRefCnt (dnReq_comm myReq) - 1\<rparr>\<rparr>"

text \<open>An event on the state machine of a request.\<close>

definition dnReq_event :: "DNUDREQ_FSM_TREvent_t \<Rightarrow> DNUData_Req_t \<Rightarrow> DNUDREQ_FSM_action_t \<times> DNUData_Req_t" where
  "dnReq_event e myReq =
     (fst (DNUDReq_update_state (dnReq_stat myReq) e), myReq\<lparr>dnReq_stat := snd (DNUDReq_update_state (dnReq_stat myReq) e)\<rparr>)"

definition INVAL_REQID :: u32 where
  "INVAL_REQID = 0"

definition DNClientMgr_gen_DNUDReqID :: "DNClient_MGR_t \<Rightarrow> u32 \<times> DNClient_MGR_t" where
  "DNClientMgr_gen_DNUDReqID mgr =
     (let c1 = DNUDReqID_counter mgr + 1; c2 = (if INVAL_REQID = c1 then c1 + 1 else c1)
      in (c2, mgr\<lparr>DNUDReqID_counter := c2\<rparr>))"

definition DNClientMgr_set_last_DNUDataRespID :: "u32 \<Rightarrow> DNClient_MGR_t \<Rightarrow> DNClient_MGR_t" where
  "DNClientMgr_set_last_DNUDataRespID dnReqID mgr =
     (if lastMax_DNUDRespID mgr < dnReqID then mgr\<lparr>lastMax_DNUDRespID := dnReqID\<rparr>
      else if lastMax_DNUDRespID mgr = 0xffff \<and> dnReqID = 1 then mgr\<lparr>lastMax_DNUDRespID := dnReqID\<rparr>
      else mgr)"

definition add_dnReq2pool :: "nat \<Rightarrow> DNClient_MGR_t \<Rightarrow> DNClient_MGR_t" where
  "add_dnReq2pool myReq mgr =
     (let l = DNUDReqPool_acquire_plock (dn_id mgr myReq) (UData_ReqPool mgr); lockID = fst l;
          t = DNUDReq_test_set_fea DNREQ_FEA_IN_REQPOOL (dn_mem mgr myReq);
          p1 = (if fst t then snd l else DNUDReqPool_addReq_nolock myReq lockID (snd l))
      in (dn_upd myReq (\<lambda>_. snd t) mgr)\<lparr>UData_ReqPool := DNUDReqPool_rel_plock lockID p1\<rparr>)"

definition DNUDReq_init_Req :: "nat \<Rightarrow> DNUDReq_opcode_t \<Rightarrow> 'op ReqCommon_t \<Rightarrow> nat \<Rightarrow> nat \<Rightarrow> DNClient_MGR_t \<Rightarrow> DNClient_MGR_t" where
  "DNUDReq_init_Req myReq opcode callerReq md_item idx mgr =
     (let g = DNClientMgr_gen_DNUDReqID mgr; md = dn_mdata mgr md_item; dn_loc = udata_dnLoc md ! idx;
          comm = \<lparr>ReqID = fst g, CallerReqID = ReqID callerReq, ReqFeature = 0, ReqPrior = ReqPrior callerReq,
                  ReqOPCode = opcode, ReqRefCnt = 0, t_sendReq = 0, t_rcvReqAck = 0\<rparr>;
          req = \<lparr>dnReq_comm = comm, dnReq_stat = DNUDReq_init_fsm \<lparr>st_dnReq = DNREQ_S_START\<rparr>, mdata_item = 0,
                 dnLoc_idx = idx, dn_ipaddr = ipaddr dn_loc, dn_port = ucast (port dn_loc), dn_num_hbids = num_hbids md mod 65536,
                 arr_hbids = take (num_hbids md) (arr_HBID md), phyLoc_rlo = take (unat (num_phyLocs dn_loc)) (rbid_len_offset dn_loc),
                 UDataSeg = [], dn_payload_offset = 0, caller_bkidx = 0, t_rcvReqAck_mem = 0\<rparr>
      in add_dnReq2pool myReq (dn_upd myReq (\<lambda>_. req) (snd g)))"

definition init_DNUDReq_Read :: "nat \<Rightarrow> bool \<Rightarrow> bool \<Rightarrow> DNUData_Req_t \<Rightarrow> bool \<times> DNUData_Req_t" where
  "init_DNUDReq_Read data_offset send_data rw_data myReq =
     (let r1 = myReq\<lparr>dn_payload_offset := data_offset\<rparr>;
          r2 = (if send_data then DNUDReq_set_feature DNREQ_FEA_SEND_PAYLOAD r1 else r1);
          r3 = (if rw_data then DNUDReq_set_feature DNREQ_FEA_DO_RW_IO r2 else r2);
          a = dnReq_event DNREQ_E_InitDone r3
      in (fst a = DNREQ_A_DO_ADD_WORKQ, snd a))"

text \<open>
  The payload of a write lies in chunks of 128 KB; \<^verbatim>\<open>_get_data_buffer_loc\<close> finds the part that follows an offset.  A part is
  the index of its chunk, the offset in the chunk and the length.  \<^verbatim>\<open>chunk_index\<close> is a \<^verbatim>\<open>uint32_t\<close>, so
  \<^verbatim>\<open>chunk_start\<close> is computed modulo 2^32.
\<close>

definition BIT_LEN_MEM_CHUNK :: nat where
  "BIT_LEN_MEM_CHUNK = 17"

definition get_data_buffer_loc :: "nat list \<Rightarrow> nat \<Rightarrow> nat \<Rightarrow> (nat \<times> nat \<times> nat) option" where
  "get_data_buffer_loc chunk_item_size payload_offset len =
     (let chunk_index = (payload_offset div 2 ^ BIT_LEN_MEM_CHUNK) mod 2 ^ 32;
          chunk_start = (chunk_index * 2 ^ BIT_LEN_MEM_CHUNK) mod 2 ^ 32;
          off = payload_offset - chunk_start
      in if chunk_index < length chunk_item_size then
           (let next_chunk_start = chunk_start + chunk_item_size ! chunk_index;
                ref_len = (if next_chunk_start \<ge> payload_offset + len then len
                           else (next_chunk_start + 2 ^ 64 - payload_offset) mod 2 ^ 32)
            in Some (chunk_index, off, ref_len))
         else None)"

text \<open>The loop over the parts; None when it leaves the buffer or does not end.\<close>

partial_function (option) dn_payload_segs :: "nat list \<Rightarrow> nat \<Rightarrow> nat \<Rightarrow> (nat \<times> nat \<times> nat) list option" where
  "dn_payload_segs data_buf data_off dnlen =
     (if dnlen > 0 then
        Option.bind (get_data_buffer_loc data_buf data_off (dnlen mod 2 ^ 32)) (\<lambda>seg.
        Option.bind (dn_payload_segs data_buf ((data_off + snd (snd seg)) mod 2 ^ 64)
          ((dnlen + 2 ^ 64 - snd (snd seg)) mod 2 ^ 64)) (\<lambda>segs.
        Some (seg # segs)))
      else Some [])"

definition init_DNUDReq_Write :: "nat list \<Rightarrow> nat \<Rightarrow> bool \<Rightarrow> bool \<Rightarrow> DNUData_Req_t \<Rightarrow> (bool \<times> DNUData_Req_t) option" where
  "init_DNUDReq_Write data_buf payload_offset send_data rw_data myReq =
     (let r1 = myReq\<lparr>dn_payload_offset := payload_offset\<rparr>;
          r2 = (if send_data then DNUDReq_set_feature DNREQ_FEA_SEND_PAYLOAD r1 else r1);
          r3 = (if rw_data then DNUDReq_set_feature DNREQ_FEA_DO_RW_IO r2 else r2)
      in Option.bind (dn_payload_segs data_buf payload_offset (dn_num_hbids r3 * 2 ^ BIT_LEN_DMS_LB_SIZE)) (\<lambda>segs.
           let a = dnReq_event DNREQ_E_InitDone (r3\<lparr>UDataSeg := segs\<rparr>)
           in Some (fst a = DNREQ_A_DO_ADD_WORKQ, snd a)))"

text \<open>
  One look at the reference count: without references the request goes back to the memory pool, otherwise the caller
  stays in the loop and looks again later.
\<close>

definition DNUDReq_free_Req :: "nat \<Rightarrow> DNClient_MGR_t \<Rightarrow> DNClient_MGR_t" where
  "DNUDReq_free_Req dn_req mgr =
     (if ReqRefCnt (dnReq_comm (dn_mem mgr dn_req)) = 0
      then mgr\<lparr>dn_live := (dn_live mgr)(dn_req := False), dn_waitfree := remove1 dn_req (dn_waitfree mgr)\<rparr>
      else if dn_req \<in> set (dn_waitfree mgr) then mgr
      else mgr\<lparr>dn_waitfree := dn_req # dn_waitfree mgr\<rparr>)"

definition DNUDReq_check_retryable :: "DNUData_Req_t \<Rightarrow> bool \<times> DNUData_Req_t" where
  "DNUDReq_check_retryable myReq = (let a = dnReq_event DNREQ_E_ConnBack myReq in (DNREQ_A_DO_RETRY_REQ = fst a, snd a))"

definition is_mem_ack :: "DNUDResp_opcode_t \<Rightarrow> bool" where
  "is_mem_ack dnAck \<longleftrightarrow> dnAck = DNUDRESP_MEM_ACK \<or> dnAck = DNUDRESP_WRITEANDGETOLD_MEM_ACK"

definition find_dnReq_update_state :: "DNUDResp_opcode_t \<Rightarrow> DNUData_Req_t \<Rightarrow> bool \<times> DNUData_Req_t" where
  "find_dnReq_update_state dnAck myReq =
     (let a = dnReq_event (if is_mem_ack dnAck then DNREQ_E_FindReqOK_MemAck else DNREQ_E_FindReqOK) myReq
      in (fst a = DNREQ_A_DO_PROCESS_RESP, snd a))"

definition find_DNUDReq_ReqPool :: "u32 \<Rightarrow> DNUDResp_opcode_t \<Rightarrow> DNClient_MGR_t \<Rightarrow> nat option \<times> DNClient_MGR_t" where
  "find_DNUDReq_ReqPool dnReqID dnAck mgr =
     (let l = DNUDReqPool_acquire_plock dnReqID (UData_ReqPool mgr); lockID = fst l; m0 = mgr\<lparr>UData_ReqPool := snd l\<rparr>;
          res = (case DNUDReqPool_findReq_nolock (dn_id m0) dnReqID lockID (snd l) of
              None \<Rightarrow> (None, m0)
            | Some myReq \<Rightarrow>
                (let u = find_dnReq_update_state dnAck (DNUDReq_ref_Req (dn_mem m0 myReq))
                 in if \<not> fst u then (None, dn_upd myReq (\<lambda>_. DNUDReq_deref_Req (snd u)) m0)
                    else if is_mem_ack dnAck then (Some myReq, dn_upd myReq (\<lambda>_. snd u) m0)
                    else (let t = DNUDReq_test_clear_fea DNREQ_FEA_IN_REQPOOL (snd u)
                          in if \<not> fst t then (None, dn_upd myReq (\<lambda>_. DNUDReq_deref_Req (snd t)) m0)
                             else (Some myReq, (dn_upd myReq (\<lambda>_. snd t) m0)
                               \<lparr>UData_ReqPool := DNUDReqPool_rmReq_nolock myReq (UData_ReqPool m0)\<rparr>))))
      in (fst res, (snd res)\<lparr>UData_ReqPool := DNUDReqPool_rel_plock lockID (UData_ReqPool (snd res))\<rparr>))"

subsection \<open>The worker queue of requests\<close>

definition DNCWker_add_Req_workQ :: "nat \<Rightarrow> DNClient_MGR_t \<Rightarrow> DNClient_MGR_t" where
  "DNCWker_add_Req_workQ myReq mgr =
     (let l = acquire_DNCWorkQ_lock (dn_id mgr myReq) (ReqPrior (dnReq_comm (dn_mem mgr myReq))) (dnClient mgr); lockID = fst l;
          t = DNUDReq_test_set_fea DNREQ_FEA_IN_WORKQ (dn_mem mgr myReq);
          q = (if fst t then snd l else addReq_DNCWorkQ_nolock lockID myReq (snd l))
      in (dn_upd myReq (\<lambda>_. snd t) mgr)\<lparr>dnClient := rel_DNCWorkQ_lock lockID q\<rparr>)"

definition DNCWker_rm_Req_workQ :: "nat \<Rightarrow> DNClient_MGR_t \<Rightarrow> DNClient_MGR_t" where
  "DNCWker_rm_Req_workQ myReq mgr =
     (let l = acquire_DNCWorkQ_lock (dn_id mgr myReq) (ReqPrior (dnReq_comm (dn_mem mgr myReq))) (dnClient mgr); lockID = fst l;
          t = DNUDReq_test_clear_fea DNREQ_FEA_IN_WORKQ (dn_mem mgr myReq);
          q = (if fst t then rmReq_DNCWorkQ_nolock lockID myReq (snd l) else snd l)
      in (dn_upd myReq (\<lambda>_. snd t) mgr)\<lparr>dnClient := rel_DNCWorkQ_lock lockID q\<rparr>)"

definition DNCWker_peek_Req_workQ :: "DNClient_MGR_t \<Rightarrow> nat option \<times> DNClient_MGR_t" where
  "DNCWker_peek_Req_workQ mgr =
     (let l = peekReq_acquire_DNCWorkQ_lock (dnClient mgr); lockID = fst l
      in case peekReq_DNCWorkQ_nolock lockID (snd l) of
           None \<Rightarrow> (None, mgr\<lparr>dnClient := rel_DNCWorkQ_lock lockID (snd l)\<rparr>)
         | Some myReq \<Rightarrow>
             (let t = DNUDReq_test_clear_fea DNREQ_FEA_IN_WORKQ (DNUDReq_ref_Req (dn_mem mgr myReq));
                  q = (if fst t then rmReq_DNCWorkQ_nolock lockID myReq (snd l) else snd l);
                  a = dnReq_event DNREQ_E_PeekWorkQ (snd t);
                  ok = (fst a = DNREQ_A_DO_SEND);
                  req = (if ok then snd a else DNUDReq_deref_Req (snd a))
              in (if ok then Some myReq else None,
                  (dn_upd myReq (\<lambda>_. req) mgr)\<lparr>dnClient := rel_DNCWorkQ_lock lockID q\<rparr>)))"

subsection \<open>Submit, cancel, retry\<close>

definition submit_DNUData_Read_Request :: "nat option \<Rightarrow> nat \<Rightarrow> nat \<Rightarrow> nat \<Rightarrow> 'op ReqCommon_t \<Rightarrow> int \<Rightarrow> bool \<Rightarrow> bool \<Rightarrow>
    DNClient_MGR_t \<Rightarrow> u32 option \<times> DNClient_MGR_t" where
  "submit_DNUData_Read_Request alloc md_item replic_idx payload_offset callerReq bk_idx_caller send_data rw_data mgr =
     (case alloc of
        None \<Rightarrow> (None, mgr)
      | Some myReq \<Rightarrow>
          (let m1 = DNUDReq_init_Req myReq DNUDREQ_READ callerReq md_item replic_idx (mgr\<lparr>dn_live := (dn_live mgr)(myReq := True)\<rparr>);
               i = init_DNUDReq_Read payload_offset send_data rw_data ((dn_mem m1 myReq)\<lparr>caller_bkidx := bk_idx_caller\<rparr>);
               m2 = dn_upd myReq (\<lambda>_. snd i) m1
           in if \<not> fst i then (None, m2)
              else (let m3 = dn_upd myReq (\<lambda>q. (DNUDReq_ref_Req q)\<lparr>mdata_item := md_item\<rparr>) m2;
                        m4 = dn_upd myReq DNUDReq_deref_Req (DNCWker_add_Req_workQ myReq m3)
                    in (Some (dn_id m3 myReq), m4))))"

definition submit_DNUData_Write_Request :: "nat option \<Rightarrow> nat \<Rightarrow> nat \<Rightarrow> nat list \<Rightarrow> nat \<Rightarrow> 'op ReqCommon_t \<Rightarrow> int \<Rightarrow> bool \<Rightarrow> bool \<Rightarrow>
    DNClient_MGR_t \<Rightarrow> (u32 option \<times> DNClient_MGR_t) option" where
  "submit_DNUData_Write_Request alloc md_item replic_idx data_buf payload_offset callerReq bk_idx_caller send_data rw_data mgr =
     (case alloc of
        None \<Rightarrow> Some (None, mgr)
      | Some myReq \<Rightarrow>
          (let m1 = DNUDReq_init_Req myReq DNUDREQ_WRITE callerReq md_item replic_idx (mgr\<lparr>dn_live := (dn_live mgr)(myReq := True)\<rparr>)
           in Option.bind (init_DNUDReq_Write data_buf payload_offset send_data rw_data ((dn_mem m1 myReq)\<lparr>caller_bkidx := bk_idx_caller\<rparr>)) (\<lambda>i.
                let m2 = dn_upd myReq (\<lambda>_. snd i) m1
                in if \<not> fst i then Some (None, m2)
                   else (let m3 = dn_upd myReq (\<lambda>q. (DNUDReq_ref_Req q)\<lparr>mdata_item := md_item\<rparr>) m2;
                             m4 = dn_upd myReq DNUDReq_deref_Req (DNCWker_add_Req_workQ myReq m3)
                         in Some (Some (dn_id m3 myReq), m4)))))"

text \<open>One pass of \<^verbatim>\<open>DNUDReq_cancel_Req\<close> under the bucket lock: the action and the request it was given for.\<close>

definition DNUDReq_cancel_pass :: "u32 \<Rightarrow> u32 \<Rightarrow> DNClient_MGR_t \<Rightarrow> (DNUDREQ_FSM_action_t \<times> nat) option \<times> DNClient_MGR_t" where
  "DNUDReq_cancel_pass dnReqID callerID mgr =
     (let l = DNUDReqPool_acquire_plock dnReqID (UData_ReqPool mgr); lockID = fst l; m0 = mgr\<lparr>UData_ReqPool := snd l\<rparr>;
          res = (case DNUDReqPool_findReq_nolock (dn_id m0) dnReqID lockID (snd l) of
              None \<Rightarrow> (None, m0)
            | Some myReq \<Rightarrow>
                if CallerReqID (dnReq_comm (dn_mem m0 myReq)) \<noteq> callerID then (None, m0)
                else (let a = dnReq_event DNREQ_E_Cancel (dn_mem m0 myReq)
                      in if DNREQ_A_DO_CANCEL_REQ = fst a
                         then (Some (fst a, myReq), (dn_upd myReq (\<lambda>_. DNUDReq_ref_Req (snd a)) m0)
                                \<lparr>UData_ReqPool := DNUDReqPool_rmReq_nolock myReq (UData_ReqPool m0)\<rparr>)
                         else (Some (fst a, myReq), dn_upd myReq (\<lambda>_. snd a) m0)))
      in (fst res, (snd res)\<lparr>UData_ReqPool := DNUDReqPool_rel_plock lockID (UData_ReqPool (snd res))\<rparr>))"

partial_function (option) DNUDReq_cancel_Req :: "u32 \<Rightarrow> u32 \<Rightarrow> DNUDREQ_FSM_action_t \<Rightarrow> DNClient_MGR_t \<Rightarrow> DNClient_MGR_t option" where
  "DNUDReq_cancel_Req dnReqID callerID action0 mgr =
     (let p = DNUDReq_cancel_pass dnReqID callerID mgr;
          action = (case fst p of None \<Rightarrow> action0 | Some (a, _) \<Rightarrow> a)
      in if action = DNREQ_A_DO_RETRY_CANCEL_REQ then DNUDReq_cancel_Req dnReqID callerID action (snd p)
         else case fst p of
           Some (a, myReq) \<Rightarrow>
             if a = DNREQ_A_DO_CANCEL_REQ
             then Some (DNUDReq_free_Req myReq (DNCWker_rm_Req_workQ myReq (dn_upd myReq DNUDReq_deref_Req (snd p))))
             else Some (snd p)
         | None \<Rightarrow> Some (snd p))"

definition DNUDReq_retry_Req :: "nat \<Rightarrow> DNClient_MGR_t \<Rightarrow> DNClient_MGR_t" where
  "DNUDReq_retry_Req myReq mgr =
     (let a = dnReq_event DNREQ_E_RetryChkDone (dn_mem mgr myReq); m1 = dn_upd myReq (\<lambda>_. snd a) mgr
      in if DNREQ_A_DO_ADD_WORKQ \<noteq> fst a then m1
         else (let md = mdata_item (snd a)
               in DNCWker_add_Req_workQ myReq
                    (m1\<lparr>dn_mdata := (dn_mdata m1)(md := MData_wRetry_reset_DNLoc (dnLoc_idx (snd a)) (dn_mdata m1 md))\<rparr>)))"

definition DNUDReq_get_dnInfo :: "u32 \<Rightarrow> u32 \<Rightarrow> DNClient_MGR_t \<Rightarrow> (u32 \<times> u16) option \<times> DNClient_MGR_t" where
  "DNUDReq_get_dnInfo dnReqID callerID mgr =
     (let l = DNUDReqPool_acquire_plock dnReqID (UData_ReqPool mgr); lockID = fst l;
          res = (case DNUDReqPool_findReq_nolock (dn_id mgr) dnReqID lockID (snd l) of
              None \<Rightarrow> None
            | Some myReq \<Rightarrow>
                if CallerReqID (dnReq_comm (dn_mem mgr myReq)) \<noteq> callerID then None
                else Some (dn_ipaddr (dn_mem mgr myReq), dn_port (dn_mem mgr myReq)))
      in (res, mgr\<lparr>UData_ReqPool := DNUDReqPool_rel_plock lockID (snd l)\<rparr>))"

text \<open>
  Collecting the requests of a datanode that is connected again: the requests of each bucket in order, each with a
  reference; \<^verbatim>\<open>_retry_DNUDReq_rlist\<close> then retries them one by one.
\<close>

fun get_DNUDReq_rlist_bk :: "u32 \<Rightarrow> u32 \<Rightarrow> nat list \<Rightarrow> DNClient_MGR_t \<Rightarrow> nat list \<times> DNClient_MGR_t" where
  "get_DNUDReq_rlist_bk dnIPaddr dnPort [] mgr = ([], mgr)"
| "get_DNUDReq_rlist_bk dnIPaddr dnPort (cur # lst) mgr =
     (if dnIPaddr \<noteq> dn_ipaddr (dn_mem mgr cur) \<or> dnPort \<noteq> ucast (dn_port (dn_mem mgr cur))
      then get_DNUDReq_rlist_bk dnIPaddr dnPort lst mgr
      else (let c = DNUDReq_check_retryable (dn_mem mgr cur)
            in if fst c
               then (let q = get_DNUDReq_rlist_bk dnIPaddr dnPort lst (dn_upd cur (\<lambda>_. DNUDReq_ref_Req (snd c)) mgr)
                     in (cur # fst q, snd q))
               else get_DNUDReq_rlist_bk dnIPaddr dnPort lst (dn_upd cur (\<lambda>_. snd c) mgr)))"

fun DNUDReqPool_get_retryReq :: "u32 \<Rightarrow> u32 \<Rightarrow> nat list \<Rightarrow> DNClient_MGR_t \<Rightarrow> nat list \<times> DNClient_MGR_t" where
  "DNUDReqPool_get_retryReq dnIPaddr dnPort [] mgr = ([], mgr)"
| "DNUDReqPool_get_retryReq dnIPaddr dnPort (i # bks) mgr =
     (let p = get_DNUDReq_rlist_bk dnIPaddr dnPort (DNUDReq_pool (UData_ReqPool mgr) i) mgr;
          q = DNUDReqPool_get_retryReq dnIPaddr dnPort bks (snd p)
      in (fst p @ fst q, snd q))"

definition retry_DNUDReq_rlist :: "nat list \<Rightarrow> DNClient_MGR_t \<Rightarrow> DNClient_MGR_t" where
  "retry_DNUDReq_rlist lhead mgr = fold (\<lambda>cur m. dn_upd cur DNUDReq_deref_Req (DNUDReq_retry_Req cur m)) lhead mgr"

definition DNClientMgr_resend_DNUDReq :: "u32 \<Rightarrow> u32 \<Rightarrow> DNClient_MGR_t \<Rightarrow> DNClient_MGR_t" where
  "DNClientMgr_resend_DNUDReq ip prt mgr =
     (let q = DNUDReqPool_get_retryReq ip prt [0..<DNREQ_HBUCKET_SIZE] mgr
      in if length (fst q) > 0 then retry_DNUDReq_rlist (fst q) (snd q) else snd q)"

end
