(* ===== verification/Dn_Client.thy ===== *)
theory Dn_Client
  imports Dn_Request
begin

text \<open>
  The two threads that touch a datanode request after it was submitted: the socket sender
  (\<^verbatim>\<open>discoDN_client/discoC_DNC_workerfun.c\<close>) and the workers that process the answers of the datanodes
  (\<^verbatim>\<open>discoC_DNAck_worker.c\<close>, \<^verbatim>\<open>discoC_DNAck_workerfun.c\<close>), with the queues of answers between receiver and workers.
  The connection layer is an argument: \<^verbatim>\<open>dn_tx\<close> holds what it reports to one call of the sender.
\<close>

subsection \<open>Completing a request\<close>

definition dn_call_endfn :: "nat \<Rightarrow> UData_state_t \<Rightarrow> DNClient_MGR_t \<Rightarrow> DNClient_MGR_t" where
  "dn_call_endfn dn_req st mgr = mgr\<lparr>dn_endfn := dn_endfn mgr @ [(dn_req, st)]\<rparr>"

definition handle_DNAck_Write :: "nat \<Rightarrow> DNUDResp_opcode_t \<Rightarrow> DNClient_MGR_t \<Rightarrow> DNClient_MGR_t" where
  "handle_DNAck_Write dn_req access_result mgr =
     (let res = (case access_result of
            DNUDRESP_MEM_ACK \<Rightarrow> (False, dn_call_endfn dn_req UData_S_WRITE_MEM_OK mgr)
          | DNUDRESP_WRITEANDGETOLD_MEM_ACK \<Rightarrow> (False, dn_call_endfn dn_req UData_S_WRITE_MEM_OK mgr)
          | DNUDRESP_DISK_ACK \<Rightarrow> (True, dn_call_endfn dn_req UData_S_WRITE_OK mgr)
          | DNUDRESP_WRITEANDGETOLD_DISK_ACK \<Rightarrow> (True, dn_call_endfn dn_req UData_S_WRITE_OK mgr)
          | DN_ERR_DISCONNECTED \<Rightarrow> (False, dn_call_endfn dn_req UData_S_WRITE_FAIL mgr)
          | DNUDRESP_ERR_IOException \<Rightarrow> (True, dn_call_endfn dn_req UData_S_DISK_FAILURE mgr)
          | _ \<Rightarrow> (False, mgr));
          m1 = dn_upd dn_req DNUDReq_deref_Req (snd res)
      in if fst res then DNUDReq_free_Req dn_req m1 else m1)"

definition handle_DNAck_Read :: "nat \<Rightarrow> DNUDResp_opcode_t \<Rightarrow> DNClient_MGR_t \<Rightarrow> DNClient_MGR_t" where
  "handle_DNAck_Read dn_req dn_resp mgr =
     (let res = (case dn_resp of
            DNUDRESP_READ_PAYLOAD \<Rightarrow> (True, UData_S_READ_OK)
          | DNUDRESP_READ_NO_PAYLOAD \<Rightarrow> (True, UData_S_READ_OK)
          | DNUDRESP_HBIDERR \<Rightarrow> (True, UData_S_MD_ERR)
          | DNUDRESP_ERR_IOException \<Rightarrow> (True, UData_S_DISK_FAILURE)
          | DNUDRESP_ERR_IOFailLUNOK \<Rightarrow> (True, UData_S_DISK_FAILURE)
          | DNUDRESP_ERR_LUNFail \<Rightarrow> (True, UData_S_DISK_FAILURE)
          | DN_ERR_DISCONNECTED \<Rightarrow> (False, UData_S_READ_NA)
          | _ \<Rightarrow> (False, UData_S_OPERATION_ERR));
          m1 = dn_upd dn_req DNUDReq_deref_Req (dn_call_endfn dn_req (snd res) mgr)
      in if fst res then DNUDReq_free_Req dn_req m1 else m1)"

definition handle_DNAck_IOError :: "nat \<Rightarrow> DNUDResp_opcode_t \<Rightarrow> DNClient_MGR_t \<Rightarrow> DNClient_MGR_t" where
  "handle_DNAck_IOError dn_req dn_resp mgr =
     (if DNUDREQ_READ = ReqOPCode (dnReq_comm (dn_mem mgr dn_req)) then handle_DNAck_Read dn_req dn_resp mgr
      else handle_DNAck_Write dn_req dn_resp mgr)"

definition handle_dn_resp :: "DNUDResp_opcode_t \<Rightarrow> nat \<Rightarrow> DNClient_MGR_t \<Rightarrow> DNClient_MGR_t" where
  "handle_dn_resp pkt_response_type dn_req mgr =
     (case pkt_response_type of
        DNUDRESP_READ_PAYLOAD \<Rightarrow> handle_DNAck_Read dn_req pkt_response_type mgr
      | DNUDRESP_READ_NO_PAYLOAD \<Rightarrow> handle_DNAck_Read dn_req pkt_response_type mgr
      | DNUDRESP_MEM_ACK \<Rightarrow> handle_DNAck_Write dn_req pkt_response_type mgr
      | DNUDRESP_DISK_ACK \<Rightarrow> handle_DNAck_Write dn_req pkt_response_type mgr
      | DNUDRESP_WRITEANDGETOLD_MEM_ACK \<Rightarrow> handle_DNAck_Write dn_req pkt_response_type mgr
      | DNUDRESP_WRITEANDGETOLD_DISK_ACK \<Rightarrow> handle_DNAck_Write dn_req pkt_response_type mgr
      | DNUDRESP_ERR_IOException \<Rightarrow> handle_DNAck_IOError dn_req pkt_response_type mgr
      | DNUDRESP_ERR_IOFailLUNOK \<Rightarrow> handle_DNAck_IOError dn_req pkt_response_type mgr
      | DNUDRESP_ERR_LUNFail \<Rightarrow> handle_DNAck_IOError dn_req pkt_response_type mgr
      | DNUDRESP_HBIDERR \<Rightarrow> handle_DNAck_Read dn_req pkt_response_type mgr
      | _ \<Rightarrow> mgr)"

subsection \<open>Processing an answer\<close>

datatype dn_eij = ErrDNNotError | ErrDNTimeout | ErrDNException | ErrDNHBIDNotMatch

definition MAGIC_NUM :: u64 where
  "MAGIC_NUM = 0xa5a5a5a5a5a5a5a5"

record CN2DN_UDRWResp_hder_t =
  magic_num1 :: u64
  responseType :: DNUDResp_opcode_t
  pReqID :: u32
  dnid :: u32
  magic_num2 :: u64

text \<open>What error injection (off by default) does to an answer: drop it, or change its type.\<close>

definition handle_eij :: "dn_eij \<Rightarrow> CN2DN_UDRWResp_hder_t \<Rightarrow> bool \<times> CN2DN_UDRWResp_hder_t" where
  "handle_eij err_inject_type pkt =
     (case err_inject_type of
        ErrDNNotError \<Rightarrow> (False, pkt)
      | ErrDNTimeout \<Rightarrow> (True, pkt)
      | ErrDNException \<Rightarrow> (False, pkt\<lparr>responseType := DNUDRESP_ERR_IOException\<rparr>)
      | ErrDNHBIDNotMatch \<Rightarrow> (False, pkt\<lparr>responseType := DNUDRESP_HBIDERR\<rparr>))"

definition is_data_ack :: "DNUDResp_opcode_t \<Rightarrow> bool" where
  "is_data_ack acktype \<longleftrightarrow> acktype \<in> {DNUDRESP_READ_PAYLOAD, DNUDRESP_READ_NO_PAYLOAD, DNUDRESP_DISK_ACK, DNUDRESP_WRITEANDGETOLD_DISK_ACK}"

text \<open>
  \<^verbatim>\<open>_process_dnAck\<close> in two parts: finding the request (with the pool lock) and handling the answer.  The first part
  answers which request was found; None covers a wrong magic number (the connection is reset) and
  a miss (a flow-control record).  The receive times are stored in the request.
\<close>

definition process_dnAck_find :: "CN2DN_UDRWResp_hder_t \<Rightarrow> DNClient_MGR_t \<Rightarrow> nat option \<times> DNClient_MGR_t" where
  "process_dnAck_find pkt mgr =
     (if magic_num1 pkt \<noteq> MAGIC_NUM \<or> magic_num2 pkt \<noteq> MAGIC_NUM then (None, mgr)
      else find_DNUDReq_ReqPool (dnid pkt) (responseType pkt) mgr)"

definition process_dnAck_handle :: "dn_eij option \<Rightarrow> u64 \<Rightarrow> CN2DN_UDRWResp_hder_t \<Rightarrow> nat \<Rightarrow> DNClient_MGR_t \<Rightarrow> DNClient_MGR_t" where
  "process_dnAck_handle eij receive_time pkt dn_req mgr =
     (let acktype = responseType pkt;
          m1 = dn_upd dn_req (\<lambda>q. if is_mem_ack acktype then q\<lparr>t_rcvReqAck_mem := receive_time\<rparr>
                 else q\<lparr>dnReq_comm := (dnReq_comm q)\<lparr>t_rcvReqAck := receive_time\<rparr>\<rparr>) mgr
      in case (if is_data_ack acktype then eij else None) of
           None \<Rightarrow> handle_dn_resp acktype dn_req m1
         | Some err_inject_type \<Rightarrow>
             (let h = handle_eij err_inject_type pkt
              in if fst h then dn_upd dn_req DNUDReq_deref_Req m1 else handle_dn_resp (responseType (snd h)) dn_req m1))"

definition process_dnAck :: "dn_eij option \<Rightarrow> u64 \<Rightarrow> CN2DN_UDRWResp_hder_t \<Rightarrow> DNClient_MGR_t \<Rightarrow> DNClient_MGR_t" where
  "process_dnAck eij receive_time pkt mgr =
     (case process_dnAck_find pkt mgr of
        (None, m) \<Rightarrow> m
      | (Some dn_req, m) \<Rightarrow> process_dnAck_handle eij receive_time pkt dn_req m)"

subsection \<open>Sending a request\<close>

definition get_DNReadReq_opcode :: "DNUData_Req_t \<Rightarrow> DNUDReq_opcode_t" where
  "get_DNReadReq_opcode myDNReq =
     (let send_rw_payload = DNUDReq_check_feature DNREQ_FEA_SEND_PAYLOAD myDNReq;
          do_rw_IO = DNUDReq_check_feature DNREQ_FEA_DO_RW_IO myDNReq
      in if \<not> send_rw_payload \<and> do_rw_IO then DNUDREQ_READ_NO_PAYLOAD
         else if send_rw_payload \<and> \<not> do_rw_IO then DNUDREQ_READ_NO_IO
         else if \<not> send_rw_payload \<and> \<not> do_rw_IO then DNUDREQ_READ_NO_PAYLOAD_IO
         else DNUDREQ_READ)"

definition get_DNWriteReq_opcode :: "DNUData_Req_t \<Rightarrow> DNUDReq_opcode_t" where
  "get_DNWriteReq_opcode myDNReq =
     (let send_rw_payload = DNUDReq_check_feature DNREQ_FEA_SEND_PAYLOAD myDNReq;
          do_rw_IO = DNUDReq_check_feature DNREQ_FEA_DO_RW_IO myDNReq
      in if \<not> send_rw_payload \<and> do_rw_IO then DNUDREQ_WRITE_NO_PAYLOAD
         else if send_rw_payload \<and> \<not> do_rw_IO then DNUDREQ_WRITE_NO_IO
         else if \<not> send_rw_payload \<and> \<not> do_rw_IO then DNUDREQ_WRITE_NO_PAYLOAD_IO
         else DNUDREQ_WRITE)"

record dn_tx =
  tx_target :: bool            \<comment> \<open>a connected connection was found\<close>
  tx_connlost_time :: int      \<comment> \<open>how long the connection has been lost\<close>
  tx_lock_fail :: bool
  tx_packet_len :: int
  tx_send :: "nat \<Rightarrow> int \<Rightarrow> int"  \<comment> \<open>bytes sent by the n-th call\<close>
  tx_fake :: bool              \<comment> \<open>self-test mode\<close>
  tx_wait :: int               \<comment> \<open>\<open>time_wait_IOdone_conn_lost\<close>\<close>
  tx_time :: u64

definition dn_set_sent :: "DNUDReq_opcode_t \<Rightarrow> DNUData_Req_t \<Rightarrow> DNUData_Req_t" where
  "dn_set_sent op q = q\<lparr>dnReq_comm := (dnReq_comm q)\<lparr>ReqOPCode := op\<rparr>\<rparr>"

definition dn_set_time :: "u64 \<Rightarrow> DNUData_Req_t \<Rightarrow> DNUData_Req_t" where
  "dn_set_time t q = q\<lparr>dnReq_comm := (dnReq_comm q)\<lparr>t_sendReq := t\<rparr>\<rparr>"

definition DNCWker_send_readReq :: "dn_tx \<Rightarrow> nat \<Rightarrow> DNClient_MGR_t \<Rightarrow> DNClient_MGR_t" where
  "DNCWker_send_readReq tx myDNReq mgr =
     (let m1 = dn_upd myDNReq (dn_set_sent (get_DNReadReq_opcode (dn_mem mgr myDNReq))) mgr
      in if \<not> tx_target tx then handle_DNAck_Read myDNReq DN_ERR_DISCONNECTED m1
         else (let m2 = (dn_upd myDNReq (dn_set_time (tx_time tx)) m1)\<lparr>num_DNReq_waitResp := num_DNReq_waitResp m1 + 1\<rparr>;
                   bytes_tx = tx_send tx 0 (tx_packet_len tx)
               in if bytes_tx < 0 \<or> bytes_tx \<noteq> tx_packet_len tx then handle_DNAck_Read myDNReq DN_ERR_DISCONNECTED m2
                  else (let m3 = (if tx_fake tx then m2\<lparr>num_DNReq_waitResp := num_DNReq_waitResp m2 - 1\<rparr> else m2)
                        in dn_upd myDNReq DNUDReq_deref_Req m3)))"

definition send_DNWReq_fail :: "dn_tx \<Rightarrow> nat \<Rightarrow> DNClient_MGR_t \<Rightarrow> DNClient_MGR_t" where
  "send_DNWReq_fail tx dn_req mgr =
     (if tx_connlost_time tx \<ge> tx_wait tx then handle_DNAck_Write dn_req DN_ERR_DISCONNECTED mgr
      else dn_upd dn_req DNUDReq_deref_Req mgr)"

fun send_DNWReq_data :: "dn_tx \<Rightarrow> nat \<Rightarrow> (nat \<times> nat \<times> nat) list \<Rightarrow> bool" where
  "send_DNWReq_data tx n [] = True"
| "send_DNWReq_data tx n (seg # segs) =
     (let payload_sz = int (snd (snd seg)); num_of_send = tx_send tx n payload_sz
      in if num_of_send < 0 \<or> num_of_send \<noteq> payload_sz then False else send_DNWReq_data tx (n + 1) segs)"

definition send_DNWReq_gut :: "dn_tx \<Rightarrow> nat \<Rightarrow> DNClient_MGR_t \<Rightarrow> bool \<times> DNClient_MGR_t" where
  "send_DNWReq_gut tx dn_req mgr =
     (let num_of_send = tx_send tx 0 (tx_packet_len tx); dnR_opcode = ReqOPCode (dnReq_comm (dn_mem mgr dn_req))
      in if num_of_send < 0 \<or> num_of_send \<noteq> tx_packet_len tx then (False, mgr)
         else if (DNUDREQ_WRITE = dnR_opcode \<or> DNUDREQ_WRITE_NO_IO = dnR_opcode) \<and>
           \<not> send_DNWReq_data tx 1 (UDataSeg (dn_mem mgr dn_req)) then (False, mgr)
         else if tx_fake tx then (True, mgr\<lparr>num_DNReq_waitResp := num_DNReq_waitResp mgr - 1\<rparr>)
         else (True, mgr))"

definition DNCWker_send_writeReq :: "dn_tx \<Rightarrow> nat \<Rightarrow> DNClient_MGR_t \<Rightarrow> DNClient_MGR_t" where
  "DNCWker_send_writeReq tx dn_req mgr =
     (let m1 = dn_upd dn_req (dn_set_sent (get_DNWriteReq_opcode (dn_mem mgr dn_req))) mgr
      in if \<not> tx_target tx then send_DNWReq_fail tx dn_req m1
         else (let m2 = dn_upd dn_req (dn_set_time (tx_time tx)) m1
               in if tx_lock_fail tx then send_DNWReq_fail tx dn_req m2
                  else (let g = send_DNWReq_gut tx dn_req (m2\<lparr>num_DNReq_waitResp := num_DNReq_waitResp m2 + 1\<rparr>)
                        in if \<not> fst g then send_DNWReq_fail tx dn_req (snd g)
                           else dn_upd dn_req DNUDReq_deref_Req (snd g))))"

text \<open>\<^verbatim>\<open>DNCWker_send_DNUDReq\<close> announces that the request waits for an answer and then sends it.\<close>

definition dn_send_done :: "nat \<Rightarrow> DNClient_MGR_t \<Rightarrow> DNClient_MGR_t" where
  "dn_send_done dnReq mgr = dn_upd dnReq (\<lambda>q. snd (dnReq_event DNREQ_E_SendDone q)) mgr"

definition dn_send_out :: "dn_tx \<Rightarrow> nat \<Rightarrow> DNClient_MGR_t \<Rightarrow> DNClient_MGR_t" where
  "dn_send_out tx dnReq mgr =
     (case ReqOPCode (dnReq_comm (dn_mem mgr dnReq)) of
        DNUDREQ_READ \<Rightarrow> DNCWker_send_readReq tx dnReq mgr
      | DNUDREQ_WRITE \<Rightarrow> DNCWker_send_writeReq tx dnReq mgr
      | _ \<Rightarrow> mgr)"

definition DNCWker_send_DNUDReq :: "dn_tx \<Rightarrow> nat \<Rightarrow> DNClient_MGR_t \<Rightarrow> DNClient_MGR_t" where
  "DNCWker_send_DNUDReq tx dnReq mgr = dn_send_out tx dnReq (dn_send_done dnReq mgr)"

end
