(* ===== verification/Dn_Safety.thy ===== *)
theory Dn_Safety
  imports Dn_Client
begin

unbundle bit_operations_syntax

text \<open>
  The datanode client as a whole: submitters, the socket sender, the answer workers, the reconnect
  thread and the payload manager that cancels requests run interleaved.  A step is what one of them does
  under one lock; between its steps a thread holds a reference, recorded in a list of holders.  The invariant ties
  reference counts, feature bits, state machines, pool and queue together; it gives that no thread
  ever touches a request that was freed.
\<close>

subsection \<open>Interleavings\<close>

datatype dn_holder = HSend nat | HSent nat | HAck nat CN2DN_UDRWResp_hder_t | HRetry nat

primrec h_req :: "dn_holder \<Rightarrow> nat" where
  "h_req (HSend r) = r" | "h_req (HSent r) = r" | "h_req (HAck r pkt) = r" | "h_req (HRetry r) = r"

fun h_final :: "dn_holder \<Rightarrow> bool" where
  "h_final (HAck r pkt) = (\<not> is_mem_ack (responseType pkt))" | "h_final _ = False"

text \<open>The codes a datanode sends.\<close>

fun dn_known_resp :: "DNUDResp_opcode_t \<Rightarrow> bool" where
  "dn_known_resp (DNUDRESP_OTHER n) = False" | "dn_known_resp DN_ERR_DISCONNECTED = False" | "dn_known_resp _ = True"

definition DNClient_start :: "(nat \<Rightarrow> metaD_item_t) \<Rightarrow> u32 \<Rightarrow> DNClient_MGR_t" where
  "DNClient_start mds counter = \<lparr>UData_ReqPool = DNUDReqPool_init_pool, dnClient = DNCWker_init_worker, DNUDReqID_counter = counter,
     num_DNReq_waitResp = 0, lastMax_DNUDRespID = 0,
     dn_mem = \<lambda>_. \<lparr>dnReq_comm = \<lparr>ReqID = 0, CallerReqID = 0, ReqFeature = 0, ReqPrior = PRIORITY_LOW, ReqOPCode = DNUDREQ_READ,
       ReqRefCnt = 0, t_sendReq = 0, t_rcvReqAck = 0\<rparr>, dnReq_stat = \<lparr>st_dnReq = DNREQ_S_START\<rparr>, mdata_item = 0, dnLoc_idx = 0,
       dn_ipaddr = 0, dn_port = 0, dn_num_hbids = 0, arr_hbids = [], phyLoc_rlo = [], UDataSeg = [], dn_payload_offset = 0,
       caller_bkidx = 0, t_rcvReqAck_mem = 0\<rparr>,
     dn_live = \<lambda>_. False, dn_waitfree = [], dn_mdata = mds, dn_endfn = []\<rparr>"

definition dn_pooled :: "DNClient_MGR_t \<Rightarrow> nat set" where
  "dn_pooled w = dnp_mems (UData_ReqPool w)"

definition dn_queued :: "DNClient_MGR_t \<Rightarrow> nat set" where
  "dn_queued w = wq_mems (dnClient w)"

text \<open>The next request number is not in use: the 32-bit counter has not come round to an outstanding request.\<close>

definition dn_fresh_id :: "DNClient_MGR_t \<Rightarrow> bool" where
  "dn_fresh_id w \<longleftrightarrow> (\<forall>r \<in> dn_pooled w. dn_id w r \<noteq> fst (DNClientMgr_gen_DNUDReqID w))"

inductive dnc_reach :: "DNClient_MGR_t \<Rightarrow> dn_holder list \<Rightarrow> bool" where
  start: "dnc_reach (DNClient_start mds counter) []"
| submit_read: "dnc_reach w hs \<Longrightarrow> \<not> dn_live w r \<Longrightarrow> dn_fresh_id w \<Longrightarrow>
    dnc_reach (snd (submit_DNUData_Read_Request (Some r) md idx off (caller :: unit ReqCommon_t) bk True True w)) hs"
| submit_write: "dnc_reach w hs \<Longrightarrow> \<not> dn_live w r \<Longrightarrow> dn_fresh_id w \<Longrightarrow>
    submit_DNUData_Write_Request (Some r) md idx buf off (caller :: unit ReqCommon_t) bk True True w = Some (x, w') \<Longrightarrow> dnc_reach w' hs"
| peek: "dnc_reach w hs \<Longrightarrow> DNCWker_peek_Req_workQ w = (Some r, w') \<Longrightarrow> dnc_reach w' (HSend r # hs)"
| peek_none: "dnc_reach w hs \<Longrightarrow> DNCWker_peek_Req_workQ w = (None, w') \<Longrightarrow> dnc_reach w' hs"
| send_done: "dnc_reach w hs \<Longrightarrow> HSend r \<in> set hs \<Longrightarrow> dnc_reach (dn_send_done r w) (HSent r # remove1 (HSend r) hs)"
| send_out: "dnc_reach w hs \<Longrightarrow> HSent r \<in> set hs \<Longrightarrow> dnc_reach (dn_send_out tx r w) (remove1 (HSent r) hs)"
| ack: "dnc_reach w hs \<Longrightarrow> dn_known_resp (responseType pkt) \<Longrightarrow> process_dnAck_find pkt w = (Some r, w') \<Longrightarrow>
    dnc_reach w' (HAck r pkt # hs)"
| ack_miss: "dnc_reach w hs \<Longrightarrow> process_dnAck_find pkt w = (None, w') \<Longrightarrow> dnc_reach w' hs"
| ack_done: "dnc_reach w hs \<Longrightarrow> HAck r pkt \<in> set hs \<Longrightarrow>
    dnc_reach (process_dnAck_handle None t pkt r w) (remove1 (HAck r pkt) hs)"
| connback: "dnc_reach w hs \<Longrightarrow> get_DNUDReq_rlist_bk ip prt (DNUDReq_pool (UData_ReqPool w) i) w = (rs, w') \<Longrightarrow>
    dnc_reach w' (map HRetry rs @ hs)"
| retry: "dnc_reach w hs \<Longrightarrow> HRetry r \<in> set hs \<Longrightarrow>
    dnc_reach (dn_upd r DNUDReq_deref_Req (DNUDReq_retry_Req r w)) (remove1 (HRetry r) hs)"
| cancel: "dnc_reach w hs \<Longrightarrow> DNUDReq_cancel_Req dnReqID callerID DNREQ_A_NoAction w = Some w' \<Longrightarrow> dnc_reach w' hs"
| free_poll: "dnc_reach w hs \<Longrightarrow> r \<in> set (dn_waitfree w) \<Longrightarrow> dnc_reach (DNUDReq_free_Req r w) hs"

subsection \<open>The invariant\<close>

record dn_view =
  v_live :: bool
  v_req :: DNUData_Req_t
  v_pool :: bool
  v_queue :: bool
  v_wait :: nat
  v_refs :: nat
  v_finals :: nat

definition dn_view :: "DNClient_MGR_t \<Rightarrow> dn_holder list \<Rightarrow> nat \<Rightarrow> dn_view" where
  "dn_view w hs r = \<lparr>v_live = dn_live w r, v_req = dn_mem w r, v_pool = (r \<in> dn_pooled w), v_queue = (r \<in> dn_queued w),
     v_wait = count_list (dn_waitfree w) r, v_refs = count_if (\<lambda>h. h_req h = r) hs,
     v_finals = count_if (\<lambda>h. h_req h = r \<and> h_final h) hs\<rparr>"

abbreviation v_st :: "dn_view \<Rightarrow> DNUDREQ_FSM_state_t" where
  "v_st v \<equiv> st_dnReq (dnReq_stat (v_req v))"

abbreviation v_fea :: "DNMDReq_fea_t \<Rightarrow> dn_view \<Rightarrow> bool" where
  "v_fea f v \<equiv> DNUDReq_check_feature f (v_req v)"

definition dn_ok :: "dn_view \<Rightarrow> bool" where
  "dn_ok v \<longleftrightarrow>
    (if v_live v then
       ReqRefCnt (dnReq_comm (v_req v)) = int (v_refs v) \<and> v_fea DNREQ_FEA_IN_WORKQ v = v_queue v \<and>
       ReqOPCode (dnReq_comm (v_req v)) \<in> {DNUDREQ_READ, DNUDREQ_WRITE} \<and>
       v_fea DNREQ_FEA_SEND_PAYLOAD v \<and> v_fea DNREQ_FEA_DO_RW_IO v \<and>
       v_queue v = (v_pool v \<and> v_st v = DNREQ_S_WAIT_SEND) \<and> v_wait v + v_finals v \<le> 1 \<and>
       (v_pool v \<longrightarrow> v_fea DNREQ_FEA_IN_REQPOOL v \<and> v_wait v = 0 \<and> v_finals v = 0 \<and>
         v_st v \<in> {DNREQ_S_WAIT_SEND, DNREQ_S_SENDING, DNREQ_S_WAIT_RESP, DNREQ_S_RETRY_REQ, DNREQ_S_CANCEL_REQ}) \<and>
       (\<not> v_pool v \<longrightarrow> v_st v \<in> {DNREQ_S_PROCESS_RESP, DNREQ_S_CANCEL_REQ})
     else \<not> v_pool v \<and> \<not> v_queue v \<and> v_wait v = 0 \<and> v_refs v = 0)"

definition dn_bk :: "DNClient_MGR_t \<Rightarrow> nat \<Rightarrow> nat" where
  "dn_bk w r = (if PRIORITY_LOW = ReqPrior (dnReq_comm (dn_mem w r)) then unat (dn_id w r AND DNC_WORKQ_MOD_NUM) else DNC_WORKQ_HP_BK_IDX)"

definition dnc_inv :: "DNClient_MGR_t \<Rightarrow> dn_holder list \<Rightarrow> bool" where
  "dnc_inv w hs \<longleftrightarrow> dnp_inv (dn_id w) (UData_ReqPool w) \<and> wq_inv (dn_bk w) (dnClient w) \<and>
     inj_on (dn_id w) (dn_pooled w) \<and> (\<forall>r \<in> dn_pooled w. dn_id w r \<noteq> INVAL_REQID) \<and>
     (\<forall>i. \<not> DNUDReq_plock (UData_ReqPool w) i) \<and> (\<forall>i. \<not> wker_ReqPlock (dnClient w) i) \<and>
     (\<forall>r pkt. HAck r pkt \<in> set hs \<longrightarrow> dn_known_resp (responseType pkt)) \<and>
     (\<forall>r. dn_ok (dn_view w hs r))"

lemma dnc_invD:
  assumes "dnc_inv w hs"
  shows "dnp_inv (dn_id w) (UData_ReqPool w)" "wq_inv (dn_bk w) (dnClient w)" "inj_on (dn_id w) (dn_pooled w)"
    "\<And>r. r \<in> dn_pooled w \<Longrightarrow> dn_id w r \<noteq> INVAL_REQID" "\<And>i. \<not> DNUDReq_plock (UData_ReqPool w) i"
    "\<And>i. \<not> wker_ReqPlock (dnClient w) i" "\<And>r pkt. HAck r pkt \<in> set hs \<Longrightarrow> dn_known_resp (responseType pkt)"
    "\<And>r. dn_ok (dn_view w hs r)"
  using assms by (auto simp: dnc_inv_def)

text \<open>A step on one request that may take it out of the pool and may change the queue.\<close>

lemma dnc_inv_gen:
  assumes inv: "dnc_inv w hs"
    and pool: "UData_ReqPool w' = UData_ReqPool w \<or>
      r \<in> dn_pooled w \<and> UData_ReqPool w' = DNUDReqPool_rmReq_nolock r (UData_ReqPool w)"
    and queue: "wq_inv (dn_bk w) (dnClient w')" "\<And>i. \<not> wker_ReqPlock (dnClient w') i"
    and same: "dn_id w' r = dn_id w r" "ReqPrior (dnReq_comm (dn_mem w' r)) = ReqPrior (dnReq_comm (dn_mem w r))"
    and frame: "\<And>x. x \<noteq> r \<Longrightarrow> dn_view w' hs' x = dn_view w hs x"
    and known: "\<And>x pkt. HAck x pkt \<in> set hs' \<Longrightarrow> dn_known_resp (responseType pkt)"
    and ok: "dn_ok (dn_view w' hs' r)"
  shows "dnc_inv w' hs'"
proof -
  have mem: "dn_mem w' x = dn_mem w x" if "x \<noteq> r" for x using frame [OF that] by (simp add: dn_view_def)
  then have "dn_id w' x = dn_id w x \<and> ReqPrior (dnReq_comm (dn_mem w' x)) = ReqPrior (dnReq_comm (dn_mem w x))" for x
    using same by (cases "x = r") (simp_all add: dn_id_def)
  then have ids: "dn_id w' = dn_id w" "dn_bk w' = dn_bk w" by (simp_all add: fun_eq_iff dn_bk_def)
  note D = dnc_invD [OF inv]
  have "dnp_inv (dn_id w) (UData_ReqPool w') \<and> dn_pooled w' \<subseteq> dn_pooled w"
    using pool
  proof
    assume "r \<in> dn_pooled w \<and> UData_ReqPool w' = DNUDReqPool_rmReq_nolock r (UData_ReqPool w)"
    then show ?thesis using dnpool.inv_rm [OF D(1)] by (simp add: dn_pooled_def dnpool.mems_rm [OF D(1)] Diff_subset)
  qed (use D(1) in \<open>simp add: dn_pooled_def\<close>)
  then have p: "dnp_inv (dn_id w) (UData_ReqPool w')" "dn_pooled w' \<subseteq> dn_pooled w" by blast+
  have l: "\<not> DNUDReq_plock (UData_ReqPool w') i" for i using pool D(5) by (auto simp: DNUDReqPool_rmReq_nolock_def)
  have "dn_ok (dn_view w' hs' x)" for x using frame [of x] D(8) [of x] ok by (cases "x = r") auto
  then show ?thesis
    unfolding dnc_inv_def ids using p queue l known D(3,4) by (auto intro: inj_on_subset)
qed

text \<open>A step that changes one request and keeps pool and queue.\<close>

lemma dnc_inv_mem:
  assumes inv: "dnc_inv w hs"
    and same: "UData_ReqPool w' = UData_ReqPool w" "dnClient w' = dnClient w" "dn_id w' r = dn_id w r"
      "ReqPrior (dnReq_comm (dn_mem w' r)) = ReqPrior (dnReq_comm (dn_mem w r))"
    and frame: "\<And>x. x \<noteq> r \<Longrightarrow> dn_view w' hs' x = dn_view w hs x"
    and known: "\<And>x pkt. HAck x pkt \<in> set hs' \<Longrightarrow> dn_known_resp (responseType pkt)"
    and ok: "dn_ok (dn_view w' hs' r)"
  shows "dnc_inv w' hs'"
  by (rule dnc_inv_gen [OF inv _ _ _ same(3,4) frame known ok]) (use same(1,2) dnc_invD(2,6) [OF inv] in auto)

lemma dn_fea_simps [simp]:
  "DNUDReq_check_feature f (DNUDReq_set_feature g q) \<longleftrightarrow> f = g \<or> DNUDReq_check_feature f q"
  "DNUDReq_check_feature f (DNUDReq_clear_feature g q) \<longleftrightarrow> f \<noteq> g \<and> DNUDReq_check_feature f q"
  "DNUDReq_check_feature f (DNUDReq_ref_Req q) = DNUDReq_check_feature f q"
  "DNUDReq_check_feature f (DNUDReq_deref_Req q) = DNUDReq_check_feature f q"
  "DNUDReq_check_feature f (snd (dnReq_event e q)) = DNUDReq_check_feature f q"
  "DNUDReq_check_feature f (dn_set_sent op q) = DNUDReq_check_feature f q"
  "DNUDReq_check_feature f (dn_set_time t q) = DNUDReq_check_feature f q"
  by (auto simp: DNUDReq_check_feature_def DNUDReq_set_feature_def DNUDReq_clear_feature_def DNUDReq_ref_Req_def
      DNUDReq_deref_Req_def dnReq_event_def dn_set_sent_def dn_set_time_def bit_set_bit_iff bit_unset_bit_iff)

text \<open>What the request operations keep.\<close>

lemma dn_stat_simps [simp]:
  "dnReq_stat (DNUDReq_set_feature g q) = dnReq_stat q" "dnReq_stat (DNUDReq_clear_feature g q) = dnReq_stat q"
  "dnReq_stat (DNUDReq_ref_Req q) = dnReq_stat q" "dnReq_stat (DNUDReq_deref_Req q) = dnReq_stat q"
  "dnReq_stat (dn_set_sent op q) = dnReq_stat q" "dnReq_stat (dn_set_time t q) = dnReq_stat q"
  "dnReq_stat (snd (dnReq_event e q)) = snd (DNUDReq_update_state (dnReq_stat q) e)"
  by (simp_all add: DNUDReq_set_feature_def DNUDReq_clear_feature_def DNUDReq_ref_Req_def DNUDReq_deref_Req_def
      dn_set_sent_def dn_set_time_def dnReq_event_def)

lemma dn_comm_simps [simp]:
  "ReqID (dnReq_comm (DNUDReq_set_feature g q)) = ReqID (dnReq_comm q)"
  "ReqID (dnReq_comm (DNUDReq_clear_feature g q)) = ReqID (dnReq_comm q)"
  "ReqID (dnReq_comm (DNUDReq_ref_Req q)) = ReqID (dnReq_comm q)"
  "ReqID (dnReq_comm (DNUDReq_deref_Req q)) = ReqID (dnReq_comm q)"
  "ReqID (dnReq_comm (dn_set_sent op q)) = ReqID (dnReq_comm q)"
  "ReqID (dnReq_comm (dn_set_time t q)) = ReqID (dnReq_comm q)"
  "ReqPrior (dnReq_comm (DNUDReq_set_feature g q)) = ReqPrior (dnReq_comm q)"
  "ReqPrior (dnReq_comm (DNUDReq_clear_feature g q)) = ReqPrior (dnReq_comm q)"
  "ReqPrior (dnReq_comm (DNUDReq_ref_Req q)) = ReqPrior (dnReq_comm q)"
  "ReqPrior (dnReq_comm (DNUDReq_deref_Req q)) = ReqPrior (dnReq_comm q)"
  "ReqPrior (dnReq_comm (dn_set_sent op q)) = ReqPrior (dnReq_comm q)"
  "ReqPrior (dnReq_comm (dn_set_time t q)) = ReqPrior (dnReq_comm q)"
  "ReqOPCode (dnReq_comm (DNUDReq_set_feature g q)) = ReqOPCode (dnReq_comm q)"
  "ReqOPCode (dnReq_comm (DNUDReq_clear_feature g q)) = ReqOPCode (dnReq_comm q)"
  "ReqOPCode (dnReq_comm (DNUDReq_ref_Req q)) = ReqOPCode (dnReq_comm q)"
  "ReqOPCode (dnReq_comm (DNUDReq_deref_Req q)) = ReqOPCode (dnReq_comm q)"
  "ReqOPCode (dnReq_comm (dn_set_sent op q)) = op"
  "ReqOPCode (dnReq_comm (dn_set_time t q)) = ReqOPCode (dnReq_comm q)"
  "ReqRefCnt (dnReq_comm (DNUDReq_set_feature g q)) = ReqRefCnt (dnReq_comm q)"
  "ReqRefCnt (dnReq_comm (DNUDReq_clear_feature g q)) = ReqRefCnt (dnReq_comm q)"
  "ReqRefCnt (dnReq_comm (DNUDReq_ref_Req q)) = ReqRefCnt (dnReq_comm q) + 1"
  "ReqRefCnt (dnReq_comm (DNUDReq_deref_Req q)) = ReqRefCnt (dnReq_comm q) - 1"
  "ReqRefCnt (dnReq_comm (dn_set_sent op q)) = ReqRefCnt (dnReq_comm q)"
  "ReqRefCnt (dnReq_comm (dn_set_time t q)) = ReqRefCnt (dnReq_comm q)"
  "dnReq_comm (snd (dnReq_event e q)) = dnReq_comm q"
  "fst (dnReq_event e q) = fst (DNUDReq_update_state (dnReq_stat q) e)"
  by (simp_all add: DNUDReq_set_feature_def DNUDReq_clear_feature_def DNUDReq_ref_Req_def DNUDReq_deref_Req_def
      dn_set_sent_def dn_set_time_def dnReq_event_def)

lemma dn_upd_simps [simp]:
  "UData_ReqPool (dn_upd r f w) = UData_ReqPool w" "dnClient (dn_upd r f w) = dnClient w"
  "dn_live (dn_upd r f w) = dn_live w" "dn_waitfree (dn_upd r f w) = dn_waitfree w" "dn_mdata (dn_upd r f w) = dn_mdata w"
  "dn_mem (dn_upd r f w) = (dn_mem w)(r := f (dn_mem w r))" "dn_pooled (dn_upd r f w) = dn_pooled w"
  "dn_queued (dn_upd r f w) = dn_queued w" "DNUDReqID_counter (dn_upd r f w) = DNUDReqID_counter w"
  by (simp_all add: dn_upd_def dn_pooled_def dn_queued_def)

subsection \<open>Threads that give a reference back\<close>

lemma refs_remove1: "h \<in> set hs \<Longrightarrow> count_if P (remove1 h hs) = count_if P hs - of_bool (P h)"
  using count_if_remove1 [of h hs P] by simp

lemma holder_refs: "h \<in> set hs \<Longrightarrow> h_req h = r \<Longrightarrow> 0 < count_if (\<lambda>h. h_req h = r) hs"
  using count_if_remove1 [of h hs "\<lambda>h. h_req h = r"] by simp

lemma finals_le_refs: "count_if (\<lambda>h. h_req h = r \<and> h_final h) hs \<le> count_if (\<lambda>h. h_req h = r) hs"
  by (rule count_if_mono) simp

lemma holder_live:
  assumes "dnc_inv w hs" "h \<in> set hs" "h_req h = r"
  shows "dn_live w r"
  using dnc_invD(8) [OF assms(1), of r] holder_refs [OF assms(2,3)] by (auto simp: dn_ok_def dn_view_def split: if_splits)

text \<open>The parts of a request that the invariant looks at.\<close>

definition dn_like :: "DNUData_Req_t \<Rightarrow> DNUData_Req_t \<Rightarrow> bool" where
  "dn_like q q' \<longleftrightarrow> ReqID (dnReq_comm q) = ReqID (dnReq_comm q') \<and> ReqPrior (dnReq_comm q) = ReqPrior (dnReq_comm q') \<and>
     ReqOPCode (dnReq_comm q) = ReqOPCode (dnReq_comm q') \<and> ReqRefCnt (dnReq_comm q) = ReqRefCnt (dnReq_comm q') \<and>
     ReqFeature (dnReq_comm q) = ReqFeature (dnReq_comm q') \<and> dnReq_stat q = dnReq_stat q'"

lemma dn_like_fea: "dn_like q q' \<Longrightarrow> DNUDReq_check_feature f q = DNUDReq_check_feature f q'"
  by (simp add: dn_like_def DNUDReq_check_feature_def)

text \<open>A thread works on the request it holds without the pool and the queue.\<close>

definition dn_touch :: "nat \<Rightarrow> DNClient_MGR_t \<Rightarrow> DNClient_MGR_t \<Rightarrow> bool" where
  "dn_touch r w w' \<longleftrightarrow> UData_ReqPool w' = UData_ReqPool w \<and> dnClient w' = dnClient w \<and> dn_live w' = dn_live w \<and>
     dn_waitfree w' = dn_waitfree w \<and> (\<forall>x. x \<noteq> r \<longrightarrow> dn_mem w' x = dn_mem w x) \<and> dn_like (dn_mem w' r) (dn_mem w r)"

lemma dn_release:
  assumes inv: "dnc_inv w hs" and h: "h \<in> set hs" "h_req h = r" and t: "dn_touch r w w'"
  shows "dnc_inv (dn_upd r DNUDReq_deref_Req w') (remove1 h hs)"
proof -
  have live: "dn_live w r" by (rule holder_live [OF inv h])
  have refs: "0 < count_if (\<lambda>h. h_req h = r) hs" by (rule holder_refs [OF h])
  have ok: "dn_ok (dn_view w hs r)" by (rule dnc_invD(8) [OF inv])
  have t': "UData_ReqPool w' = UData_ReqPool w" "dnClient w' = dnClient w" "dn_live w' = dn_live w" "dn_waitfree w' = dn_waitfree w"
    "\<And>x. x \<noteq> r \<Longrightarrow> dn_mem w' x = dn_mem w x" "dn_like (dn_mem w' r) (dn_mem w r)"
    using t by (auto simp: dn_touch_def)
  show ?thesis
  proof (rule dnc_inv_mem [OF inv, of _ r])
    show "dn_ok (dn_view (dn_upd r DNUDReq_deref_Req w') (remove1 h hs) r)"
      using ok live refs t'(1-4) t'(6) h dn_like_fea [OF t'(6)]
      by (auto simp: dn_ok_def dn_view_def dn_pooled_def dn_queued_def refs_remove1 dn_like_def of_nat_diff Suc_leI)
  next
    fix x assume "x \<noteq> r"
    then show "dn_view (dn_upd r DNUDReq_deref_Req w') (remove1 h hs) x = dn_view w hs x"
      using t' h by (auto simp: dn_view_def dn_pooled_def dn_queued_def refs_remove1)
  next
    fix x pkt assume "HAck x pkt \<in> set (remove1 h hs)"
    then show "dn_known_resp (responseType pkt)" using dnc_invD(7) [OF inv] by (meson notin_set_remove1)
  qed (use t' in \<open>auto simp: dn_id_def dn_like_def\<close>)
qed

text \<open>Freeing a request that is neither in the pool nor claimed by a final answer.\<close>

lemma dn_free:
  assumes inv: "dnc_inv w hs" and r: "dn_live w r" "r \<notin> dn_pooled w" "count_if (\<lambda>h. h_req h = r \<and> h_final h) hs = 0"
  shows "dnc_inv (DNUDReq_free_Req r w) hs"
proof -
  let ?w = "DNUDReq_free_Req r w"
  have ok: "dn_ok (dn_view w hs r)" by (rule dnc_invD(8) [OF inv])
  have same: "UData_ReqPool ?w = UData_ReqPool w" "dnClient ?w = dnClient w" "dn_mem ?w = dn_mem w"
    by (simp_all add: DNUDReq_free_Req_def)
  have cnt: "count_list (remove1 r l) x = (if x = r then count_list l x - 1 else count_list l x)" for l x
    by (induction l) auto
  show ?thesis
  proof (rule dnc_inv_mem [OF inv, of _ r])
    show "dn_ok (dn_view ?w hs r)"
      using ok r same count_list_0_iff [of "dn_waitfree w" r]
      by (auto simp: dn_ok_def dn_view_def dn_pooled_def dn_queued_def DNUDReq_free_Req_def cnt simp del: count_list_0_iff)
  next
    fix x assume "x \<noteq> r"
    then show "dn_view ?w hs x = dn_view w hs x"
      using same by (auto simp: dn_view_def dn_pooled_def dn_queued_def DNUDReq_free_Req_def cnt)
  qed (use same dnc_invD(7) [OF inv] in \<open>auto simp: dn_id_def\<close>)
qed

lemma inv_free_poll:
  assumes inv: "dnc_inv w hs" and r: "r \<in> set (dn_waitfree w)"
  shows "dnc_inv (DNUDReq_free_Req r w) hs"
proof -
  have "count_list (dn_waitfree w) r \<noteq> 0" using r by (simp add: count_list_0_iff)
  then have "dn_live w r" "r \<notin> dn_pooled w" "count_if (\<lambda>h. h_req h = r \<and> h_final h) hs = 0"
    using dnc_invD(8) [OF inv, of r] by (auto simp: dn_ok_def dn_view_def split: if_splits)
  then show ?thesis by (rule dn_free [OF inv])
qed

text \<open>A final answer: the callback has been called, the reference is dropped and the request freed.\<close>

lemma dn_release_free:
  assumes inv: "dnc_inv w hs" and h: "h \<in> set hs" "h_req h = r" "h_final h" and t: "dn_touch r w w'"
  shows "dnc_inv (DNUDReq_free_Req r (dn_upd r DNUDReq_deref_Req w')) (remove1 h hs)"
proof -
  have live: "dn_live w r" by (rule holder_live [OF inv h(1,2)])
  have "0 < count_if (\<lambda>h. h_req h = r \<and> h_final h) hs" using count_if_remove1 [OF h(1), of "\<lambda>h. h_req h = r \<and> h_final h"] h by simp
  then have "count_if (\<lambda>h. h_req h = r \<and> h_final h) hs = 1" "r \<notin> dn_pooled w"
    using dnc_invD(8) [OF inv, of r] live by (auto simp: dn_ok_def dn_view_def)
  then have "count_if (\<lambda>h. h_req h = r \<and> h_final h) (remove1 h hs) = 0" "r \<notin> dn_pooled (dn_upd r DNUDReq_deref_Req w')"
    using t h by (auto simp: refs_remove1 dn_touch_def dn_pooled_def)
  then show ?thesis using dn_free [OF dn_release [OF inv h(1,2) t], of r] live t by (simp add: dn_touch_def)
qed

lemma dn_touch_refl: "dn_touch r w w"
  by (simp add: dn_touch_def dn_like_def)

lemma dn_touch_upd: "(\<And>q. dn_like (f q) q) \<Longrightarrow> dn_touch r w w' \<Longrightarrow> dn_touch r w (dn_upd r f w')"
  by (auto simp: dn_touch_def) (simp add: dn_like_def)

lemma dn_touch_endfn: "dn_touch r w (dn_call_endfn r' st w') = dn_touch r w w'"
  by (simp add: dn_touch_def dn_call_endfn_def)

lemma dn_touch_wait: "dn_touch r w (w'\<lparr>num_DNReq_waitResp := n\<rparr>) = dn_touch r w w'"
  by (simp add: dn_touch_def)

lemmas dn_touch_simps = dn_touch_refl dn_touch_endfn dn_touch_wait

text \<open>The handlers of an answer either only drop the reference or also free the request.\<close>

lemma handle_Write_cases:
  "\<exists>w'. dn_touch r w w' \<and> (handle_DNAck_Write r a w = dn_upd r DNUDReq_deref_Req w' \<or>
   handle_DNAck_Write r a w = DNUDReq_free_Req r (dn_upd r DNUDReq_deref_Req w') \<and> \<not> is_mem_ack a \<and> a \<noteq> DN_ERR_DISCONNECTED)"
  by (cases a; simp add: handle_DNAck_Write_def is_mem_ack_def; metis dn_touch_endfn dn_touch_refl)

lemma handle_Read_cases:
  "\<exists>w'. dn_touch r w w' \<and> (handle_DNAck_Read r a w = dn_upd r DNUDReq_deref_Req w' \<or>
   handle_DNAck_Read r a w = DNUDReq_free_Req r (dn_upd r DNUDReq_deref_Req w') \<and> \<not> is_mem_ack a \<and> a \<noteq> DN_ERR_DISCONNECTED)"
  by (cases a; simp add: handle_DNAck_Read_def is_mem_ack_def; metis dn_touch_endfn dn_touch_refl)

lemma dn_touch_trans: "dn_touch r w1 w2 \<Longrightarrow> dn_touch r w2 w3 \<Longrightarrow> dn_touch r w1 w3"
  by (auto simp: dn_touch_def dn_like_def)

lemma inv_handle:
  assumes "dnc_inv w hs" "h \<in> set hs" "h_req h = r" "dn_touch r w w1"
    and "\<not> is_mem_ack a \<Longrightarrow> a \<noteq> DN_ERR_DISCONNECTED \<Longrightarrow> h_final h"
  shows "dnc_inv (handle_DNAck_Read r a w1) (remove1 h hs)" "dnc_inv (handle_DNAck_Write r a w1) (remove1 h hs)"
proof -
  obtain w' where t: "dn_touch r w1 w'" and c: "handle_DNAck_Read r a w1 = dn_upd r DNUDReq_deref_Req w' \<or>
    handle_DNAck_Read r a w1 = DNUDReq_free_Req r (dn_upd r DNUDReq_deref_Req w') \<and> h_final h"
    using handle_Read_cases [of r w1 a] assms(5) by blast
  note t' = dn_touch_trans [OF assms(4) t]
  show "dnc_inv (handle_DNAck_Read r a w1) (remove1 h hs)"
    using c dn_release [OF assms(1-3) t'] dn_release_free [OF assms(1-3) _ t'] by auto
next
  obtain w' where t: "dn_touch r w1 w'" and c: "handle_DNAck_Write r a w1 = dn_upd r DNUDReq_deref_Req w' \<or>
    handle_DNAck_Write r a w1 = DNUDReq_free_Req r (dn_upd r DNUDReq_deref_Req w') \<and> h_final h"
    using handle_Write_cases [of r w1 a] assms(5) by blast
  note t' = dn_touch_trans [OF assms(4) t]
  show "dnc_inv (handle_DNAck_Write r a w1) (remove1 h hs)"
    using c dn_release [OF assms(1-3) t'] dn_release_free [OF assms(1-3) _ t'] by auto
qed

lemma inv_ack_done:
  assumes inv: "dnc_inv w hs" and h: "HAck r pkt \<in> set hs"
  shows "dnc_inv (process_dnAck_handle None t pkt r w) (remove1 (HAck r pkt) hs)"
proof -
  define w1 where "w1 = dn_upd r (\<lambda>q. if is_mem_ack (responseType pkt) then q\<lparr>t_rcvReqAck_mem := t\<rparr>
    else q\<lparr>dnReq_comm := (dnReq_comm q)\<lparr>t_rcvReqAck := t\<rparr>\<rparr>) w"
  have "dn_touch r w w1" unfolding w1_def by (rule dn_touch_upd [OF _ dn_touch_refl]) (simp add: dn_like_def)
  note step = inv_handle [OF inv h _ this, of "responseType pkt"]
  have "process_dnAck_handle None t pkt r w = handle_dn_resp (responseType pkt) r w1"
    by (simp add: process_dnAck_handle_def w1_def Let_def)
  then show ?thesis
    using step dnc_invD(7) [OF inv h]
    by (cases "responseType pkt") (auto simp: handle_dn_resp_def handle_DNAck_IOError_def)
qed

lemma inv_send_done:
  assumes inv: "dnc_inv w hs" and h: "HSend r \<in> set hs"
  shows "dnc_inv (dn_send_done r w) (HSent r # remove1 (HSend r) hs)"
proof (rule dnc_inv_mem [OF inv, of _ r])
  have live: "dn_live w r" using holder_live [OF inv h] by simp
  have refs: "0 < count_if (\<lambda>h. h_req h = r) hs" using holder_refs [OF h] by simp
  show "dn_ok (dn_view (dn_send_done r w) (HSent r # remove1 (HSend r) hs) r)"
    using dnc_invD(8) [OF inv, of r] live refs h
    by (cases "st_dnReq (dnReq_stat (dn_mem w r))")
      (simp_all add: dn_ok_def dn_view_def dn_send_done_def refs_remove1 fsm_defs)
next
  fix x assume "x \<noteq> r"
  then show "dn_view (dn_send_done r w) (HSent r # remove1 (HSend r) hs) x = dn_view w hs x"
    using h by (simp add: dn_view_def dn_send_done_def refs_remove1)
next
  fix x pkt assume "HAck x pkt \<in> set (HSent r # remove1 (HSend r) hs)"
  then show "dn_known_resp (responseType pkt)" using dnc_invD(7) [OF inv] by (auto dest: notin_set_remove1)
qed (simp_all add: dn_send_done_def dn_id_def)

lemma inv_send_out:
  assumes inv: "dnc_inv w hs" and h: "HSent r \<in> set hs"
  shows "dnc_inv (dn_send_out tx r w) (remove1 (HSent r) hs)"
proof -
  let ?q = "dn_mem w r" and ?hs = "remove1 (HSent r) hs"
  have "dn_live w r" using holder_live [OF inv h] by simp
  then have op: "ReqOPCode (dnReq_comm ?q) \<in> {DNUDREQ_READ, DNUDREQ_WRITE}"
    and fea: "DNUDReq_check_feature DNREQ_FEA_SEND_PAYLOAD ?q" "DNUDReq_check_feature DNREQ_FEA_DO_RW_IO ?q"
    using dnc_invD(8) [OF inv, of r] by (simp_all add: dn_ok_def dn_view_def)
  have t1: "dn_touch r w (dn_upd r (dn_set_sent (ReqOPCode (dnReq_comm ?q))) w)"
    by (simp add: dn_touch_def dn_like_def dn_set_sent_def)
  have t2: "dn_touch r w (dn_upd r (dn_set_time t) w')" if "dn_touch r w w'" for t w'
    using that by (intro dn_touch_upd) (simp_all add: dn_like_def dn_set_time_def)
  note rel = dn_release [OF inv h] and han = inv_handle [OF inv h, of r _ DN_ERR_DISCONNECTED, simplified]
  show ?thesis
  proof (cases "ReqOPCode (dnReq_comm ?q) = DNUDREQ_READ")
    case True
    have "get_DNReadReq_opcode ?q = DNUDREQ_READ" using fea by (simp add: get_DNReadReq_opcode_def)
    then show ?thesis using True rel han t1 t2
      by (auto simp: dn_send_out_def DNCWker_send_readReq_def Let_def dn_touch_wait)
  next
    case False
    then have W: "ReqOPCode (dnReq_comm ?q) = DNUDREQ_WRITE" using op by simp
    have "get_DNWriteReq_opcode ?q = DNUDREQ_WRITE" using fea by (simp add: get_DNWriteReq_opcode_def)
    moreover have "dnc_inv (send_DNWReq_fail tx r w') ?hs" if "dn_touch r w w'" for w'
      using rel [OF _ that] han [OF that] by (simp add: send_DNWReq_fail_def)
    moreover have "dn_touch r w (snd (send_DNWReq_gut tx r w'))" if "dn_touch r w w'" for w'
      using that by (auto simp: send_DNWReq_gut_def Let_def dn_touch_wait)
    ultimately show ?thesis using W rel t1 t2
      by (auto simp: dn_send_out_def DNCWker_send_writeReq_def Let_def dn_touch_wait)
  qed
qed

subsection \<open>Pool and queue\<close>

lemma plock_roundtrip:
  assumes "\<And>i. \<not> DNUDReq_plock p i"
  shows "DNUDReqPool_rel_plock (fst (DNUDReqPool_acquire_plock k p)) (snd (DNUDReqPool_acquire_plock k p)) = p"
proof -
  have "DNUDReq_plock p = (\<lambda>_. False)" using assms by auto
  then have "(DNUDReq_plock p)(i := True, i := False) = DNUDReq_plock p" for i by auto
  then show ?thesis by (simp add: DNUDReqPool_rel_plock_def DNUDReqPool_acquire_plock_def Let_def)
qed

lemma plock_pool [simp]:
  "DNUDReq_pool (snd (DNUDReqPool_acquire_plock k p)) = DNUDReq_pool p" "DNUDReq_pool (DNUDReqPool_rel_plock i p) = DNUDReq_pool p"
  "num_DNUDReq (snd (DNUDReqPool_acquire_plock k p)) = num_DNUDReq p" "num_DNUDReq (DNUDReqPool_rel_plock i p) = num_DNUDReq p"
  "fst (DNUDReqPool_acquire_plock k p) = unat k mod DNREQ_HBUCKET_SIZE"
  by (simp_all add: DNUDReqPool_rel_plock_def DNUDReqPool_acquire_plock_def Let_def)

lemma plock_ops:
  "DNUDReqPool_findReq_nolock ids k i (snd (DNUDReqPool_acquire_plock k' p)) = DNUDReqPool_findReq_nolock ids k i p"
  "DNUDReqPool_rel_plock i (DNUDReqPool_rmReq_nolock r p) = DNUDReqPool_rmReq_nolock r (DNUDReqPool_rel_plock i p)"
  "DNUDReqPool_rel_plock i (DNUDReqPool_addReq_nolock r j p) = DNUDReqPool_addReq_nolock r j (DNUDReqPool_rel_plock i p)"
  by (simp_all add: DNUDReqPool_findReq_nolock_def DNUDReqPool_rmReq_nolock_def DNUDReqPool_addReq_nolock_def DNUDReqPool_rel_plock_def)

lemma qlock_roundtrip:
  assumes "\<And>i. \<not> wker_ReqPlock q i"
  shows "rel_DNCWorkQ_lock i (q\<lparr>wker_ReqPlock := (wker_ReqPlock q)(i := True)\<rparr>) = q"
proof -
  have "wker_ReqPlock q = (\<lambda>_. False)" using assms by auto
  then have "(wker_ReqPlock q)(i := True, i := False) = wker_ReqPlock q" by auto
  then show ?thesis by (simp add: rel_DNCWorkQ_lock_def)
qed

lemma dn_pool_rec [simp]:
  "dn_mem (w\<lparr>UData_ReqPool := p\<rparr>) = dn_mem w" "dn_id (w\<lparr>UData_ReqPool := p\<rparr>) = dn_id w"
  "dn_upd r f (w\<lparr>UData_ReqPool := p\<rparr>) = (dn_upd r f w)\<lparr>UData_ReqPool := p\<rparr>"
  by (simp_all add: dn_id_def dn_upd_def fun_eq_iff)

text \<open>Without the lock flags, finding the request of an answer reads as follows.\<close>

lemma find_DNUDReq_eq:
  assumes "dnc_inv w hs"
  shows "find_DNUDReq_ReqPool k a w =
    (case DNUDReqPool_findReq_nolock (dn_id w) k (unat k mod DNREQ_HBUCKET_SIZE) (UData_ReqPool w) of
       None \<Rightarrow> (None, w)
     | Some r \<Rightarrow> (let u = find_dnReq_update_state a (DNUDReq_ref_Req (dn_mem w r))
         in if \<not> fst u then (None, dn_upd r (\<lambda>_. DNUDReq_deref_Req (snd u)) w)
            else if is_mem_ack a then (Some r, dn_upd r (\<lambda>_. snd u) w)
            else if \<not> DNUDReq_check_feature DNREQ_FEA_IN_REQPOOL (dn_mem w r)
            then (None, dn_upd r (\<lambda>_. DNUDReq_deref_Req (DNUDReq_clear_feature DNREQ_FEA_IN_REQPOOL (snd u))) w)
            else (Some r, (dn_upd r (\<lambda>_. DNUDReq_clear_feature DNREQ_FEA_IN_REQPOOL (snd u)) w)
                   \<lparr>UData_ReqPool := DNUDReqPool_rmReq_nolock r (UData_ReqPool w)\<rparr>)))"
proof -
  have p: "DNUDReqPool_rel_plock (unat k mod DNREQ_HBUCKET_SIZE) (snd (DNUDReqPool_acquire_plock k (UData_ReqPool w))) = UData_ReqPool w"
    using plock_roundtrip [OF dnc_invD(5) [OF assms], of k] by simp
  have fea: "DNUDReq_check_feature f (snd (find_dnReq_update_state a (DNUDReq_ref_Req q))) = DNUDReq_check_feature f q" for f q
    by (simp add: find_dnReq_update_state_def Let_def)
  show ?thesis
  proof (cases "DNUDReqPool_findReq_nolock (dn_id w) k (unat k mod DNREQ_HBUCKET_SIZE) (UData_ReqPool w)")
    case None
    then show ?thesis by (simp add: find_DNUDReq_ReqPool_def plock_ops Let_def p)
  next
    case (Some r)
    show ?thesis
      by (cases "fst (find_dnReq_update_state a (DNUDReq_ref_Req (dn_mem w r)))"; cases "is_mem_ack a";
          cases "DNUDReq_check_feature DNREQ_FEA_IN_REQPOOL (dn_mem w r)")
        (simp_all add: Some find_DNUDReq_ReqPool_def plock_ops Let_def p fea DNUDReq_test_clear_fea_def)
  qed
qed

lemma find_pooled:
  assumes "dnc_inv w hs" "DNUDReqPool_findReq_nolock (dn_id w) k (unat k mod DNREQ_HBUCKET_SIZE) (UData_ReqPool w) = Some r"
  shows "r \<in> dn_pooled w" "dn_id w r = k" "dn_live w r"
proof -
  show r: "r \<in> dn_pooled w" "dn_id w r = k" using dnpool.lookup_Some [OF dnc_invD(1) [OF assms(1)] assms(2)] by (auto simp: dn_pooled_def)
  show "dn_live w r" using dnc_invD(8) [OF assms(1), of r] r by (auto simp: dn_ok_def dn_view_def split: if_splits)
qed

lemma find_update_simps:
  "fst (find_dnReq_update_state a (DNUDReq_ref_Req q)) = (st_dnReq (dnReq_stat q) = DNREQ_S_WAIT_RESP)"
  "st_dnReq (dnReq_stat q) = DNREQ_S_WAIT_RESP \<Longrightarrow> st_dnReq (dnReq_stat (snd (find_dnReq_update_state a (DNUDReq_ref_Req q)))) =
     (if is_mem_ack a then DNREQ_S_WAIT_RESP else DNREQ_S_PROCESS_RESP)"
  "st_dnReq (dnReq_stat q) \<noteq> DNREQ_S_WAIT_RESP \<Longrightarrow> dnReq_stat (snd (find_dnReq_update_state a (DNUDReq_ref_Req q))) = dnReq_stat q"
  "dnReq_comm (snd (find_dnReq_update_state a (DNUDReq_ref_Req q))) = dnReq_comm (DNUDReq_ref_Req q)"
  "DNUDReq_check_feature f (snd (find_dnReq_update_state a (DNUDReq_ref_Req q))) = DNUDReq_check_feature f q"
  by (cases "st_dnReq (dnReq_stat q)"; simp add: find_dnReq_update_state_def fsm_defs Let_def)+

lemma inv_find:
  assumes inv: "dnc_inv w hs"
  shows "case find_DNUDReq_ReqPool k (responseType pkt) w of
     (None, w') \<Rightarrow> dnc_inv w' hs | (Some r, w') \<Rightarrow> dn_known_resp (responseType pkt) \<longrightarrow> dnc_inv w' (HAck r pkt # hs)"
proof (cases "DNUDReqPool_findReq_nolock (dn_id w) k (unat k mod DNREQ_HBUCKET_SIZE) (UData_ReqPool w)")
  case None
  then show ?thesis using inv by (simp add: find_DNUDReq_eq [OF inv])
next
  case (Some r)
  note r = find_pooled [OF inv Some]
  let ?q = "dn_mem w r" and ?a = "responseType pkt"
  let ?u = "snd (find_dnReq_update_state ?a (DNUDReq_ref_Req ?q))"
  have ok: "dn_ok (dn_view w hs r)" by (rule dnc_invD(8) [OF inv])
  have fea: "DNUDReq_check_feature DNREQ_FEA_IN_REQPOOL ?q" using ok r by (simp add: dn_ok_def dn_view_def)
  have ack: "dn_known_resp ?a \<Longrightarrow> HAck x p \<in> set (HAck r pkt # hs) \<Longrightarrow> dn_known_resp (responseType p)" for x p
    using dnc_invD(7) [OF inv] by auto
  note upd = find_DNUDReq_eq [OF inv, of k ?a, unfolded Some] find_update_simps
  show ?thesis
  proof (cases "st_dnReq (dnReq_stat ?q) = DNREQ_S_WAIT_RESP")
    case False
    have "dnc_inv (dn_upd r (\<lambda>_. DNUDReq_deref_Req ?u) w) hs"
      by (rule dnc_inv_mem [OF inv, of _ r])
        (use ok r False dnc_invD(7) [OF inv] in \<open>auto simp: dn_id_def dn_view_def dn_ok_def find_update_simps\<close>)
    then show ?thesis using False by (simp add: upd)
  next
    case True
    show ?thesis
    proof (cases "is_mem_ack ?a")
      case mem: True
      have "dnc_inv (dn_upd r (\<lambda>_. ?u) w) (HAck r pkt # hs)" if "dn_known_resp ?a"
        by (rule dnc_inv_mem [OF inv, of _ r])
          (use ok r True mem ack [OF that] in \<open>auto simp: dn_id_def dn_view_def dn_ok_def find_update_simps\<close>)
      then show ?thesis using True mem by (simp add: upd)
    next
      case fin: False
      let ?w = "(dn_upd r (\<lambda>_. DNUDReq_clear_feature DNREQ_FEA_IN_REQPOOL ?u) w)
        \<lparr>UData_ReqPool := DNUDReqPool_rmReq_nolock r (UData_ReqPool w)\<rparr>"
      have p: "dn_pooled ?w = dn_pooled w - {r}" "dn_queued ?w = dn_queued w"
        using dnpool.mems_rm [OF dnc_invD(1) [OF inv]] by (simp_all add: dn_pooled_def dn_queued_def)
      have "dnc_inv ?w (HAck r pkt # hs)" if "dn_known_resp ?a"
        by (rule dnc_inv_gen [OF inv, of _ r])
          (use ok r True fin ack [OF that] p dnc_invD(2,6) [OF inv] in \<open>auto simp: dn_id_def dn_view_def dn_ok_def find_update_simps\<close>)
      then show ?thesis using True fin fea by (simp add: upd)
    qed
  qed
qed

lemma qlock_ops:
  "rel_DNCWorkQ_lock i (rmReq_DNCWorkQ_nolock j r q) = rmReq_DNCWorkQ_nolock j r (rel_DNCWorkQ_lock i q)"
  "rel_DNCWorkQ_lock i (addReq_DNCWorkQ_nolock j r q) = addReq_DNCWorkQ_nolock j r (rel_DNCWorkQ_lock i q)"
  "peekReq_DNCWorkQ_nolock j (rel_DNCWorkQ_lock i q) = peekReq_DNCWorkQ_nolock j q"
  "wker_ReqPlock (rmReq_DNCWorkQ_nolock j r q) = wker_ReqPlock q" "wker_ReqPlock (addReq_DNCWorkQ_nolock j r q) = wker_ReqPlock q"
  by (simp_all add: rel_DNCWorkQ_lock_def rmReq_DNCWorkQ_nolock_def addReq_DNCWorkQ_nolock_def peekReq_DNCWorkQ_nolock_def Let_def)

lemma acquire_rel:
  assumes "\<And>i. \<not> wker_ReqPlock q i"
  shows "rel_DNCWorkQ_lock (fst (acquire_DNCWorkQ_lock k p q)) (snd (acquire_DNCWorkQ_lock k p q)) = q"
  using qlock_roundtrip [OF assms] by (simp add: acquire_DNCWorkQ_lock_def Let_def)

lemma probe_nolock: "(\<And>i. \<not> wker_ReqPlock q i) \<Longrightarrow> \<not> wker_ReqPlock (snd (DNCWker_probe q)) i"
  by (auto simp: DNCWker_probe_def peekReq_acquire_DNCWorkQ_lock_def rel_DNCWorkQ_lock_def Let_def)

lemma peek_eq:
  "DNCWker_peek_Req_workQ w =
    (let p = DNCWker_probe (dnClient w) in
     case peekReq_DNCWorkQ_nolock (fst p) (snd p) of
       None \<Rightarrow> (None, w\<lparr>dnClient := snd p\<rparr>)
     | Some r \<Rightarrow>
         (let t = DNUDReq_test_clear_fea DNREQ_FEA_IN_WORKQ (DNUDReq_ref_Req (dn_mem w r));
              a = dnReq_event DNREQ_E_PeekWorkQ (snd t); ok = (fst a = DNREQ_A_DO_SEND)
          in (if ok then Some r else None,
              (dn_upd r (\<lambda>_. if ok then snd a else DNUDReq_deref_Req (snd a)) w)
              \<lparr>dnClient := if fst t then rmReq_DNCWorkQ_nolock (fst p) r (snd p) else snd p\<rparr>)))"
  by (simp add: DNCWker_peek_Req_workQ_def DNCWker_probe_def Let_def qlock_ops if_distrib [of "rel_DNCWorkQ_lock _"]
      split: option.split)

lemma inv_peek:
  assumes inv: "dnc_inv w hs"
  shows "case DNCWker_peek_Req_workQ w of (None, w') \<Rightarrow> dnc_inv w' hs | (Some r, w') \<Rightarrow> dnc_inv w' (HSend r # hs)"
proof -
  let ?p = "DNCWker_probe (dnClient w)"
  note D = dnc_invD [OF inv]
  have p: "wq_inv (dn_bk w) (snd ?p)" "wq_mems (snd ?p) = dn_queued w" "\<And>i. \<not> wker_ReqPlock (snd ?p) i"
    using dnq.inv_probe [OF D(2)] dnq.mems_probe probe_nolock [OF D(6)] by (simp_all add: dn_queued_def)
  show ?thesis
  proof (cases "peekReq_DNCWorkQ_nolock (fst ?p) (snd ?p)")
    case None
    have "dnc_inv (w\<lparr>dnClient := snd ?p\<rparr>) hs"
      by (rule dnc_inv_gen [OF inv, of _ 0])
        (use p D(7) D(8) [of 0] in \<open>auto simp: dn_id_def dn_view_def dn_pooled_def dn_queued_def\<close>)
    then show ?thesis using None by (simp add: peek_eq Let_def)
  next
    case (Some r)
    have r: "r \<in> dn_queued w" "dn_bk w r = fst ?p" using dnq.first_Some [OF p(1) Some] p(2) by auto
    have ok: "dn_ok (dn_view w hs r)" by (rule D(8))
    then have st: "dn_live w r" "r \<in> dn_pooled w" "st_dnReq (dnReq_stat (dn_mem w r)) = DNREQ_S_WAIT_SEND"
      and fea: "DNUDReq_check_feature DNREQ_FEA_IN_WORKQ (dn_mem w r)"
      using r(1) by (auto simp: dn_ok_def dn_view_def split: if_splits)
    let ?q = "rmReq_DNCWorkQ_nolock (fst ?p) r (snd ?p)"
    let ?u = "snd (dnReq_event DNREQ_E_PeekWorkQ (DNUDReq_clear_feature DNREQ_FEA_IN_WORKQ (DNUDReq_ref_Req (dn_mem w r))))"
    have q: "wq_inv (dn_bk w) ?q" "wq_mems ?q = dn_queued w - {r}" "\<And>i. \<not> wker_ReqPlock ?q i"
      using dnq.inv_del [OF p(1), of r] dnq.mems_del [OF p(1)] r p(2,3) by (simp_all add: qlock_ops)
    have "dnc_inv ((dn_upd r (\<lambda>_. ?u) w)\<lparr>dnClient := ?q\<rparr>) (HSend r # hs)"
      by (rule dnc_inv_gen [OF inv, of _ r])
        (use q ok st fea D(7) r in \<open>auto simp: dn_id_def dn_view_def dn_pooled_def dn_queued_def dn_ok_def fsm_defs\<close>)
    then show ?thesis using Some fea st by (simp add: peek_eq DNUDReq_test_clear_fea_def Let_def fsm_defs)
  qed
qed

lemma acquire_bk: "fst (acquire_DNCWorkQ_lock (dn_id w r) (ReqPrior (dnReq_comm (dn_mem w r))) q) = dn_bk w r"
  by (simp add: acquire_DNCWorkQ_lock_def dn_bk_def Let_def)

lemma add_workQ_eq:
  assumes "\<And>i. \<not> wker_ReqPlock (dnClient w) i"
  shows "DNCWker_add_Req_workQ r w = (dn_upd r (DNUDReq_set_feature DNREQ_FEA_IN_WORKQ) w)
    \<lparr>dnClient := if DNUDReq_check_feature DNREQ_FEA_IN_WORKQ (dn_mem w r) then dnClient w
       else addReq_DNCWorkQ_nolock (dn_bk w r) r (dnClient w)\<rparr>"
  using acquire_rel [OF assms, of "dn_id w r" "ReqPrior (dnReq_comm (dn_mem w r))"]
  by (simp add: DNCWker_add_Req_workQ_def Let_def DNUDReq_test_set_fea_def qlock_ops acquire_bk dn_upd_def
      if_distrib [of "rel_DNCWorkQ_lock _"])

lemma rm_workQ_eq:
  assumes "\<And>i. \<not> wker_ReqPlock (dnClient w) i"
  shows "DNCWker_rm_Req_workQ r w = (dn_upd r (DNUDReq_clear_feature DNREQ_FEA_IN_WORKQ) w)
    \<lparr>dnClient := if DNUDReq_check_feature DNREQ_FEA_IN_WORKQ (dn_mem w r)
       then rmReq_DNCWorkQ_nolock (dn_bk w r) r (dnClient w) else dnClient w\<rparr>"
  using acquire_rel [OF assms, of "dn_id w r" "ReqPrior (dnReq_comm (dn_mem w r))"]
  by (simp add: DNCWker_rm_Req_workQ_def Let_def DNUDReq_test_clear_fea_def qlock_ops acquire_bk dn_upd_def
      if_distrib [of "rel_DNCWorkQ_lock _"])

lemma inv_retry:
  assumes inv: "dnc_inv w hs" and h: "HRetry r \<in> set hs"
  shows "dnc_inv (dn_upd r DNUDReq_deref_Req (DNUDReq_retry_Req r w)) (remove1 (HRetry r) hs)"
proof (cases "st_dnReq (dnReq_stat (dn_mem w r)) = DNREQ_S_RETRY_REQ")
  case False
  then have e: "DNUDReq_retry_Req r w = dn_upd r (\<lambda>q. snd (dnReq_event DNREQ_E_RetryChkDone q)) w"
    "dn_like (snd (dnReq_event DNREQ_E_RetryChkDone (dn_mem w r))) (dn_mem w r)"
    by (cases "st_dnReq (dnReq_stat (dn_mem w r))"; simp add: DNUDReq_retry_Req_def dn_like_def fsm_defs Let_def dnReq_event_def dn_upd_def)+
  show ?thesis unfolding e(1)
    by (rule dn_release [OF inv h]) (use e(2) in \<open>simp_all add: dn_touch_def\<close>)
next
  case True
  note D = dnc_invD [OF inv]
  have live: "dn_live w r" using holder_live [OF inv h] by simp
  have refs: "0 < count_if (\<lambda>h. h_req h = r) hs" using holder_refs [OF h] by simp
  have ok: "dn_ok (dn_view w hs r)" by (rule D(8))
  then have st: "r \<in> dn_pooled w" "r \<notin> dn_queued w" and fea: "\<not> DNUDReq_check_feature DNREQ_FEA_IN_WORKQ (dn_mem w r)"
    using live True by (auto simp: dn_ok_def dn_view_def)
  have "dn_bk w r < DNC_WORKQ_TOTAL_NUM"
    using gain_qlock_bound [of "dn_id w r" "ReqPrior (dnReq_comm (dn_mem w r))"] by (simp add: DNC_is_NNC [symmetric] acquire_bk wq_consts)
  then have q: "wq_inv (dn_bk w) (addReq_DNCWorkQ_nolock (dn_bk w r) r (dnClient w))"
    "wq_mems (addReq_DNCWorkQ_nolock (dn_bk w r) r (dnClient w)) = insert r (dn_queued w)"
    using dnq.inv_put [OF D(2), of r] dnq.mems_put st(2) by (simp_all add: dn_queued_def)
  have h': "HAck x pkt \<in> set (remove1 (HRetry r) hs) \<Longrightarrow> dn_known_resp (responseType pkt)" for x pkt
    using D(7) by (meson notin_set_remove1)
  show ?thesis
    by (rule dnc_inv_gen [OF inv, of _ r])
      (use True q D(2,6) ok st live refs fea h h' in \<open>auto simp: DNUDReq_retry_Req_def add_workQ_eq dn_id_def dn_view_def dn_pooled_def
        dn_queued_def dn_ok_def fsm_defs Let_def qlock_ops refs_remove1 dn_bk_def\<close>)
qed

lemma dnc_inv_perm:
  assumes "dnc_inv w hs" "\<And>P. count_if P hs' = count_if P hs" "set hs' = set hs"
  shows "dnc_inv w hs'"
  using assms by (auto simp: dnc_inv_def dn_view_def)

lemma inv_connback:
  assumes "dnc_inv w hs" "set lst \<subseteq> dn_pooled w" "get_DNUDReq_rlist_bk ip prt lst w = (rs, w')"
  shows "dnc_inv w' (map HRetry rs @ hs)"
  using assms
proof (induction lst arbitrary: w hs rs)
  case (Cons cur lst)
  note inv = Cons.prems(1)
  let ?c = "snd (DNUDReq_check_retryable (dn_mem w cur))"
  have ok: "dn_ok (dn_view w hs cur)" and pool: "cur \<in> dn_pooled w" using dnc_invD(8) [OF inv] Cons.prems(2) by auto
  then have live: "dn_live w cur" by (auto simp: dn_ok_def dn_view_def split: if_splits)
  show ?case
  proof (cases "ip \<noteq> dn_ipaddr (dn_mem w cur) \<or> prt \<noteq> ucast (dn_port (dn_mem w cur))")
    case True
    then show ?thesis using Cons by simp
  next
    case same: False
    show ?thesis
    proof (cases "st_dnReq (dnReq_stat (dn_mem w cur)) = DNREQ_S_WAIT_RESP")
      case True
      let ?w = "dn_upd cur (\<lambda>_. DNUDReq_ref_Req ?c) w"
      have "dnc_inv ?w (HRetry cur # hs)"
        by (rule dnc_inv_mem [OF inv, of _ cur])
          (use True ok pool live dnc_invD(7) [OF inv] in \<open>auto simp: DNUDReq_check_retryable_def dn_id_def dn_view_def dn_ok_def fsm_defs Let_def\<close>)
      moreover obtain rs' where "rs = cur # rs'" "get_DNUDReq_rlist_bk ip prt lst ?w = (rs', w')"
        using Cons.prems(3) same True by (auto simp: DNUDReq_check_retryable_def fsm_defs Let_def split: prod.splits)
      ultimately have "dnc_inv w' (map HRetry rs' @ HRetry cur # hs)" "rs = cur # rs'"
        using Cons.IH [of ?w "HRetry cur # hs" rs'] Cons.prems(2) by auto
      then show ?thesis by (auto intro: dnc_inv_perm)
    next
      case False
      have "dnc_inv (dn_upd cur (\<lambda>_. ?c) w) hs"
        by (rule dnc_inv_mem [OF inv, of _ cur])
          (use False ok pool live dnc_invD(7) [OF inv] in
            \<open>auto simp: DNUDReq_check_retryable_def dn_id_def dn_view_def dn_ok_def fsm_defs Let_def split: DNUDREQ_FSM_state_t.splits\<close>)
      moreover have "get_DNUDReq_rlist_bk ip prt lst (dn_upd cur (\<lambda>_. ?c) w) = (rs, w')"
        using Cons.prems(3) same False
        by (cases "st_dnReq (dnReq_stat (dn_mem w cur))") (simp_all add: DNUDReq_check_retryable_def fsm_defs Let_def)
      ultimately show ?thesis using Cons.IH [of _ hs rs] Cons.prems(2) by auto
    qed
  qed
qed simp

subsection \<open>Cancelling\<close>

lemma cancel_pass_eq:
  assumes "dnc_inv w hs"
  shows "DNUDReq_cancel_pass k c w =
    (case DNUDReqPool_findReq_nolock (dn_id w) k (unat k mod DNREQ_HBUCKET_SIZE) (UData_ReqPool w) of
       None \<Rightarrow> (None, w)
     | Some r \<Rightarrow> if CallerReqID (dnReq_comm (dn_mem w r)) \<noteq> c then (None, w)
         else (let a = dnReq_event DNREQ_E_Cancel (dn_mem w r)
               in if DNREQ_A_DO_CANCEL_REQ = fst a
                  then (Some (fst a, r), (dn_upd r (\<lambda>_. DNUDReq_ref_Req (snd a)) w)
                         \<lparr>UData_ReqPool := DNUDReqPool_rmReq_nolock r (UData_ReqPool w)\<rparr>)
                  else (Some (fst a, r), dn_upd r (\<lambda>_. snd a) w)))"
proof -
  have p: "DNUDReqPool_rel_plock (unat k mod DNREQ_HBUCKET_SIZE) (snd (DNUDReqPool_acquire_plock k (UData_ReqPool w))) = UData_ReqPool w"
    using plock_roundtrip [OF dnc_invD(5) [OF assms], of k] by simp
  show ?thesis
    by (cases "DNUDReqPool_findReq_nolock (dn_id w) k (unat k mod DNREQ_HBUCKET_SIZE) (UData_ReqPool w)")
      (simp_all add: DNUDReq_cancel_pass_def plock_ops Let_def p)
qed

text \<open>What a cancel leaves behind, by the state of the request.\<close>

definition dn_cancelled :: "nat \<Rightarrow> DNClient_MGR_t \<Rightarrow> DNClient_MGR_t" where
  "dn_cancelled r w = DNUDReq_free_Req r (DNCWker_rm_Req_workQ r (dn_upd r DNUDReq_deref_Req
     ((dn_upd r (\<lambda>q. DNUDReq_ref_Req (snd (dnReq_event DNREQ_E_Cancel q))) w)
      \<lparr>UData_ReqPool := DNUDReqPool_rmReq_nolock r (UData_ReqPool w)\<rparr>)))"

definition dn_cancel_spec :: "u32 \<Rightarrow> u32 \<Rightarrow> DNClient_MGR_t \<Rightarrow> DNClient_MGR_t" where
  "dn_cancel_spec k c w =
    (case DNUDReqPool_findReq_nolock (dn_id w) k (unat k mod DNREQ_HBUCKET_SIZE) (UData_ReqPool w) of
       None \<Rightarrow> w
     | Some r \<Rightarrow> if CallerReqID (dnReq_comm (dn_mem w r)) \<noteq> c then w
         else (case st_dnReq (dnReq_stat (dn_mem w r)) of
             DNREQ_S_CANCEL_REQ \<Rightarrow> w
           | DNREQ_S_RETRY_REQ \<Rightarrow> dn_upd r (\<lambda>q. q\<lparr>dnReq_stat := \<lparr>st_dnReq = DNREQ_S_CANCEL_REQ\<rparr>\<rparr>) w
           | _ \<Rightarrow> dn_cancelled r w))"

lemma pooled_states:
  assumes "dnc_inv w hs" "r \<in> dn_pooled w"
  shows "st_dnReq (dnReq_stat (dn_mem w r)) \<in>
    {DNREQ_S_WAIT_SEND, DNREQ_S_SENDING, DNREQ_S_WAIT_RESP, DNREQ_S_RETRY_REQ, DNREQ_S_CANCEL_REQ}"
  using dnc_invD(8) [OF assms(1), of r] assms(2) by (auto simp: dn_ok_def dn_view_def split: if_splits)

lemma dn_upd_id: "f (dn_mem w r) = dn_mem w r \<Longrightarrow> dn_upd r f w = w"
  by (simp add: dn_upd_def)

lemma fsm_cancel_simps:
  "st_dnReq s \<in> {DNREQ_S_WAIT_SEND, DNREQ_S_SENDING, DNREQ_S_WAIT_RESP} \<Longrightarrow>
     DNUDReq_update_state s DNREQ_E_Cancel = (DNREQ_A_DO_CANCEL_REQ, \<lparr>st_dnReq = DNREQ_S_CANCEL_REQ\<rparr>)"
  "st_dnReq s = DNREQ_S_RETRY_REQ \<Longrightarrow> DNUDReq_update_state s DNREQ_E_Cancel = (DNREQ_A_DO_RETRY_CANCEL_REQ, \<lparr>st_dnReq = DNREQ_S_CANCEL_REQ\<rparr>)"
  "st_dnReq s = DNREQ_S_CANCEL_REQ \<Longrightarrow> DNUDReq_update_state s DNREQ_E_Cancel = (DNREQ_A_NoAction, s)"
  by (cases s; auto simp: fsm_defs)+

lemma inv_cancel_retry:
  assumes inv: "dnc_inv w hs" and r: "r \<in> dn_pooled w" "st_dnReq (dnReq_stat (dn_mem w r)) = DNREQ_S_RETRY_REQ"
  shows "dnc_inv (dn_upd r (\<lambda>q. q\<lparr>dnReq_stat := \<lparr>st_dnReq = DNREQ_S_CANCEL_REQ\<rparr>\<rparr>) w) hs"
proof (rule dnc_inv_mem [OF inv, of _ r])
  have "DNUDReq_check_feature f (q\<lparr>dnReq_stat := s\<rparr>) = DNUDReq_check_feature f q" for f q s
    by (simp add: DNUDReq_check_feature_def)
  then show "dn_ok (dn_view (dn_upd r (\<lambda>q. q\<lparr>dnReq_stat := \<lparr>st_dnReq = DNREQ_S_CANCEL_REQ\<rparr>\<rparr>) w) hs r)"
    using dnc_invD(8) [OF inv, of r] r by (auto simp: dn_ok_def dn_view_def split: if_splits)
qed (use dnc_invD(7) [OF inv] in \<open>auto simp: dn_id_def dn_view_def\<close>)

text \<open>The cancel loop always comes back.\<close>

lemma cancel_returns:
  assumes inv: "dnc_inv w hs"
  shows "DNUDReq_cancel_Req k c DNREQ_A_NoAction w = Some (dn_cancel_spec k c w)"
proof (cases "DNUDReqPool_findReq_nolock (dn_id w) k (unat k mod DNREQ_HBUCKET_SIZE) (UData_ReqPool w)")
  case None
  then show ?thesis by (simp add: DNUDReq_cancel_Req.simps cancel_pass_eq [OF inv] dn_cancel_spec_def)
next
  case (Some r)
  note r = find_pooled [OF inv Some]
  let ?st = "st_dnReq (dnReq_stat (dn_mem w r))"
  consider (caller) "CallerReqID (dnReq_comm (dn_mem w r)) \<noteq> c"
    | (cancel) "CallerReqID (dnReq_comm (dn_mem w r)) = c" "?st \<in> {DNREQ_S_WAIT_SEND, DNREQ_S_SENDING, DNREQ_S_WAIT_RESP}"
    | (retry) "CallerReqID (dnReq_comm (dn_mem w r)) = c" "?st = DNREQ_S_RETRY_REQ"
    | (gone) "CallerReqID (dnReq_comm (dn_mem w r)) = c" "?st = DNREQ_S_CANCEL_REQ"
    using pooled_states [OF inv r(1)] by blast
  then show ?thesis
  proof cases
    case caller
    then show ?thesis by (simp add: DNUDReq_cancel_Req.simps cancel_pass_eq [OF inv] dn_cancel_spec_def Some)
  next
    case cancel
    then show ?thesis
      by (auto simp: DNUDReq_cancel_Req.simps cancel_pass_eq [OF inv] dn_cancel_spec_def Some fsm_cancel_simps Let_def
          dn_cancelled_def dn_upd_def)
  next
    case gone
    then show ?thesis
      by (simp add: DNUDReq_cancel_Req.simps cancel_pass_eq [OF inv] dn_cancel_spec_def Some fsm_cancel_simps Let_def
          dn_upd_id dnReq_event_def)
  next
    case retry
    let ?w = "dn_upd r (\<lambda>q. q\<lparr>dnReq_stat := \<lparr>st_dnReq = DNREQ_S_CANCEL_REQ\<rparr>\<rparr>) w"
    have w: "DNUDReq_cancel_pass k c w = (Some (DNREQ_A_DO_RETRY_CANCEL_REQ, r), ?w)"
      using retry by (simp add: cancel_pass_eq [OF inv] Some fsm_cancel_simps Let_def dnReq_event_def dn_upd_def)
    have "dn_id ?w = dn_id w" by (simp add: fun_eq_iff dn_id_def)
    then have "DNUDReq_cancel_pass k c ?w = (Some (DNREQ_A_NoAction, r), ?w)"
      using retry Some by (simp add: cancel_pass_eq [OF inv_cancel_retry [OF inv r(1) retry(2)]] fsm_cancel_simps Let_def dnReq_event_def dn_upd_id)
    then show ?thesis
      using retry Some w by (simp add: DNUDReq_cancel_Req.simps [of k c _ w] DNUDReq_cancel_Req.simps [of k c _ ?w] dn_cancel_spec_def)
  qed
qed

lemma inv_cancelled:
  assumes inv: "dnc_inv w hs" and r: "r \<in> dn_pooled w" "dn_live w r"
    and st: "st_dnReq (dnReq_stat (dn_mem w r)) \<in> {DNREQ_S_WAIT_SEND, DNREQ_S_SENDING, DNREQ_S_WAIT_RESP}"
  shows "dnc_inv (dn_cancelled r w) hs"
proof -
  note D = dnc_invD [OF inv]
  let ?q = "if r \<in> dn_queued w then rmReq_DNCWorkQ_nolock (dn_bk w r) r (dnClient w) else dnClient w"
  let ?f = "\<lambda>q. DNUDReq_clear_feature DNREQ_FEA_IN_WORKQ (DNUDReq_deref_Req (DNUDReq_ref_Req (snd (dnReq_event DNREQ_E_Cancel q))))"
  let ?w = "w\<lparr>UData_ReqPool := DNUDReqPool_rmReq_nolock r (UData_ReqPool w), dn_mem := (dn_mem w)(r := ?f (dn_mem w r)), dnClient := ?q\<rparr>"
  have ok: "dn_ok (dn_view w hs r)" by (rule D(8))
  then have fea: "DNUDReq_check_feature DNREQ_FEA_IN_WORKQ (dn_mem w r) = (r \<in> dn_queued w)"
    using r by (simp add: dn_ok_def dn_view_def)
  have eq: "dn_cancelled r w = DNUDReq_free_Req r ?w"
    unfolding dn_cancelled_def by (subst rm_workQ_eq) (use D(6) fea in \<open>auto simp: dn_upd_def dn_bk_def dn_id_def\<close>)
  have q: "wq_inv (dn_bk w) ?q" "wq_mems ?q = dn_queued w - {r}" "\<And>i. \<not> wker_ReqPlock ?q i"
    using dnq.inv_del [OF D(2), of r] dnq.mems_del [OF D(2)] D(2,6) by (auto simp: dn_queued_def qlock_ops)
  have p: "dn_pooled ?w = dn_pooled w - {r}" "dn_queued ?w = dn_queued w - {r}"
    using dnpool.mems_rm [OF D(1)] q(2) by (simp_all add: dn_pooled_def dn_queued_def)
  have inv': "dnc_inv ?w hs"
    by (rule dnc_inv_gen [OF inv, of _ r])
      (use q p ok r st D(7) in \<open>auto simp: dn_id_def dn_view_def dn_ok_def fsm_cancel_simps\<close>)
  have "count_if (\<lambda>h. h_req h = r \<and> h_final h) hs = 0" using ok r by (simp add: dn_ok_def dn_view_def)
  then show ?thesis unfolding eq using dn_free [OF inv', of r] r p by simp
qed

lemma inv_cancel:
  assumes inv: "dnc_inv w hs" and w': "DNUDReq_cancel_Req k c DNREQ_A_NoAction w = Some w'"
  shows "dnc_inv w' hs"
proof (cases "DNUDReqPool_findReq_nolock (dn_id w) k (unat k mod DNREQ_HBUCKET_SIZE) (UData_ReqPool w)")
  case None
  then show ?thesis using w' inv by (simp add: cancel_returns [OF inv] dn_cancel_spec_def)
next
  case (Some r)
  note r = find_pooled [OF inv Some]
  have "dnc_inv (dn_cancel_spec k c w) hs"
    using pooled_states [OF inv r(1)] inv_cancelled [OF inv r(1,3)] inv_cancel_retry [OF inv r(1)] inv
    by (auto simp: dn_cancel_spec_def Some)
  then show ?thesis using w' by (simp add: cancel_returns [OF inv])
qed

subsection \<open>Submitting\<close>

lemma gen_ReqID_valid: "fst (DNClientMgr_gen_DNUDReqID w) \<noteq> INVAL_REQID"
  by (simp add: DNClientMgr_gen_DNUDReqID_def INVAL_REQID_def Let_def)

text \<open>A request as it leaves the submit functions.\<close>

definition dn_submitted :: "DNClient_MGR_t \<Rightarrow> nat \<Rightarrow> DNClient_MGR_t \<Rightarrow> bool" where
  "dn_submitted w r w' \<longleftrightarrow>
     (\<forall>x. x \<noteq> r \<longrightarrow> dn_mem w' x = dn_mem w x) \<and> dn_live w' = (dn_live w)(r := True) \<and> dn_waitfree w' = dn_waitfree w \<and>
     dn_id w' r = fst (DNClientMgr_gen_DNUDReqID w) \<and>
     UData_ReqPool w' = DNUDReqPool_addReq_nolock r (unat (dn_id w' r) mod DNREQ_HBUCKET_SIZE) (UData_ReqPool w) \<and>
     dnClient w' = addReq_DNCWorkQ_nolock (dn_bk w' r) r (dnClient w) \<and>
     ReqRefCnt (dnReq_comm (dn_mem w' r)) = 0 \<and> ReqOPCode (dnReq_comm (dn_mem w' r)) \<in> {DNUDREQ_READ, DNUDREQ_WRITE} \<and>
     (\<forall>f. DNUDReq_check_feature f (dn_mem w' r)) \<and> st_dnReq (dnReq_stat (dn_mem w' r)) = DNREQ_S_WAIT_SEND"

lemma inv_submitted:
  assumes inv: "dnc_inv w hs" and new: "\<not> dn_live w r" "dn_fresh_id w" and s: "dn_submitted w r w'"
  shows "dnc_inv w' hs"
proof -
  note D = dnc_invD [OF inv]
  have ok: "dn_ok (dn_view w hs r)" by (rule D(8))
  then have r: "r \<notin> dn_pooled w" "r \<notin> dn_queued w" "count_list (dn_waitfree w) r = 0" "count_if (\<lambda>h. h_req h = r) hs = 0"
    using new(1) by (simp_all add: dn_ok_def dn_view_def)
  have s': "\<And>x. x \<noteq> r \<Longrightarrow> dn_mem w' x = dn_mem w x" "dn_live w' = (dn_live w)(r := True)" "dn_waitfree w' = dn_waitfree w"
    "dn_id w' r = fst (DNClientMgr_gen_DNUDReqID w)"
    "UData_ReqPool w' = DNUDReqPool_addReq_nolock r (unat (dn_id w' r) mod DNREQ_HBUCKET_SIZE) (UData_ReqPool w)"
    "dnClient w' = addReq_DNCWorkQ_nolock (dn_bk w' r) r (dnClient w)"
    using s by (auto simp: dn_submitted_def)
  have ids: "x \<noteq> r \<Longrightarrow> dn_id w' x = dn_id w x" "x \<noteq> r \<Longrightarrow> dn_bk w' x = dn_bk w x" for x
    using s'(1) by (simp_all add: dn_id_def dn_bk_def)
  have "dnp_inv (dn_id w') (UData_ReqPool w)"
    by (rule dnpool.inv_cong [OF D(1)]) (use r(1) ids in \<open>metis dn_pooled_def\<close>)
  from dnpool.inv_add [OF this, of r] have p: "dnp_inv (dn_id w') (UData_ReqPool w')" using r(1) s'(5) by (simp add: dn_pooled_def)
  have "wq_inv (dn_bk w') (dnClient w)"
    by (rule wq_inv_cong [OF D(2)]) (use r(2) ids in \<open>metis dn_queued_def\<close>)
  moreover have "dn_bk w' r < DNC_WORKQ_TOTAL_NUM"
    using gain_qlock_bound [of "dn_id w' r" "ReqPrior (dnReq_comm (dn_mem w' r))"] by (simp add: DNC_is_NNC [symmetric] acquire_bk wq_consts)
  ultimately have q: "wq_inv (dn_bk w') (dnClient w')" using dnq.inv_put [of "dn_bk w'" "dnClient w" r] r(2) s'(6) by (simp add: dn_queued_def)
  have m: "dn_pooled w' = insert r (dn_pooled w)" "dn_queued w' = insert r (dn_queued w)"
    using s'(5,6) dnpool.mems_add dnq.mems_put by (simp_all add: dn_pooled_def dn_queued_def)
  have fresh: "dn_id w' x \<noteq> dn_id w' r" if "x \<in> dn_pooled w" for x
    using that new(2) ids r(1) s'(4) by (metis dn_fresh_id_def)
  have inj: "inj_on (dn_id w') (dn_pooled w')"
  proof -
    have "dn_id w' x = dn_id w x" if "x \<in> dn_pooled w" for x using that ids r(1) by metis
    then have "inj_on (dn_id w') (dn_pooled w)" using D(3) inj_on_cong [of "dn_pooled w" "dn_id w'" "dn_id w"] by blast
    moreover have "dn_id w' r \<notin> dn_id w' ` (dn_pooled w - {r})" using fresh by force
    ultimately show ?thesis unfolding m inj_on_insert by blast
  qed
  have nz: "dn_id w' x \<noteq> INVAL_REQID" if "x \<in> dn_pooled w'" for x
    using that D(4) ids s'(4) gen_ReqID_valid by (cases "x = r") (auto simp: m)
  have "dn_ok (dn_view w' hs x)" for x
  proof (cases "x = r")
    case True
    then show ?thesis using s r m finals_le_refs [of r hs] by (simp add: dn_ok_def dn_view_def dn_submitted_def)
  next
    case False
    then have "dn_view w' hs x = dn_view w hs x" using s' m by (simp add: dn_view_def)
    then show ?thesis using D(8) by simp
  qed
  then show ?thesis
    unfolding dnc_inv_def using p q inj nz D(5-7) s'(5,6) by (simp add: DNUDReqPool_addReq_nolock_def qlock_ops)
qed

lemma dn_bk_cong: "dn_mem w r = dn_mem w' r \<Longrightarrow> dn_bk w r = dn_bk w' r"
  by (simp add: dn_bk_def dn_id_def)

lemma add_dnReq2pool_eq:
  assumes "\<And>i. \<not> DNUDReq_plock (UData_ReqPool w) i" "\<not> DNUDReq_check_feature DNREQ_FEA_IN_REQPOOL (dn_mem w r)"
  shows "add_dnReq2pool r w = (dn_upd r (DNUDReq_set_feature DNREQ_FEA_IN_REQPOOL) w)
    \<lparr>UData_ReqPool := DNUDReqPool_addReq_nolock r (unat (dn_id w r) mod DNREQ_HBUCKET_SIZE) (UData_ReqPool w)\<rparr>"
  using plock_roundtrip [OF assms(1), of "dn_id w r"] assms(2)
  by (simp add: add_dnReq2pool_def Let_def DNUDReq_test_set_fea_def plock_ops dn_upd_def)

text \<open>The tail of both submit functions: after a successful initialisation the request is queued.\<close>

definition dn_initialised :: "DNClient_MGR_t \<Rightarrow> nat \<Rightarrow> DNClient_MGR_t \<Rightarrow> bool" where
  "dn_initialised w r w' \<longleftrightarrow>
     (\<forall>x. x \<noteq> r \<longrightarrow> dn_mem w' x = dn_mem w x) \<and> dn_live w' = (dn_live w)(r := True) \<and> dn_waitfree w' = dn_waitfree w \<and>
     dn_id w' r = fst (DNClientMgr_gen_DNUDReqID w) \<and> dnClient w' = dnClient w \<and>
     UData_ReqPool w' = DNUDReqPool_addReq_nolock r (unat (dn_id w' r) mod DNREQ_HBUCKET_SIZE) (UData_ReqPool w) \<and>
     ReqRefCnt (dnReq_comm (dn_mem w' r)) = 0 \<and> ReqOPCode (dnReq_comm (dn_mem w' r)) \<in> {DNUDREQ_READ, DNUDREQ_WRITE} \<and>
     (\<forall>f. DNUDReq_check_feature f (dn_mem w' r) = (f \<noteq> DNREQ_FEA_IN_WORKQ)) \<and> st_dnReq (dnReq_stat (dn_mem w' r)) = DNREQ_S_WAIT_SEND"

lemma submitted_tail:
  assumes "dn_initialised w r w1" "\<And>i. \<not> wker_ReqPlock (dnClient w) i"
  shows "dn_submitted w r (dn_upd r DNUDReq_deref_Req (DNCWker_add_Req_workQ r (dn_upd r (\<lambda>q. (DNUDReq_ref_Req q)\<lparr>mdata_item := md\<rparr>) w1)))"
proof -
  have fea: "DNUDReq_check_feature f (q\<lparr>mdata_item := md\<rparr>) = DNUDReq_check_feature f q" for f q by (simp add: DNUDReq_check_feature_def)
  have "dnClient w1 = dnClient w" using assms(1) by (simp add: dn_initialised_def)
  then have l: "\<not> wker_ReqPlock (dnClient (dn_upd r g w1)) i" for i g using assms(2) by simp
  show ?thesis
    using assms(1) unfolding add_workQ_eq [OF l] by (auto simp: dn_initialised_def dn_submitted_def dn_id_def dn_bk_def fea)
qed

lemma init_fsm_start: "DNUDReq_init_fsm s = \<lparr>st_dnReq = DNREQ_S_INIT\<rparr>"
  by (simp add: DNUDReq_init_fsm_def)

lemma fea_start [simp]:
  "\<not> DNUDReq_check_feature f \<lparr>dnReq_comm = \<lparr>ReqID = i, CallerReqID = c, ReqFeature = 0, ReqPrior = p, ReqOPCode = op, ReqRefCnt = n,
     t_sendReq = t1, t_rcvReqAck = t2\<rparr>, dnReq_stat = s, mdata_item = m, dnLoc_idx = l, dn_ipaddr = ip, dn_port = prt,
     dn_num_hbids = h, arr_hbids = ah, phyLoc_rlo = rlo, UDataSeg = us, dn_payload_offset = po, caller_bkidx = cb, t_rcvReqAck_mem = t3\<rparr>"
  by (simp add: DNUDReq_check_feature_def)

lemma fea_other [simp]:
  "DNUDReq_check_feature f (q\<lparr>dn_payload_offset := x\<rparr>) = DNUDReq_check_feature f q"
  "DNUDReq_check_feature f (q\<lparr>caller_bkidx := b\<rparr>) = DNUDReq_check_feature f q"
  "DNUDReq_check_feature f (q\<lparr>UDataSeg := u\<rparr>) = DNUDReq_check_feature f q"
  by (simp_all add: DNUDReq_check_feature_def)

lemma all_fea: "(\<forall>f. P f) \<longleftrightarrow> P DNREQ_FEA_IN_WORKQ \<and> P DNREQ_FEA_IN_REQPOOL \<and> P DNREQ_FEA_DO_RW_IO \<and> P DNREQ_FEA_SEND_PAYLOAD"
  by (metis DNMDReq_fea_t.exhaust)

text \<open>The request after \<^verbatim>\<open>DNUDReq_init_Req\<close>, and after the read or write part of the initialisation.\<close>

lemma init_Req_facts:
  fixes w r op caller md idx
  defines "w1 \<equiv> DNUDReq_init_Req r op caller md idx (w\<lparr>dn_live := (dn_live w)(r := True)\<rparr>)"
  assumes l: "\<And>i. \<not> DNUDReq_plock (UData_ReqPool w) i"
  shows "\<And>x. x \<noteq> r \<Longrightarrow> dn_mem w1 x = dn_mem w x" "dn_live w1 = (dn_live w)(r := True)" "dn_waitfree w1 = dn_waitfree w"
    "dnClient w1 = dnClient w" "dn_id w1 r = fst (DNClientMgr_gen_DNUDReqID w)"
    "UData_ReqPool w1 = DNUDReqPool_addReq_nolock r (unat (dn_id w1 r) mod DNREQ_HBUCKET_SIZE) (UData_ReqPool w)"
    "ReqRefCnt (dnReq_comm (dn_mem w1 r)) = 0" "ReqOPCode (dnReq_comm (dn_mem w1 r)) = op"
    "\<And>f. DNUDReq_check_feature f (dn_mem w1 r) = (f = DNREQ_FEA_IN_REQPOOL)" "dnReq_stat (dn_mem w1 r) = \<lparr>st_dnReq = DNREQ_S_INIT\<rparr>"
proof -
  let ?w0 = "snd (DNClientMgr_gen_DNUDReqID (w\<lparr>dn_live := (dn_live w)(r := True)\<rparr>))"
  have w0: "UData_ReqPool ?w0 = UData_ReqPool w" "dn_mem ?w0 = dn_mem w" "dn_live ?w0 = (dn_live w)(r := True)"
    "dn_waitfree ?w0 = dn_waitfree w" "dnClient ?w0 = dnClient w"
    "fst (DNClientMgr_gen_DNUDReqID (w\<lparr>dn_live := (dn_live w)(r := True)\<rparr>)) = fst (DNClientMgr_gen_DNUDReqID w)"
    by (simp_all add: DNClientMgr_gen_DNUDReqID_def Let_def)
  have l': "\<not> DNUDReq_plock (UData_ReqPool (dn_upd r f ?w0)) i" for f i using l by (simp add: w0)
  note eq = w1_def DNUDReq_init_Req_def Let_def add_dnReq2pool_eq [OF l'] init_fsm_start
  show "\<And>x. x \<noteq> r \<Longrightarrow> dn_mem w1 x = dn_mem w x" "dn_live w1 = (dn_live w)(r := True)" "dn_waitfree w1 = dn_waitfree w"
    "dnClient w1 = dnClient w" "dn_id w1 r = fst (DNClientMgr_gen_DNUDReqID w)"
    "UData_ReqPool w1 = DNUDReqPool_addReq_nolock r (unat (dn_id w1 r) mod DNREQ_HBUCKET_SIZE) (UData_ReqPool w)"
    "ReqRefCnt (dnReq_comm (dn_mem w1 r)) = 0" "ReqOPCode (dnReq_comm (dn_mem w1 r)) = op"
    "\<And>f. DNUDReq_check_feature f (dn_mem w1 r) = (f = DNREQ_FEA_IN_REQPOOL)" "dnReq_stat (dn_mem w1 r) = \<lparr>st_dnReq = DNREQ_S_INIT\<rparr>"
    by (simp_all add: eq w0 dn_id_def)
qed

lemma init_done: "DNUDReq_update_state \<lparr>st_dnReq = DNREQ_S_INIT\<rparr> DNREQ_E_InitDone = (DNREQ_A_DO_ADD_WORKQ, \<lparr>st_dnReq = DNREQ_S_WAIT_SEND\<rparr>)"
  by (simp add: fsm_defs)

lemma initialised_Read:
  fixes w r caller md idx off bk
  defines "w1 \<equiv> DNUDReq_init_Req r DNUDREQ_READ caller md idx (w\<lparr>dn_live := (dn_live w)(r := True)\<rparr>)"
  defines "i \<equiv> init_DNUDReq_Read off True True ((dn_mem w1 r)\<lparr>caller_bkidx := bk\<rparr>)"
  assumes "\<And>i. \<not> DNUDReq_plock (UData_ReqPool w) i"
  shows "fst i" "dn_initialised w r (dn_upd r (\<lambda>_. snd i) w1)"
  using init_Req_facts [OF assms(3), where r = r and op = DNUDREQ_READ and caller = caller and md = md and idx = idx, folded w1_def]
  unfolding dn_initialised_def all_fea
  by (auto simp: i_def init_DNUDReq_Read_def Let_def init_done dn_id_def)

lemma initialised_Write:
  fixes w r caller md idx buf off bk
  defines "w1 \<equiv> DNUDReq_init_Req r DNUDREQ_WRITE caller md idx (w\<lparr>dn_live := (dn_live w)(r := True)\<rparr>)"
  assumes "init_DNUDReq_Write buf off True True ((dn_mem w1 r)\<lparr>caller_bkidx := bk\<rparr>) = Some i"
    and "\<And>i. \<not> DNUDReq_plock (UData_ReqPool w) i"
  shows "fst i" "dn_initialised w r (dn_upd r (\<lambda>_. snd i) w1)"
  using init_Req_facts [OF assms(3), where r = r and op = DNUDREQ_WRITE and caller = caller and md = md and idx = idx, folded w1_def] assms(2)
  unfolding dn_initialised_def all_fea
  by (auto simp: init_DNUDReq_Write_def Let_def init_done dn_id_def split: bind_splits)

lemma inv_submit_read:
  assumes inv: "dnc_inv w hs" and new: "\<not> dn_live w r" "dn_fresh_id w"
  shows "dnc_inv (snd (submit_DNUData_Read_Request (Some r) md idx off caller bk True True w)) hs"
proof -
  note D = dnc_invD [OF inv]
  note i = initialised_Read [OF D(5), where r = r and caller = caller and md = md and idx = idx and off = off and bk = bk]
  show ?thesis
    by (rule inv_submitted [OF inv new]) (use i(1) submitted_tail [OF i(2) D(6), of md] in \<open>simp add: submit_DNUData_Read_Request_def Let_def\<close>)
qed

lemma inv_submit_write:
  assumes inv: "dnc_inv w hs" and new: "\<not> dn_live w r" "dn_fresh_id w"
    and w': "submit_DNUData_Write_Request (Some r) md idx buf off caller bk True True w = Some (x, w')"
  shows "dnc_inv w' hs"
proof -
  note D = dnc_invD [OF inv]
  obtain i where i: "init_DNUDReq_Write buf off True True
      ((dn_mem (DNUDReq_init_Req r DNUDREQ_WRITE caller md idx (w\<lparr>dn_live := (dn_live w)(r := True)\<rparr>)) r)\<lparr>caller_bkidx := bk\<rparr>) = Some i"
    using w' by (auto simp: submit_DNUData_Write_Request_def Let_def split: bind_splits)
  note i' = initialised_Write [OF i D(5)]
  show ?thesis
    by (rule inv_submitted [OF inv new]) (use i i'(1) submitted_tail [OF i'(2) D(6), of md] w' in \<open>auto simp: submit_DNUData_Write_Request_def Let_def\<close>)
qed

subsection \<open>Every interleaving\<close>

lemma inv_start: "dnc_inv (DNClient_start mds counter) []"
  using wq_inv_init dnpool.inv_init dnpool.mems_init
  by (auto simp: dnc_inv_def DNClient_start_def dn_pooled_def dn_queued_def dn_view_def dn_ok_def DNC_is_NNC)
    (simp_all add: DNUDReqPool_init_pool_def NNCWker_init_worker_def)

lemma bucket_pooled: "set (DNUDReq_pool (UData_ReqPool w) i) \<subseteq> dn_pooled w"
  by (auto simp: dn_pooled_def dnp_mems_def bk_mems_def)

lemma dnc_inv_reach: "dnc_reach w hs \<Longrightarrow> dnc_inv w hs"
proof (induction rule: dnc_reach.induct)
  case (start mds counter)
  then show ?case by (rule inv_start)
next
  case (peek w hs r w')
  then show ?case using inv_peek [of w hs] by simp
next
  case (peek_none w hs w')
  then show ?case using inv_peek [of w hs] by simp
next
  case (ack w hs pkt r w')
  then show ?case using inv_find [of w hs pkt "dnid pkt"] by (auto simp: process_dnAck_find_def split: if_splits)
next
  case (ack_miss w hs pkt w')
  then show ?case using inv_find [of w hs pkt "dnid pkt"] by (auto simp: process_dnAck_find_def split: if_splits)
next
  case submit_read
  then show ?case by (intro inv_submit_read)
next
  case submit_write
  show ?case by (rule inv_submit_write [OF submit_write(5,2,3,4)])
next
  case send_done
  show ?case by (rule inv_send_done [OF send_done(3,2)])
next
  case send_out
  show ?case by (rule inv_send_out [OF send_out(3,2)])
next
  case ack_done
  show ?case by (rule inv_ack_done [OF ack_done(3,2)])
next
  case connback
  show ?case by (rule inv_connback [OF connback(3) bucket_pooled connback(2)])
next
  case retry
  show ?case by (rule inv_retry [OF retry(3,2)])
next
  case cancel
  show ?case by (rule inv_cancel [OF cancel(3,2)])
next
  case free_poll
  show ?case by (rule inv_free_poll [OF free_poll(3,2)])
qed

end
