(* ===== verification/Dn_Props.thy ===== *)
theory Dn_Props
  imports Dn_Safety
begin

text \<open>
  What the datanode client promises, for every interleaving of its threads: no use after free, no lost and no
  duplicated request, cancelling that always returns, answers that complete a request once; the payload
  segments of a write; and three corners where the promises stop.
\<close>

subsection \<open>Safety of the interleavings\<close>

definition dn_sample :: DNClient_MGR_t where
  "dn_sample = snd (submit_DNUData_Read_Request (Some 7) 1 0 0 (\<lparr>ReqID = 3, CallerReqID = 0, ReqFeature = 0, ReqPrior = PRIORITY_LOW,
     ReqOPCode = (), ReqRefCnt = 0, t_sendReq = 0, t_rcvReqAck = 0\<rparr>) 0 True True
     (DNClient_start (\<lambda>_. sample_item\<lparr>num_dnLoc := 1, udata_dnLoc := [sample_loc UData_S_INIT]\<rparr>) 41))"

lemma dn_sample_reach: "dnc_reach dn_sample []"
  unfolding dn_sample_def
  by (rule dnc_reach.submit_read [OF dnc_reach.start])
    (use dnpool.mems_init in \<open>simp_all add: DNClient_start_def dn_fresh_id_def dn_pooled_def\<close>)

lemma dnc_inv_facts:
  assumes "dnc_inv w hs"
  shows "r \<in> dn_pooled w \<or> r \<in> dn_queued w \<Longrightarrow> dn_live w r"
    "dn_live w r \<Longrightarrow> ReqRefCnt (dnReq_comm (dn_mem w r)) = int (count_if (\<lambda>h. h_req h = r) hs)"
    "dn_live w r \<Longrightarrow> count_list (dn_waitfree w) r + count_if (\<lambda>h. h_req h = r \<and> h_final h) hs \<le> 1"
    "r \<in> dn_queued w \<longleftrightarrow> r \<in> dn_pooled w \<and> st_dnReq (dnReq_stat (dn_mem w r)) = DNREQ_S_WAIT_SEND"
    "dn_live w r \<Longrightarrow> ReqRefCnt (dnReq_comm (dn_mem w r)) = 0 \<longleftrightarrow> \<not> (\<exists>h \<in> set hs. h_req h = r)"
  using dnc_invD(8) [OF assms, of r] by (auto simp: dn_ok_def dn_view_def count_if_eq_0_iff split: if_splits)






subsection \<open>Answers\<close>

text \<open>What the completion callback is told about a final answer.\<close>

fun dn_final_status :: "DNUDReq_opcode_t \<Rightarrow> DNUDResp_opcode_t \<Rightarrow> UData_state_t option" where
  "dn_final_status op DNUDRESP_READ_PAYLOAD = Some UData_S_READ_OK"
| "dn_final_status op DNUDRESP_READ_NO_PAYLOAD = Some UData_S_READ_OK"
| "dn_final_status op DNUDRESP_DISK_ACK = Some UData_S_WRITE_OK"
| "dn_final_status op DNUDRESP_WRITEANDGETOLD_DISK_ACK = Some UData_S_WRITE_OK"
| "dn_final_status op DNUDRESP_HBIDERR = Some UData_S_MD_ERR"
| "dn_final_status op DNUDRESP_ERR_IOException = Some UData_S_DISK_FAILURE"
| "dn_final_status op DNUDRESP_ERR_IOFailLUNOK = (if op = DNUDREQ_READ then Some UData_S_DISK_FAILURE else None)"
| "dn_final_status op DNUDRESP_ERR_LUNFail = (if op = DNUDREQ_READ then Some UData_S_DISK_FAILURE else None)"
| "dn_final_status op a = None"

lemma dn_endfn_simps [simp]:
  "dn_endfn (dn_upd r f w) = dn_endfn w" "dn_endfn (DNUDReq_free_Req r w) = dn_endfn w"
  "dn_endfn (dn_call_endfn r st w) = dn_endfn w @ [(r, st)]"
  "UData_ReqPool (DNUDReq_free_Req r w) = UData_ReqPool w" "UData_ReqPool (dn_call_endfn r st w) = UData_ReqPool w"
  "dn_mem (DNUDReq_free_Req r w) = dn_mem w" "dn_mem (dn_call_endfn r st w) = dn_mem w"
  by (simp_all add: dn_upd_def DNUDReq_free_Req_def dn_call_endfn_def)

lemma handle_dn_resp_effect:
  assumes "dn_known_resp a" "\<not> is_mem_ack a"
  shows "dn_endfn (handle_dn_resp a r w) = dn_endfn w @
      (case dn_final_status (ReqOPCode (dnReq_comm (dn_mem w r))) a of None \<Rightarrow> [] | Some st \<Rightarrow> [(r, st)])"
    "UData_ReqPool (handle_dn_resp a r w) = UData_ReqPool w"
    "ReqID (dnReq_comm (dn_mem (handle_dn_resp a r w) x)) = ReqID (dnReq_comm (dn_mem w x))"
  using assms
  by (cases a; simp add: handle_dn_resp_def handle_DNAck_Read_def handle_DNAck_Write_def handle_DNAck_IOError_def is_mem_ack_def Let_def)+


definition dn_sample_sent :: DNClient_MGR_t where
  "dn_sample_sent = dn_send_done 7 (snd (DNCWker_peek_Req_workQ dn_sample))"

lemma dn_sample_facts:
  "dn_id dn_sample 7 = 42" "7 \<in> dn_pooled dn_sample" "st_dnReq (dnReq_stat (dn_mem dn_sample 7)) = DNREQ_S_WAIT_SEND"
  "wker_ReqPool (dnClient dn_sample) 10 = [7]" "deq_bucket_idx (dnClient dn_sample) = 10" "wker_HPReqQ_size (dnClient dn_sample) = 0"
proof -
  let ?w = "DNClient_start (\<lambda>_. sample_item\<lparr>num_dnLoc := 1, udata_dnLoc := [sample_loc UData_S_INIT]\<rparr>) 41"
  let ?c = "\<lparr>ReqID = 3, CallerReqID = 0, ReqFeature = 0, ReqPrior = PRIORITY_LOW, ReqOPCode = (), ReqRefCnt = 0, t_sendReq = 0, t_rcvReqAck = 0\<rparr>"
  note D = dnc_invD [OF inv_start [of "\<lambda>_. sample_item\<lparr>num_dnLoc := 1, udata_dnLoc := [sample_loc UData_S_INIT]\<rparr>" 41]]
  note i = initialised_Read [OF D(5), where r = 7 and caller = ?c and md = 1 and idx = 0 and off = 0 and bk = 0]
  have s: "dn_submitted ?w 7 dn_sample"
    unfolding dn_sample_def using i(1) submitted_tail [OF i(2) D(6), of 1] by (simp add: submit_DNUData_Read_Request_def Let_def)
  then show id: "dn_id dn_sample 7 = 42" "7 \<in> dn_pooled dn_sample" "st_dnReq (dnReq_stat (dn_mem dn_sample 7)) = DNREQ_S_WAIT_SEND"
    by (auto simp: dn_submitted_def DNClientMgr_gen_DNUDReqID_def DNClient_start_def INVAL_REQID_def Let_def dn_pooled_def dnpool.mems_add)
  have "ReqPrior (dnReq_comm (dn_mem dn_sample 7)) = PRIORITY_LOW"
    by (simp add: dn_sample_def submit_DNUData_Read_Request_def DNUDReq_init_Req_def add_dnReq2pool_def DNCWker_add_Req_workQ_def
        init_DNUDReq_Read_def DNUDReq_test_set_fea_def Let_def init_fsm_start init_done)
  then have "dn_bk dn_sample 7 = 10" by (simp add: dn_bk_def id(1) DNC_WORKQ_MOD_NUM_def DNC_WORKQ_HASH_NUM_def)
  then have "dnClient dn_sample = addReq_DNCWorkQ_nolock 10 7 DNCWker_init_worker"
    using s by (simp add: dn_submitted_def DNClient_start_def)
  then show "wker_ReqPool (dnClient dn_sample) 10 = [7]" "deq_bucket_idx (dnClient dn_sample) = 10" "wker_HPReqQ_size (dnClient dn_sample) = 0"
    by (simp_all add: addReq_DNCWorkQ_nolock_def DNCWker_init_worker_def DNC_WORKQ_HP_BK_IDX_def DNC_WORKQ_HASH_NUM_def)
qed

lemma dn_sample_sent_facts:
  "dnc_reach dn_sample_sent [HSent 7]" "7 \<in> dn_pooled dn_sample_sent" "dn_id dn_sample_sent 7 = 42"
  "st_dnReq (dnReq_stat (dn_mem dn_sample_sent 7)) = DNREQ_S_WAIT_RESP"
proof -
  note f = dn_sample_facts
  have "DNUDReq_check_feature DNREQ_FEA_IN_WORKQ (dn_mem dn_sample 7)"
    using dnc_invD(8) [OF dnc_inv_reach [OF dn_sample_reach], of 7] f(2,3) by (auto simp: dn_ok_def dn_view_def split: if_splits)
  moreover have "fst (DNCWker_probe (dnClient dn_sample)) = 10" "peekReq_DNCWorkQ_nolock 10 (snd (DNCWker_probe (dnClient dn_sample))) = Some 7"
    using f(4-6) by (simp_all add: DNCWker_probe_def peekReq_acquire_DNCWorkQ_lock_def peekReq_DNCWorkQ_nolock_def rel_DNCWorkQ_lock_def Let_def)
  ultimately have p: "fst (DNCWker_peek_Req_workQ dn_sample) = Some 7"
    "UData_ReqPool (snd (DNCWker_peek_Req_workQ dn_sample)) = UData_ReqPool dn_sample" "dn_id (snd (DNCWker_peek_Req_workQ dn_sample)) 7 = 42"
    "st_dnReq (dnReq_stat (dn_mem (snd (DNCWker_peek_Req_workQ dn_sample)) 7)) = DNREQ_S_SENDING"
    using f(1,3) by (simp_all add: peek_eq DNUDReq_test_clear_fea_def Let_def fsm_defs dn_id_def)
  have "dnc_reach (snd (DNCWker_peek_Req_workQ dn_sample)) [HSend 7]"
    by (rule dnc_reach.peek [OF dn_sample_reach]) (metis p(1) prod.collapse)
  from dnc_reach.send_done [OF this, of 7] show "dnc_reach dn_sample_sent [HSent 7]" by (simp add: dn_sample_sent_def)
  show "7 \<in> dn_pooled dn_sample_sent" "dn_id dn_sample_sent 7 = 42" "st_dnReq (dnReq_stat (dn_mem dn_sample_sent 7)) = DNREQ_S_WAIT_RESP"
    using p f(2) by (simp_all add: dn_sample_sent_def dn_send_done_def dn_pooled_def dn_id_def fsm_defs)
qed



subsection \<open>Corners\<close>

text \<open>
  A request that is cancelled while the reconnect thread has it on its retry list stays behind: the state machine moves it to
  \<^verbatim>\<open>DNREQ_S_CANCEL_REQ\<close> and asks the canceller to try again, but the second try is refused.  The cancel returns with the
  request still in the pool, and in that state neither an answer nor another cancel takes it out.
\<close>

lemma cancel_during_retry_stays:
  assumes "dnc_reach w hs" "r \<in> dn_pooled w" "st_dnReq (dnReq_stat (dn_mem w r)) = DNREQ_S_RETRY_REQ"
  shows "\<exists>w'. DNUDReq_cancel_Req (dn_id w r) (CallerReqID (dnReq_comm (dn_mem w r))) DNREQ_A_NoAction w = Some w' \<and>
    r \<in> dn_pooled w' \<and> dn_live w' r \<and> st_dnReq (dnReq_stat (dn_mem w' r)) = DNREQ_S_CANCEL_REQ"
proof -
  note inv = dnc_inv_reach [OF assms(1)]
  note D = dnc_invD [OF inv]
  have "DNUDReqPool_findReq_nolock (dn_id w) (dn_id w r) (unat (dn_id w r) mod DNREQ_HBUCKET_SIZE) (UData_ReqPool w) = Some r"
    using dnpool.lookup_iff [OF D(1), of "dn_id w r" r] D(3) assms(2) by (simp add: dn_pooled_def)
  then show ?thesis
    using cancel_returns [OF inv, of "dn_id w r" "CallerReqID (dnReq_comm (dn_mem w r))"] assms(2,3) dnc_inv_facts(1) [OF inv]
    by (auto simp: dn_cancel_spec_def)
qed

text \<open>
  With payload or disk access switched off, \<^verbatim>\<open>DNCWker_send_readReq\<close> overwrites the operation code of the request.  When such
  a request is retried after a reconnect, \<^verbatim>\<open>DNCWker_send_DNUDReq\<close> does not know the code: nothing is sent and the
  reference of the sender is never dropped.
\<close>

lemma retried_no_payload_read_not_sent:
  assumes "ReqOPCode (dnReq_comm (dn_mem w r)) \<in> {DNUDREQ_READ_NO_PAYLOAD, DNUDREQ_READ_NO_IO, DNUDREQ_READ_NO_PAYLOAD_IO}"
  shows "ReqRefCnt (dnReq_comm (dn_mem (DNCWker_send_DNUDReq tx r w) r)) = ReqRefCnt (dnReq_comm (dn_mem w r)) \<and>
    num_DNReq_waitResp (DNCWker_send_DNUDReq tx r w) = num_DNReq_waitResp w \<and> dn_endfn (DNCWker_send_DNUDReq tx r w) = dn_endfn w"
  using assms by (auto simp: DNCWker_send_DNUDReq_def dn_send_done_def dn_send_out_def) (simp_all add: dn_upd_def)

text \<open>
  A LUN error answered to a write reaches the default branch of \<^verbatim>\<open>handle_DNAck_Write\<close>: the callback is not called and the
  request, which is out of the pool already, is not freed.
\<close>

lemma lun_error_on_write_is_silent:
  assumes "ReqOPCode (dnReq_comm (dn_mem w r)) = DNUDREQ_WRITE"
  shows "handle_dn_resp DNUDRESP_ERR_LUNFail r w = dn_upd r DNUDReq_deref_Req w"
  using assms by (simp add: handle_dn_resp_def handle_DNAck_IOError_def handle_DNAck_Write_def)

end
