(* ===== verification/Dn_Payload.thy ===== *)
theory Dn_Payload
  imports Dn_Client
begin

text \<open>
  Two smaller parts of the datanode client: the segments in which the payload of a write is sent
  (\<^verbatim>\<open>init_DNUDReq_Write\<close> in \<^verbatim>\<open>discoC_DNUData_Request.c\<close>), and the queues between the receiver of answers and the answer workers
  (\<^verbatim>\<open>discoC_DNAck_worker.c\<close>).
\<close>

subsection \<open>Payload segments\<close>

text \<open>A buffer as the I/O layer fills it: full chunks of 128 KB, only the last one may be shorter.\<close>

definition buf_ok :: "nat list \<Rightarrow> bool" where
  "buf_ok buf \<longleftrightarrow> (\<forall>i < length buf. buf ! i \<le> 2 ^ BIT_LEN_MEM_CHUNK \<and> (i + 1 < length buf \<longrightarrow> buf ! i = 2 ^ BIT_LEN_MEM_CHUNK))"

definition buf_size :: "nat list \<Rightarrow> nat" where
  "buf_size buf = (if buf = [] then 0 else (length buf - 1) * 2 ^ BIT_LEN_MEM_CHUNK + last buf)"

text \<open>Segments that follow each other from an offset, each inside its chunk and not empty, of a given total length.\<close>

fun segs_cover :: "nat list \<Rightarrow> nat \<Rightarrow> nat \<Rightarrow> (nat \<times> nat \<times> nat) list \<Rightarrow> bool" where
  "segs_cover buf off len [] = (len = 0)"
| "segs_cover buf off len ((i, d, l) # segs) =
     (i < length buf \<and> d + l \<le> buf ! i \<and> i * 2 ^ BIT_LEN_MEM_CHUNK + d = off \<and> 0 < l \<and> l \<le> len \<and> segs_cover buf (off + l) (len - l) segs)"

lemma wrap_sub32: "b \<le> a \<Longrightarrow> a - b < 2 ^ 32 \<Longrightarrow> (a + 2 ^ 64 - b) mod 2 ^ 32 = a - (b :: nat)"
proof -
  assume b: "b \<le> a" "a - b < 2 ^ 32"
  have "(2 :: nat) ^ 64 = 2 ^ 32 * 2 ^ 32" by (simp only: power_add [symmetric]) simp
  then have "a + 2 ^ 64 - b = (a - b) + 2 ^ 32 * 2 ^ 32" using b(1) by (simp only:)
  then have "(a + 2 ^ 64 - b) mod 2 ^ 32 = (a - b) mod 2 ^ 32" by (simp only: mod_mult_self2)
  also have "\<dots> = a - b" using b(2) by (rule mod_less)
  finally show ?thesis .
qed

lemma wrap_sub64: "b \<le> a \<Longrightarrow> a - b < 2 ^ 64 \<Longrightarrow> (a + 2 ^ 64 - b) mod 2 ^ 64 = a - (b :: nat)"
proof -
  assume b: "b \<le> a" "a - b < 2 ^ 64"
  have "a + 2 ^ 64 - b = (a - b) + 2 ^ 64" using b(1) by (simp only: add_diff_assoc2)
  then have "(a + 2 ^ 64 - b) mod 2 ^ 64 = (a - b) mod 2 ^ 64" by (simp only: mod_add_self2)
  also have "\<dots> = a - b" using b(2) by (rule mod_less)
  finally show ?thesis .
qed

lemma buf_index:
  assumes "buf_ok buf" "off < buf_size buf"
  defines "i \<equiv> off div 2 ^ BIT_LEN_MEM_CHUNK"
  shows "i < length buf" "i + 1 = length buf \<Longrightarrow> i * 2 ^ BIT_LEN_MEM_CHUNK + buf ! i = buf_size buf"
    "i + 1 < length buf \<Longrightarrow> buf ! i = 2 ^ BIT_LEN_MEM_CHUNK"
proof -
  let ?C = "2 ^ BIT_LEN_MEM_CHUNK :: nat"
  have ne: "buf \<noteq> []" using assms(2) by (auto simp: buf_size_def)
  have "last buf \<le> ?C" using assms(1) ne by (simp add: buf_ok_def last_conv_nth)
  moreover have "(length buf - 1) * ?C + ?C = length buf * ?C" using ne by (cases buf) auto
  ultimately have "off < length buf * ?C" using assms(2) ne by (simp add: buf_size_def)
  then show "i < length buf" unfolding i_def by (simp add: less_mult_imp_div_less)
  show "i * ?C + buf ! i = buf_size buf" if "i + 1 = length buf"
  proof -
    have "length buf - 1 = i" using that by simp
    then show ?thesis using ne by (simp add: buf_size_def last_conv_nth)
  qed
  show "i + 1 < length buf \<Longrightarrow> buf ! i = ?C" using assms(1) by (simp add: buf_ok_def)
qed

lemma data_buffer_loc_ok:
  assumes "buf_ok buf" "off + len \<le> buf_size buf" "0 < len" "buf_size buf < 2 ^ 32"
  shows "\<exists>i d l. get_data_buffer_loc buf off len = Some (i, d, l) \<and> i < length buf \<and> d + l \<le> buf ! i \<and>
    i * 2 ^ BIT_LEN_MEM_CHUNK + d = off \<and> 0 < l \<and> l \<le> len"
proof -
  let ?C = "2 ^ BIT_LEN_MEM_CHUNK :: nat" and ?i = "off div 2 ^ BIT_LEN_MEM_CHUNK"
  have C: "0 < ?C" by simp
  have off: "off < buf_size buf" using assms(2,3) by linarith
  then have off32: "off < 2 ^ 32" using assms(4) by (rule less_trans)
  note ix = buf_index [OF assms(1) off]
  have iC: "?i * ?C \<le> off" "off - ?i * ?C = off mod ?C" "off mod ?C < ?C" "?i * ?C + off mod ?C = off"
    by (simp_all add: minus_div_mult_eq_mod div_mult_mod_eq)
  have i: "?i mod 2 ^ 32 = ?i" "?i * ?C mod 2 ^ 32 = ?i * ?C"
    using le_less_trans [OF div_le_dividend off32] le_less_trans [OF iC(1) off32] by (simp_all only: mod_less)
  let ?next = "?i * ?C + buf ! ?i"
  show ?thesis
  proof (cases "off + len \<le> ?next")
    case True
    then have "get_data_buffer_loc buf off len = Some (?i, off mod ?C, len)"
      using ix(1) by (simp only: get_data_buffer_loc_def Let_def i iC if_True)
    moreover have "off mod ?C + len \<le> buf ! ?i" using True iC(4) by linarith
    ultimately show ?thesis using ix(1) iC(4) assms(3) by blast
  next
    case False
    then have last: "?i + 1 < length buf" using ix(1,2) assms(2) by linarith
    then have b: "buf ! ?i = ?C" by (rule ix(3))
    then have lt: "off < ?next" using iC(3,4) by linarith
    have "?next - off < 2 ^ 32" using False assms(2,4) by linarith
    then have "get_data_buffer_loc buf off len = Some (?i, off mod ?C, ?next - off)"
      using ix(1) False wrap_sub32 [OF less_imp_le [OF lt]] by (simp only: get_data_buffer_loc_def Let_def i iC if_True if_False)
    moreover have "off mod ?C + (?next - off) \<le> buf ! ?i" using lt iC(4) by linarith
    moreover have "0 < ?next - off" "?next - off \<le> len" using lt False by linarith+
    ultimately show ?thesis using ix(1) iC(4) by blast
  qed
qed

text \<open>
  (C18) The payload of a write is sent completely, once and in order: for a buffer of full 128 KB chunks (the last one may be
  shorter) of less than 4 GB that holds the payload range, the segment loop of \<^verbatim>\<open>init_DNUDReq_Write\<close> ends, and its
  segments are non-empty, lie inside their chunks, follow each other without gap or overlap from the payload offset and
  have together the length of the payload.
\<close>

theorem payload_segs_cover:
  assumes "buf_ok buf" "off + len \<le> buf_size buf" "buf_size buf < 2 ^ 32"
  shows "\<exists>segs. dn_payload_segs buf off len = Some segs \<and> segs_cover buf off len segs"
  using assms(2)
proof (induction len arbitrary: off rule: less_induct)
  case (less len)
  show ?case
  proof (cases "len = 0")
    case True
    then show ?thesis by (subst dn_payload_segs.simps) simp
  next
    case False
    then have pos: "0 < len" by simp
    have b: "off + len < 2 ^ 32" using less.prems assms(3) by (rule le_less_trans)
    obtain i d l where g: "get_data_buffer_loc buf off len = Some (i, d, l)" "i < length buf" "d + l \<le> buf ! i"
      "i * 2 ^ BIT_LEN_MEM_CHUNK + d = off" "0 < l" "l \<le> len"
      using data_buffer_loc_ok [OF assms(1) less.prems pos assms(3)] by blast
    have big: "(2 :: nat) ^ 32 \<le> 2 ^ 64" by (rule power_increasing) simp_all
    have lt: "len < 2 ^ 32" "off + l < 2 ^ 64" "len - l < 2 ^ 64" using b g(6) big by linarith+
    have m: "len mod 2 ^ 32 = len" "(off + l) mod 2 ^ 64 = off + l" "(len + 2 ^ 64 - l) mod 2 ^ 64 = len - l"
      by (rule mod_less [OF lt(1)], rule mod_less [OF lt(2)], rule wrap_sub64 [OF g(6) lt(3)])
    obtain segs where s: "dn_payload_segs buf (off + l) (len - l) = Some segs" "segs_cover buf (off + l) (len - l) segs"
      using less.IH [of "len - l" "off + l"] less.prems g(5,6) pos by auto
    have "dn_payload_segs buf off len = Some ((i, d, l) # segs)"
      by (subst dn_payload_segs.simps) (simp only: pos if_True m(1) g(1) bind.bind_lunit snd_conv m(2,3) s(1))
    then show ?thesis using g s(2) by auto
  qed
qed

theorem payload_segs_cover_witness:
  "\<exists>segs. dn_payload_segs [131072, 4096] 126976 8192 = Some segs \<and> segs_cover [131072, 4096] 126976 8192 segs"
  by (rule payload_segs_cover) (simp_all add: buf_ok_def buf_size_def BIT_LEN_MEM_CHUNK_def less_Suc_eq)

subsection \<open>The queues of answers\<close>

definition DNACK_ENQ_MOD_NUMBER :: u32 where
  "DNACK_ENQ_MOD_NUMBER = 2 - 1"

record DNAckWker_Mgr_t =
  dnAck_queue :: "nat \<Rightarrow> nat list"
  dnAck_qsize :: int
  dnAck_dnid :: "nat \<Rightarrow> u32"
  in_dnAck_workq :: "nat \<Rightarrow> bool"

definition dnAck_enq_index :: "DNAckWker_Mgr_t \<Rightarrow> nat \<Rightarrow> nat" where
  "dnAck_enq_index mgr dnAck = unat (and (dnAck_dnid mgr dnAck) DNACK_ENQ_MOD_NUMBER)"

definition DNAckMgr_submit_ack :: "nat \<Rightarrow> DNAckWker_Mgr_t \<Rightarrow> DNAckWker_Mgr_t" where
  "DNAckMgr_submit_ack dnAck mgr =
     (if in_dnAck_workq mgr dnAck then mgr
      else (let enq_index = dnAck_enq_index mgr dnAck
            in mgr\<lparr>dnAck_queue := (dnAck_queue mgr)(enq_index := dnAck_queue mgr enq_index @ [dnAck]),
                   in_dnAck_workq := (in_dnAck_workq mgr)(dnAck := True), dnAck_qsize := dnAck_qsize mgr + 1\<rparr>))"

definition peek_DNAck_workq :: "nat \<Rightarrow> DNAckWker_Mgr_t \<Rightarrow> nat option \<times> DNAckWker_Mgr_t" where
  "peek_DNAck_workq qidx mgr =
     (case dnAck_queue mgr qidx of
        [] \<Rightarrow> (None, mgr)
      | dnAck # rest \<Rightarrow> (Some dnAck, mgr\<lparr>dnAck_queue := (dnAck_queue mgr)(qidx := rest),
          in_dnAck_workq := (in_dnAck_workq mgr)(dnAck := False), dnAck_qsize := dnAck_qsize mgr - 1\<rparr>))"

datatype dnAck_event = AckSubmit nat | AckPeek nat

text \<open>A history of the queues: the answers taken out (with the queue), the answers accepted, and the queues.\<close>

fun dnAck_run :: "dnAck_event list \<Rightarrow> DNAckWker_Mgr_t \<Rightarrow> (nat \<times> nat) list \<times> nat list \<times> DNAckWker_Mgr_t" where
  "dnAck_run [] mgr = ([], [], mgr)"
| "dnAck_run (AckSubmit a # es) mgr =
     (let q = dnAck_run es (DNAckMgr_submit_ack a mgr)
      in (fst q, (if in_dnAck_workq mgr a then [] else [a]) @ fst (snd q), snd (snd q)))"
| "dnAck_run (AckPeek i # es) mgr =
     (let p = peek_DNAck_workq i mgr; q = dnAck_run es (snd p)
      in ((case fst p of None \<Rightarrow> [] | Some a \<Rightarrow> [(i, a)]) @ fst q, fst (snd q), snd (snd q)))"

lemma dnAck_ops_dnid [simp]:
  "dnAck_dnid (DNAckMgr_submit_ack a mgr) = dnAck_dnid mgr" "dnAck_dnid (snd (peek_DNAck_workq i mgr)) = dnAck_dnid mgr"
  by (simp_all add: DNAckMgr_submit_ack_def peek_DNAck_workq_def Let_def split: list.split)

lemma dnAck_ops_index [simp]:
  "dnAck_enq_index (DNAckMgr_submit_ack a mgr) b = dnAck_enq_index mgr b" "dnAck_enq_index (snd (peek_DNAck_workq i mgr)) b = dnAck_enq_index mgr b"
  by (simp_all add: dnAck_enq_index_def)

lemma submit_queue:
  "dnAck_queue (DNAckMgr_submit_ack a mgr) i = dnAck_queue mgr i @
    (if \<not> in_dnAck_workq mgr a \<and> dnAck_enq_index mgr a = i then [a] else [])"
  by (simp add: DNAckMgr_submit_ack_def Let_def)

lemma peek_queue:
  "dnAck_queue mgr i = (case fst (peek_DNAck_workq j mgr) of None \<Rightarrow> [] | Some a \<Rightarrow> if j = i then [a] else []) @
    dnAck_queue (snd (peek_DNAck_workq j mgr)) i"
  by (simp add: peek_DNAck_workq_def split: list.split)

text \<open>
  (C29) Answers are processed in the order of arrival.  In any history of arrivals and dequeues, what the worker of a queue has
  taken out followed by what is still queued is what was accepted for that queue before and during the history, in order.
  Answers to the same request number always go to the same queue, so they are never reordered.
\<close>

theorem dnAck_fifo:
  fixes es mgr i
  defines "out \<equiv> map snd (filter (\<lambda>p. fst p = i) (fst (dnAck_run es mgr)))"
    and "acc \<equiv> filter (\<lambda>a. dnAck_enq_index mgr a = i) (fst (snd (dnAck_run es mgr)))"
  shows "out @ dnAck_queue (snd (snd (dnAck_run es mgr))) i = dnAck_queue mgr i @ acc \<and>
    (dnAck_dnid mgr a = dnAck_dnid mgr b \<longrightarrow> dnAck_enq_index mgr a = dnAck_enq_index mgr b)"
proof -
  have "map snd (filter (\<lambda>p. fst p = i) (fst (dnAck_run es mgr))) @ dnAck_queue (snd (snd (dnAck_run es mgr))) i =
      dnAck_queue mgr i @ filter (\<lambda>a. dnAck_enq_index mgr a = i) (fst (snd (dnAck_run es mgr)))"
  proof (induction es mgr rule: dnAck_run.induct)
    case (2 a es mgr)
    then show ?case by (simp add: Let_def submit_queue)
  next
    case (3 j es mgr)
    then show ?case using peek_queue [of mgr i j] by (auto simp: Let_def split: option.splits if_splits)
  qed simp
  then show ?thesis by (simp add: out_def acc_def dnAck_enq_index_def)
qed

theorem dnAck_fifo_witness:
  "dnAck_enq_index \<lparr>dnAck_queue = \<lambda>_. [], dnAck_qsize = 0, dnAck_dnid = \<lambda>_. 5, in_dnAck_workq = \<lambda>_. False\<rparr> 1 =
   dnAck_enq_index \<lparr>dnAck_queue = \<lambda>_. [], dnAck_qsize = 0, dnAck_dnid = \<lambda>_. 5, in_dnAck_workq = \<lambda>_. False\<rparr> 2"
  using dnAck_fifo [of 1 "[AckSubmit 1, AckSubmit 2, AckPeek 1]"
      "\<lparr>dnAck_queue = \<lambda>_. [], dnAck_qsize = 0, dnAck_dnid = \<lambda>_. 5, in_dnAck_workq = \<lambda>_. False\<rparr>" 1 2] by simp

end
