(* ===== verification/Refine_Spec.thy ===== *)
theory Refine_Spec
  imports Main
begin

text \<open>
  The contract between a data structure and its abstract specification.  The data structure is a function from an operation
  and a state to an output and the next state; the specification is a relation that says which outputs and which next abstract
  states an operation may have.  A provider shows that one step is allowed by the specification; every sequence of operations
  is then allowed by it, which is what the clients use.
\<close>

fun c_run :: "('op \<Rightarrow> 'c \<Rightarrow> 'out \<times> 'c) \<Rightarrow> 'op list \<Rightarrow> 'c \<Rightarrow> 'out list \<times> 'c" where
  "c_run step [] c = ([], c)"
| "c_run step (e # es) c =
     (let (x, c1) = step e c; (xs, c2) = c_run step es c1 in (x # xs, c2))"

fun a_run :: "('a \<Rightarrow> 'op \<Rightarrow> 'out \<Rightarrow> 'a \<Rightarrow> bool) \<Rightarrow> 'op list \<Rightarrow> 'out list \<Rightarrow> 'a \<Rightarrow> 'a \<Rightarrow> bool" where
  "a_run step [] [] a a' \<longleftrightarrow> a' = a"
| "a_run step (e # es) (x # xs) a a' \<longleftrightarrow> (\<exists>a1. step a e x a1 \<and> a_run step es xs a1 a')"
| "a_run step _ _ a a' \<longleftrightarrow> False"

locale data_refinement =
  fixes cstep :: "'op \<Rightarrow> 'c \<Rightarrow> 'out \<times> 'c"
    and astep :: "'a \<Rightarrow> 'op \<Rightarrow> 'out \<Rightarrow> 'a \<Rightarrow> bool"
    and R :: "'c \<Rightarrow> 'a \<Rightarrow> bool"
  assumes step_refines: "R c a \<Longrightarrow> \<exists>a'. astep a e (fst (cstep e c)) a' \<and> R (snd (cstep e c)) a'"
begin

lemma run_refines:
  "R c a \<Longrightarrow> \<exists>a'. a_run astep es (fst (c_run cstep es c)) a a' \<and> R (snd (c_run cstep es c)) a'"
proof (induction es arbitrary: c a)
  case (Cons e es)
  obtain a1 where a1: "astep a e (fst (cstep e c)) a1" "R (snd (cstep e c)) a1"
    using step_refines [OF Cons.prems] by blast
  from Cons.IH [OF a1(2)] obtain a' where
    "a_run astep es (fst (c_run cstep es (snd (cstep e c)))) a1 a'" "R (snd (c_run cstep es (snd (cstep e c)))) a'"
    by blast
  with a1(1) show ?case by (auto simp: case_prod_beta Let_def)
qed auto

end

end
