(* ===== verification/Radix_Tree.thy ===== *)
theory Radix_Tree
  imports Disco_Prelude Refine_Spec
begin

text \<open>
  The radix tree of \<^verbatim>\<open>lib/dms-radix-tree.c\<close>, which the metadata cache uses to find its leaves by logical block number: 64-way
  nodes, a height that grows with the largest key and shrinks again, and a scan in the order of the keys.  A slot (a
  \<^verbatim>\<open>void *\<close> of the source) is NULL, an item or a node; no two slots share a node.  The memory of the nodes is explicit: the
  outcome of the n-th call of the slab allocator is given by a function, and \<^verbatim>\<open>dms_node_count\<close> counts the nodes in use.

  The theory shows that the tree implements a finite map on 64-bit keys: insert, delete and the ascending scan are the
  operations of the map, on failing allocations too, and no node is leaked.
\<close>

subsection \<open>Nodes, roots and the node allocator\<close>

definition RADIX_TREE_MAP_SHIFT :: nat where
  "RADIX_TREE_MAP_SHIFT = 6"

definition RADIX_TREE_MAP_SIZE :: nat where
  "RADIX_TREE_MAP_SIZE = 2 ^ RADIX_TREE_MAP_SHIFT"

datatype 'a rslot = RNull | RItem 'a | RNode (rcount: nat) (rslots: "'a rslot list")

record 'a dms_radix_tree_root_t =
  rt_height :: nat
  rnode :: "'a rslot"

record rt_mem =
  kmem_ok :: "nat \<Rightarrow> bool"
  kmem_calls :: nat
  dms_node_count :: int

definition DMS_INIT_RADIX_TREE :: "'a dms_radix_tree_root_t" where
  "DMS_INIT_RADIX_TREE = \<lparr>rt_height = 0, rnode = RNull\<rparr>"

text \<open>The buffer of preloaded nodes is never filled (\<^verbatim>\<open>radix_tree_preload\<close> is commented out), so the slab allocator decides.\<close>

definition radix_tree_node_alloc :: "rt_mem \<Rightarrow> 'a rslot \<times> rt_mem" where
  "radix_tree_node_alloc m =
     (let ok = kmem_ok m (kmem_calls m); m1 = m\<lparr>kmem_calls := kmem_calls m + 1\<rparr>
      in if ok then (RNode 0 (replicate RADIX_TREE_MAP_SIZE RNull), m1\<lparr>dms_node_count := dms_node_count m1 + 1\<rparr>)
         else (RNull, m1))"

definition radix_tree_node_free :: "rt_mem \<Rightarrow> rt_mem" where
  "radix_tree_node_free m = m\<lparr>dms_node_count := dms_node_count m - 1\<rparr>"

text \<open>The largest key of a tree of a given height, as \<^verbatim>\<open>radix_tree_init_maxindex\<close> tabulates it.\<close>

definition maxindex :: "nat \<Rightarrow> nat" where
  "maxindex height =
     (let tmp = height * RADIX_TREE_MAP_SHIFT
      in if tmp \<ge> 64 then 2 ^ 64 - 1 else ((2 ^ 64 - 1) div 2 ^ (64 - tmp - 1)) div 2)"

definition rt_offset :: "nat \<Rightarrow> nat \<Rightarrow> nat" where
  "rt_offset index shift = (index div 2 ^ shift) mod RADIX_TREE_MAP_SIZE"

subsection \<open>Insertion\<close>

lemma mult_minus_1_div: "0 < a \<Longrightarrow> 0 < b \<Longrightarrow> (a * b - 1) div b = a - (1 :: nat)"
proof -
  assume *: "0 < a" "0 < b"
  then have "a * b - 1 = (b - 1) + (a - 1) * b" by (cases a; cases b) auto
  then show ?thesis using * by (simp only: div_mult_self1) simp
qed

lemma ones_div: "0 < k \<Longrightarrow> k \<le> 64 \<Longrightarrow> ((2 ^ 64 - 1 :: nat) div 2 ^ (k - 1)) div 2 = 2 ^ (64 - k) - 1"
proof -
  assume k: "0 < k" "k \<le> 64"
  have "((2 ^ 64 - 1 :: nat) div 2 ^ (k - 1)) div 2 = (2 ^ 64 - 1) div 2 ^ k"
    using k(1) by (simp only: div_mult2_eq [symmetric] power_Suc2 [symmetric] Suc_diff_1)
  moreover have "(2 ^ 64 :: nat) = 2 ^ (64 - k) * 2 ^ k" using k(2) by (simp only: power_add [symmetric] le_add_diff_inverse2)
  ultimately show ?thesis by (simp only: mult_minus_1_div zero_less_power zero_less_numeral)
qed

lemma maxindex_eq: "maxindex h = 2 ^ min 64 (6 * h) - 1"
proof (cases "64 \<le> h * 6")
  case False
  then have "((2 ^ 64 - 1 :: nat) div 2 ^ (64 - h * 6 - 1)) div 2 = 2 ^ (64 - (64 - h * 6)) - 1"
    by (intro ones_div) auto
  with False show ?thesis unfolding maxindex_def RADIX_TREE_MAP_SHIFT_def Let_def by (simp only: if_False min_def mult.commute) simp
qed (simp add: maxindex_def RADIX_TREE_MAP_SHIFT_def min_def mult.commute)

function extend_height :: "u64 \<Rightarrow> nat \<Rightarrow> nat" where
  "extend_height index height =
     (if unat index > maxindex height then extend_height index (height + 1) else height)"
  by auto

termination
proof (relation "measure (\<lambda>(index, height). 11 - height)")
  fix index :: u64 and height
  assume *: "maxindex height < unat index"
  have "unat index < 2 ^ 64" using unsigned_less [of index] by simp
  with * have "height < 11" by (simp add: maxindex_eq min_def split: if_splits)
  then show "((index, height + 1), index, height) \<in> measure (\<lambda>(index, height). 11 - height)" by simp
qed simp

declare extend_height.simps [simp del]

text \<open>The \<^verbatim>\<open>do\<close> loop of \<^verbatim>\<open>radix_tree_extend\<close>: \<open>n\<close> levels are still missing.\<close>

fun extend_loop :: "nat \<Rightarrow> 'a dms_radix_tree_root_t \<Rightarrow> rt_mem \<Rightarrow> int \<times> 'a dms_radix_tree_root_t \<times> rt_mem" where
  "extend_loop 0 root m = (0, root, m)"
| "extend_loop (Suc n) root m =
     (case radix_tree_node_alloc m of
        (RNode _ ss, m1) \<Rightarrow>
          extend_loop n \<lparr>rt_height = rt_height root + 1, rnode = RNode 1 (ss[0 := rnode root])\<rparr> m1
      | (_, m1) \<Rightarrow> (- ENOMEM, root, m1))"

definition radix_tree_extend :: "u64 \<Rightarrow> 'a dms_radix_tree_root_t \<Rightarrow> rt_mem \<Rightarrow> int \<times> 'a dms_radix_tree_root_t \<times> rt_mem" where
  "radix_tree_extend index root m =
     (let height = extend_height index (rt_height root + 1)
      in if rnode root = RNull then (0, root\<lparr>rt_height := height\<rparr>, m)
         else extend_loop (height - rt_height root) root m)"

text \<open>
  The descent of \<^verbatim>\<open>dms_radix_tree_insert\<close>: missing nodes are allocated and linked into their parent before the next level is
  entered, so a failing allocation leaves the nodes linked so far.  The result is the error code, the item that was
  replaced and the slot as the source leaves it.
\<close>

fun insert_down :: "nat \<Rightarrow> nat \<Rightarrow> 'a \<Rightarrow> 'a rslot \<Rightarrow> rt_mem \<Rightarrow> int \<times> 'a option \<times> 'a rslot \<times> rt_mem" where
  "insert_down 0 index item slot m =
     (0, (case slot of RItem old \<Rightarrow> Some old | _ \<Rightarrow> None), RItem item, m)"
| "insert_down (Suc h) index item slot m =
     (let (node, m1) = (if slot = RNull then radix_tree_node_alloc m else (slot, m))
      in if node = RNull then (- ENOMEM, None, RNull, m1)
         else (let offset = rt_offset index (h * RADIX_TREE_MAP_SHIFT);
                   child = rslots node ! offset;
                   (err, old, child', m2) = insert_down h index item child m1;
                   count = (if child = RNull \<and> child' \<noteq> RNull then rcount node + 1 else rcount node)
               in (err, old, RNode count ((rslots node)[offset := child']), m2)))"

definition dms_radix_tree_insert ::
  "u64 \<Rightarrow> 'a \<Rightarrow> 'a dms_radix_tree_root_t \<Rightarrow> rt_mem \<Rightarrow> int \<times> 'a option \<times> 'a dms_radix_tree_root_t \<times> rt_mem" where
  "dms_radix_tree_insert index item root m =
     (let (error, root1, m1) = (if unat index > maxindex (rt_height root) then radix_tree_extend index root m else (0, root, m))
      in if error \<noteq> 0 then (error, None, root1, m1)
         else (let (err, old, node, m2) = insert_down (rt_height root1) (unat index) item (rnode root1) m1
               in (err, old, root1\<lparr>rnode := node\<rparr>, m2)))"

subsection \<open>Deletion\<close>

text \<open>
  The descent and the way back of \<^verbatim>\<open>dms_radix_tree_delete\<close>.  A slot comes back as NULL when the item was in it or when the last
  entry of its node went; then the parent clears its pointer and counts down.
\<close>

fun delete_down :: "nat \<Rightarrow> nat \<Rightarrow> 'a rslot \<Rightarrow> rt_mem \<Rightarrow> 'a option \<times> 'a rslot \<times> rt_mem" where
  "delete_down 0 index slot m = (case slot of RItem x \<Rightarrow> (Some x, RNull, m) | _ \<Rightarrow> (None, slot, m))"
| "delete_down (Suc h) index slot m =
     (if slot = RNull then (None, RNull, m)
      else (let offset = rt_offset index (h * RADIX_TREE_MAP_SHIFT);
                (found, child', m1) = delete_down h index (rslots slot ! offset) m;
                slots' = (rslots slot)[offset := child']
            in if found = None then (None, slot, m1)
               else if child' \<noteq> RNull then (found, RNode (rcount slot) slots', m1)
               else if rcount slot - 1 \<noteq> 0 then (found, RNode (rcount slot - 1) slots', m1)
               else (found, RNull, radix_tree_node_free m1)))"

fun radix_tree_shrink :: "nat \<Rightarrow> 'a rslot \<Rightarrow> rt_mem \<Rightarrow> 'a dms_radix_tree_root_t \<times> rt_mem" where
  "radix_tree_shrink 0 slot m = (\<lparr>rt_height = 0, rnode = slot\<rparr>, m)"
| "radix_tree_shrink (Suc h) slot m =
     (if rcount slot = 1 \<and> rslots slot ! 0 \<noteq> RNull
      then radix_tree_shrink h (rslots slot ! 0) (radix_tree_node_free m)
      else (\<lparr>rt_height = Suc h, rnode = slot\<rparr>, m))"

text \<open>The way back stops at the root node exactly when the root's own counter went down.\<close>

definition dms_radix_tree_delete ::
  "u64 \<Rightarrow> 'a dms_radix_tree_root_t \<Rightarrow> rt_mem \<Rightarrow> 'a option \<times> 'a dms_radix_tree_root_t \<times> rt_mem" where
  "dms_radix_tree_delete index root m =
     (if unat index > maxindex (rt_height root) then (None, root, m)
      else (let (found, node, m1) = delete_down (rt_height root) (unat index) (rnode root) m
            in if found = None then (None, root, m1)
               else if node = RNull then (found, \<lparr>rt_height = 0, rnode = RNull\<rparr>, m1)
               else if rcount node < rcount (rnode root) then (found, radix_tree_shrink (rt_height root) node m1)
               else (found, root\<lparr>rnode := node\<rparr>, m1)))"

subsection \<open>The scan in the order of the keys\<close>

text \<open>
  The inner \<^verbatim>\<open>for\<close> loop of \<^verbatim>\<open>__lookup\<close> on the way down: it looks for the first used slot, moving the key to the next multiple of
  the slot's span; \<open>None\<close> is the \<^verbatim>\<open>goto out\<close>.
\<close>

function lookup_scan :: "'a rslot list \<Rightarrow> nat \<Rightarrow> nat \<Rightarrow> nat \<Rightarrow> nat option \<times> nat" where
  "lookup_scan slots shift i index =
     (if i \<ge> RADIX_TREE_MAP_SIZE then (None, index)
      else if slots ! i \<noteq> RNull then (Some i, index)
      else (let index' = (index - index mod 2 ^ shift + 2 ^ shift) mod 2 ^ 64
            in if index' = 0 then (None, index') else lookup_scan slots shift (i + 1) index'))"
  by auto
termination by (relation "measure (\<lambda>(slots, shift, i, index). RADIX_TREE_MAP_SIZE - i)") auto

function lookup_bottom :: "'a rslot list \<Rightarrow> nat \<Rightarrow> nat \<Rightarrow> nat \<Rightarrow> 'a list \<times> nat" where
  "lookup_bottom slots i index max_items =
     (if i \<ge> RADIX_TREE_MAP_SIZE then ([], index)
      else (let index' = (index + 1) mod 2 ^ 64
            in case slots ! i of
                 RItem x \<Rightarrow> if max_items = 1 then ([x], index')
                            else (let (xs, n) = lookup_bottom slots (i + 1) index' (max_items - 1) in (x # xs, n))
               | _ \<Rightarrow> lookup_bottom slots (i + 1) index' max_items))"
  by auto
termination by (relation "measure (\<lambda>(slots, i, index, max_items). RADIX_TREE_MAP_SIZE - i)") auto

declare lookup_scan.simps [simp del] lookup_bottom.simps [simp del]

fun lookup_down :: "nat \<Rightarrow> 'a rslot \<Rightarrow> nat \<Rightarrow> nat \<Rightarrow> 'a list \<times> nat" where
  "lookup_down 0 slot index max_items = lookup_bottom (rslots slot) (index mod RADIX_TREE_MAP_SIZE) index max_items"
| "lookup_down (Suc h) slot index max_items =
     (let shift = Suc h * RADIX_TREE_MAP_SHIFT
      in case lookup_scan (rslots slot) shift (rt_offset index shift) index of
           (None, index') \<Rightarrow> ([], index')
         | (Some i, index') \<Rightarrow> lookup_down h (rslots slot ! i) index' max_items)"

text \<open>\<open>None\<close> is the dereference of a NULL root node.\<close>

definition lookup :: "'a dms_radix_tree_root_t \<Rightarrow> nat \<Rightarrow> nat \<Rightarrow> ('a list \<times> nat) option" where
  "lookup root index max_items =
     (if rt_height root = 0 then
        Some (case rnode root of RItem x \<Rightarrow> if index = 0 then [x] else [] | _ \<Rightarrow> [], index)
      else if rnode root = RNull then None
      else Some (lookup_down (rt_height root - 1) (rnode root) index max_items))"

text \<open>\<open>gang_loop root max_index cur n\<close> is the \<^verbatim>\<open>while\<close> loop with \<open>n\<close> items still wanted.\<close>

partial_function (option) gang_loop :: "'a dms_radix_tree_root_t \<Rightarrow> nat \<Rightarrow> nat \<Rightarrow> nat \<Rightarrow> 'a list option" where
  "gang_loop root max_index cur_index n =
     (if n = 0 \<or> cur_index > max_index then Some []
      else Option.bind (lookup root cur_index n) (\<lambda>(xs, next_index).
        if next_index = 0 then Some xs
        else Option.bind (gang_loop root max_index next_index (n - length xs)) (\<lambda>ys. Some (xs @ ys))))"

definition dms_radix_tree_gang_lookup :: "'a dms_radix_tree_root_t \<Rightarrow> u64 \<Rightarrow> nat \<Rightarrow> 'a list option" where
  "dms_radix_tree_gang_lookup root first_index max_items =
     gang_loop root (maxindex (rt_height root)) (unat first_index) max_items"

subsection \<open>The map of a tree\<close>

text \<open>What a slot at a given height holds for a key, its well-formedness, and the number of its nodes.\<close>

fun rt_find :: "nat \<Rightarrow> 'a rslot \<Rightarrow> nat \<Rightarrow> 'a option" where
  "rt_find 0 s k = (case s of RItem x \<Rightarrow> Some x | _ \<Rightarrow> None)"
| "rt_find (Suc h) s k = (case s of RNode c ss \<Rightarrow> rt_find h (ss ! (k div 64 ^ h mod 64)) k | _ \<Rightarrow> None)"

fun rt_wf :: "nat \<Rightarrow> 'a rslot \<Rightarrow> bool" where
  "rt_wf 0 s = (case s of RNode _ _ \<Rightarrow> False | _ \<Rightarrow> True)"
| "rt_wf (Suc h) s = (case s of
      RNull \<Rightarrow> True
    | RItem _ \<Rightarrow> False
    | RNode c ss \<Rightarrow> length ss = 64 \<and> c = count_if (\<lambda>t. t \<noteq> RNull) ss \<and> (\<forall>t \<in> set ss. rt_wf h t))"

fun rt_nodes :: "'a rslot \<Rightarrow> int" where
  "rt_nodes (RNode c ss) = 1 + sum_list (map rt_nodes ss)"
| "rt_nodes _ = 0"

definition rt_map :: "'a dms_radix_tree_root_t \<Rightarrow> nat \<Rightarrow> 'a option" where
  "rt_map root k = (if k \<le> maxindex (rt_height root) then rt_find (rt_height root) (rnode root) k else None)"

definition rt_inv :: "'a dms_radix_tree_root_t \<Rightarrow> bool" where
  "rt_inv root \<longleftrightarrow> rt_height root \<le> 11 \<and> rt_wf (rt_height root) (rnode root)"

lemma size_consts [simp]: "RADIX_TREE_MAP_SIZE = 64" "2 ^ (h * RADIX_TREE_MAP_SHIFT) = (64 :: nat) ^ h"
  by (simp_all add: RADIX_TREE_MAP_SIZE_def RADIX_TREE_MAP_SHIFT_def power_mult mult.commute [of h])

lemma rt_offset_eq [simp]: "rt_offset k (h * RADIX_TREE_MAP_SHIFT) = k div 64 ^ h mod 64"
  by (simp add: rt_offset_def)

lemma mod_Suc_power: "k mod 64 ^ Suc h = n mod 64 ^ Suc h \<longleftrightarrow>
    k mod 64 ^ h = n mod 64 ^ h \<and> k div 64 ^ h mod 64 = n div 64 ^ h mod (64 :: nat)"
proof
  assume *: "k mod 64 ^ Suc h = n mod 64 ^ Suc h"
  have "m mod 64 ^ Suc h mod 64 ^ h = m mod 64 ^ h" "m mod 64 ^ Suc h div 64 ^ h = m div 64 ^ h mod 64" for m :: nat
    by (simp_all add: mod_mult2_eq mult.commute [of 64])
  with * show "k mod 64 ^ h = n mod 64 ^ h \<and> k div 64 ^ h mod 64 = n div 64 ^ h mod 64" by metis
qed (simp add: mod_mult2_eq mult.commute [of 64])

lemma count_if_update:
  "i < length xs \<Longrightarrow> count_if P (xs[i := y]) + of_bool (P (xs ! i)) = count_if P xs + of_bool (P y)"
proof (induction xs arbitrary: i)
  case (Cons a xs)
  then show ?case by (cases i) auto
qed simp

lemma nodes_update:
  "i < length ss \<Longrightarrow> sum_list (map rt_nodes (ss[i := t])) = sum_list (map rt_nodes ss) + rt_nodes t - rt_nodes (ss ! i)"
proof (induction ss arbitrary: i)
  case (Cons a ss)
  then show ?case by (cases i) auto
qed simp

lemma rt_wf_Suc_cases:
  assumes "rt_wf (Suc h) s" "s \<noteq> RNull"
  obtains ss where "s = RNode (count_if (\<lambda>t. t \<noteq> RNull) ss) ss" "length ss = 64" "\<And>i. i < 64 \<Longrightarrow> rt_wf h (ss ! i)"
  using assms by (cases s) auto

lemma rt_find_null [simp]: "rt_find h RNull k = None"
  by (cases h) auto

lemma rt_wf_null [simp]: "rt_wf h RNull"
  by (cases h) auto

lemma node_alloc_cases:
  obtains "radix_tree_node_alloc m = (RNull, m\<lparr>kmem_calls := kmem_calls m + 1\<rparr>)"
  | "radix_tree_node_alloc m = (RNode 0 (replicate 64 RNull), m\<lparr>kmem_calls := kmem_calls m + 1, dms_node_count := dms_node_count m + 1\<rparr>)"
  unfolding radix_tree_node_alloc_def by (cases "kmem_ok m (kmem_calls m)") (auto simp: Let_def)

text \<open>What the descent of an insertion does to a slot.\<close>

definition insert_spec :: "nat \<Rightarrow> nat \<Rightarrow> 'a \<Rightarrow> 'a rslot \<Rightarrow> rt_mem \<Rightarrow> int \<times> 'a option \<times> 'a rslot \<times> rt_mem \<Rightarrow> bool" where
  "insert_spec h n x s m r \<longleftrightarrow> (case r of (err, old, s', m') \<Rightarrow>
     rt_wf h s' \<and> (s \<noteq> RNull \<longrightarrow> s' \<noteq> RNull) \<and>
     dms_node_count m' - dms_node_count m = rt_nodes s' - rt_nodes s \<and>
     (err = 0 \<and> s' \<noteq> RNull \<and> old = rt_find h s n \<and>
        (\<forall>k. rt_find h s' k = (if k mod 64 ^ h = n mod 64 ^ h then Some x else rt_find h s k))
      \<or> err = - ENOMEM \<and> old = None \<and> rt_find h s' = rt_find h s))"

lemma insert_spec_node:
  assumes "length ss = 64" "\<And>i. i < 64 \<Longrightarrow> rt_wf h (ss ! i)"
    and "insert_spec h n x (ss ! (n div 64 ^ h mod 64)) m (err, old, t, m')"
  defines "i \<equiv> n div 64 ^ h mod 64"
  shows "insert_spec (Suc h) n x (RNode (count_if (\<lambda>t. t \<noteq> RNull) ss) ss) m
    (err, old, RNode (count_if (\<lambda>t. t \<noteq> RNull) ss + of_bool (ss ! i = RNull \<and> t \<noteq> RNull)) (ss[i := t]), m')"
proof -
  have i: "i < 64" "i < length ss" using assms(1) by (simp_all add: i_def)
  have t: "rt_wf h t" "ss ! i \<noteq> RNull \<Longrightarrow> t \<noteq> RNull" using assms(3) by (auto simp: insert_spec_def i_def)
  have wf: "\<forall>u \<in> set (ss[i := t]). rt_wf h u"
    using assms(1,2) t(1) set_update_subset_insert [of ss i t] by (metis in_set_conv_nth insertE subsetD)
  have c: "count_if (\<lambda>t. t \<noteq> RNull) ss + of_bool (ss ! i = RNull \<and> t \<noteq> RNull) = count_if (\<lambda>t. t \<noteq> RNull) (ss[i := t])"
    using count_if_update [OF i(2), of "\<lambda>t. t \<noteq> RNull" t] t(2) by (cases "ss ! i = RNull"; cases "t = RNull") simp_all
  have f: "rt_find (Suc h) (RNode c (ss[i := t])) k = (if k div 64 ^ h mod 64 = i then rt_find h t k else rt_find (Suc h) (RNode c ss) k)"
    for c k using i by simp
  have g: "rt_find (Suc h) (RNode c ss) n = rt_find h (ss ! i) n" for c by (simp add: i_def)
  let ?s = "RNode (count_if (\<lambda>t. t \<noteq> RNull) ss) ss" and ?s' = "RNode (count_if (\<lambda>t. t \<noteq> RNull) (ss[i := t])) (ss[i := t])"
  have w: "rt_wf (Suc h) ?s'" using wf assms(1) by simp
  have d: "dms_node_count m' - dms_node_count m = rt_nodes ?s' - rt_nodes ?s"
    using assms(3) i(2) by (auto simp: insert_spec_def nodes_update i_def)
  from assms(3) have "err = 0 \<and> old = rt_find h (ss ! i) n \<and> (\<forall>k. rt_find h t k = (if k mod 64 ^ h = n mod 64 ^ h then Some x else rt_find h (ss ! i) k))
      \<or> err = - ENOMEM \<and> old = None \<and> rt_find h t = rt_find h (ss ! i)"
    by (auto simp: insert_spec_def i_def)
  then show ?thesis
  proof
    assume *: "err = 0 \<and> old = rt_find h (ss ! i) n \<and> (\<forall>k. rt_find h t k = (if k mod 64 ^ h = n mod 64 ^ h then Some x else rt_find h (ss ! i) k))"
    then have "rt_find (Suc h) ?s' k = (if k mod 64 ^ Suc h = n mod 64 ^ Suc h then Some x else rt_find (Suc h) ?s k)" for k
      unfolding f mod_Suc_power i_def [symmetric] by simp
    with * w d show ?thesis unfolding insert_spec_def c g [of "count_if (\<lambda>t. t \<noteq> RNull) ss", symmetric] prod.case by blast
  next
    assume *: "err = - ENOMEM \<and> old = None \<and> rt_find h t = rt_find h (ss ! i)"
    then have "rt_find (Suc h) ?s' = rt_find (Suc h) ?s" by (simp only: fun_eq_iff f) simp
    with * w d show ?thesis unfolding insert_spec_def c prod.case by blast
  qed
qed

lemma insert_spec_new:
  fixes x :: 'a
  shows "insert_spec (Suc h) n x (RNode 0 (replicate 64 RNull)) m1 r \<Longrightarrow> dms_node_count m1 = dms_node_count m + 1 \<Longrightarrow>
    insert_spec (Suc h) n x RNull m r"
proof -
  have "rt_find (Suc h) (RNode 0 (replicate 64 RNull) :: 'a rslot) = rt_find (Suc h) RNull" by (auto simp: fun_eq_iff)
  moreover have "rt_nodes (RNode 0 (replicate 64 RNull) :: 'a rslot) = 1" "rt_nodes (RNull :: 'a rslot) = 0" by (simp_all add: sum_list_replicate)
  ultimately show "insert_spec (Suc h) n x (RNode 0 (replicate 64 RNull)) m1 r \<Longrightarrow> dms_node_count m1 = dms_node_count m + 1 \<Longrightarrow>
    insert_spec (Suc h) n x RNull m r"
    by (auto simp: insert_spec_def simp del: rt_find.simps rt_wf.simps rt_nodes.simps)
qed

lemma insert_down_node:
  "insert_down h n x (ss ! (n div 64 ^ h mod 64)) m = (err, old, t, m') \<Longrightarrow>
    insert_down (Suc h) n x (RNode c ss) m =
      (err, old, RNode (c + of_bool (ss ! (n div 64 ^ h mod 64) = RNull \<and> t \<noteq> RNull)) (ss[n div 64 ^ h mod 64 := t]), m')"
  by (simp add: Let_def)

lemma insert_down_spec: "rt_wf h s \<Longrightarrow> insert_spec h n x s m (insert_down h n x s m)"
proof (induction h arbitrary: s m)
  case 0
  then show ?case by (cases s) (auto simp: insert_spec_def)
next
  case (Suc h)
  have node: "insert_spec (Suc h) n x (RNode (count_if (\<lambda>t. t \<noteq> RNull) ss) ss) m
      (insert_down (Suc h) n x (RNode (count_if (\<lambda>t. t \<noteq> RNull) ss) ss) m)"
    if ss: "length ss = 64" "\<And>i. i < 64 \<Longrightarrow> rt_wf h (ss ! i)" for ss :: "'a rslot list" and m
  proof -
    obtain err old t m' where r: "insert_down h n x (ss ! (n div 64 ^ h mod 64)) m = (err, old, t, m')"
      by (metis prod_cases4)
    have "insert_spec h n x (ss ! (n div 64 ^ h mod 64)) m (err, old, t, m')"
      using Suc.IH [OF ss(2), of "n div 64 ^ h mod 64" m] r by simp
    from insert_spec_node [OF ss this] show ?thesis by (simp only: insert_down_node [OF r])
  qed
  show ?case
  proof (cases "s = RNull")
    case True
    show ?thesis
    proof -
      consider (fail) "radix_tree_node_alloc m = (RNull :: 'a rslot, m\<lparr>kmem_calls := kmem_calls m + 1\<rparr>)"
        | (ok) "radix_tree_node_alloc m = (RNode 0 (replicate 64 RNull) :: 'a rslot,
            m\<lparr>kmem_calls := kmem_calls m + 1, dms_node_count := dms_node_count m + 1\<rparr>)"
        by (rule node_alloc_cases)
      then show ?thesis
    proof cases
      case fail
      then show ?thesis by (auto simp: insert_spec_def True)
    next
      case ok
      let ?m = "m\<lparr>kmem_calls := kmem_calls m + 1, dms_node_count := dms_node_count m + 1\<rparr>"
      have 3: "insert_down (Suc h) n x s m = insert_down (Suc h) n x (RNode 0 (replicate 64 RNull)) ?m"
        using ok True by simp
      have "count_if (\<lambda>t. t \<noteq> RNull) (replicate 64 (RNull :: 'a rslot)) = 0" by (simp add: count_if_eq_0_iff)
      then have "insert_spec (Suc h) n x (RNode 0 (replicate 64 RNull)) ?m (insert_down (Suc h) n x s m)"
        unfolding 3 using node [of "replicate 64 RNull" ?m] by (simp only: length_replicate nth_replicate rt_wf_null)
      from insert_spec_new [OF this] show ?thesis unfolding True by simp
    qed
    qed
  next
    case False
    obtain ss where "s = RNode (count_if (\<lambda>t. t \<noteq> RNull) ss) ss" "length ss = 64" "\<And>i. i < 64 \<Longrightarrow> rt_wf h (ss ! i)"
      using rt_wf_Suc_cases [OF Suc.prems False] by metis
    with node [of ss m] show ?thesis by simp
  qed
qed

text \<open>Extending a tree keeps its map; the new levels only have slot 0.\<close>

lemma rt_find_grow:
  assumes "length ss = 64" "\<And>i. 0 < i \<Longrightarrow> i < 64 \<Longrightarrow> ss ! i = RNull" "k < 64 ^ Suc h"
  shows "rt_find (Suc h) (RNode c ss) k = (if k < 64 ^ h then rt_find h (ss ! 0) k else None)"
proof -
  have "k div 64 ^ h < 64" using assms(3) by (simp add: less_mult_imp_div_less)
  then have "k div 64 ^ h mod 64 = k div 64 ^ h" by simp
  moreover have "k div 64 ^ h = 0 \<longleftrightarrow> k < 64 ^ h" by (simp add: div_eq_0_iff)
  ultimately show ?thesis using assms(2) [of "k div 64 ^ h"] \<open>k div 64 ^ h < 64\<close> by auto
qed

lemma maxindex_less: "k \<le> maxindex h \<longleftrightarrow> k < 2 ^ 64 \<and> k < 64 ^ h"
proof -
  have "(2 :: nat) ^ (6 * h) = 64 ^ h" by (simp add: power_mult)
  moreover have "(2 :: nat) ^ min a b = min (2 ^ a) (2 ^ b)" for a b by (auto simp: min_def)
  moreover have "(k \<le> min a b - 1) = (k < a \<and> k < b)" if "0 < a" "0 < b" for a b :: nat
    using that by (auto simp: min_def)
  ultimately show ?thesis by (simp only: maxindex_eq zero_less_power zero_less_numeral)
qed

lemma rt_map_eq: "rt_map root k = (if k < 2 ^ 64 \<and> k < 64 ^ rt_height root then rt_find (rt_height root) (rnode root) k else None)"
  by (simp only: rt_map_def maxindex_less)

lemma extend_loop_spec:
  assumes "extend_loop n root m = (err, root', m')" "rt_height root + n \<le> 11" "rt_wf (rt_height root) (rnode root)" "rnode root \<noteq> RNull"
  shows "rt_inv root' \<and> rt_map root' = rt_map root \<and> rnode root' \<noteq> RNull \<and>
    dms_node_count m' - dms_node_count m = rt_nodes (rnode root') - rt_nodes (rnode root) \<and>
    (err = 0 \<and> rt_height root' = rt_height root + n \<or> err = - ENOMEM)"
  using assms
proof (induction n arbitrary: root m)
  case (Suc n)
  consider (fail) "radix_tree_node_alloc m = (RNull :: 'a rslot, m\<lparr>kmem_calls := kmem_calls m + 1\<rparr>)"
    | (ok) "radix_tree_node_alloc m = (RNode 0 (replicate 64 RNull) :: 'a rslot,
        m\<lparr>kmem_calls := kmem_calls m + 1, dms_node_count := dms_node_count m + 1\<rparr>)"
    by (rule node_alloc_cases)
  then show ?case
  proof cases
    case fail
    with Suc.prems show ?thesis by (auto simp: rt_inv_def)
  next
    case ok
    let ?r = "\<lparr>rt_height = rt_height root + 1, rnode = RNode 1 ((replicate 64 RNull)[0 := rnode root])\<rparr>"
    let ?m = "m\<lparr>kmem_calls := kmem_calls m + 1, dms_node_count := dms_node_count m + 1\<rparr>"
    have e: "extend_loop n ?r ?m = (err, root', m')" using Suc.prems(1) ok by simp
    have c: "count_if (\<lambda>t. t \<noteq> RNull) ((replicate 64 RNull)[0 := rnode root]) = 1"
      using count_if_update [of 0 "replicate 64 RNull" "\<lambda>t. t \<noteq> RNull" "rnode root"] Suc.prems(4)
      by (simp add: count_if_def)
    have wf: "rt_wf (rt_height ?r) (rnode ?r)"
      using c Suc.prems(3) set_update_subset_insert [of "replicate 64 RNull" 0 "rnode root"] by auto
    have "rt_map ?r = rt_map root"
      using rt_find_grow [of "(replicate 64 RNull)[0 := rnode root]" _ "rt_height root" 1]
      by (auto simp: rt_map_eq fun_eq_iff)
    moreover have "rt_nodes (rnode ?r) = 1 + rt_nodes (rnode root)"
      using nodes_update [of 0 "replicate 64 RNull" "rnode root"] by (simp add: sum_list_replicate)
    ultimately show ?thesis using Suc.IH [OF e _ wf] Suc.prems(2) by auto
  qed
qed (auto simp: rt_inv_def)

lemma extend_height_spec: "h \<le> extend_height index h \<and> unat index \<le> maxindex (extend_height index h)"
proof (induction index h rule: extend_height.induct)
  case (1 index h)
  then show ?case by (cases "unat index > maxindex h") (auto simp: extend_height.simps [of index h])
qed

lemma extend_height_le: "h \<le> 11 \<Longrightarrow> extend_height index h \<le> 11"
proof (induction index h rule: extend_height.induct)
  case (1 index h)
  have "unat index < 2 ^ 64" using unsigned_less [of index] by simp
  then have "unat index \<le> maxindex 11" by (simp add: maxindex_less)
  with 1 show ?case by (cases "unat index > maxindex h"; cases "h = 11") (auto simp: extend_height.simps [of index h] extend_height.simps [of index 11])
qed

lemma maxindex_height: "maxindex h < unat (index :: u64) \<Longrightarrow> h < 11"
proof (rule ccontr)
  assume "maxindex h < unat index" "\<not> h < 11"
  moreover have "unat index < 2 ^ 64" using unsigned_less [of index] by simp
  moreover have "(64 :: nat) ^ 11 \<le> 64 ^ h" using \<open>\<not> h < 11\<close> by (intro power_increasing) auto
  ultimately show False using maxindex_less [of "unat index" h] by simp
qed

lemma radix_tree_extend_spec:
  assumes "rt_inv root" "maxindex (rt_height root) < unat index" "radix_tree_extend index root m = (err, root', m')"
  shows "rt_inv root' \<and> rt_map root' = rt_map root \<and>
    dms_node_count m' - dms_node_count m = rt_nodes (rnode root') - rt_nodes (rnode root) \<and>
    (err = 0 \<and> unat index \<le> maxindex (rt_height root') \<or> err = - ENOMEM)"
proof -
  let ?h = "extend_height index (rt_height root + 1)"
  have h: "rt_height root + 1 \<le> ?h" "?h \<le> 11" "unat index \<le> maxindex ?h"
    using extend_height_spec [of "rt_height root + 1" index] extend_height_le [of "rt_height root + 1" index]
      maxindex_height [OF assms(2)] by auto
  show ?thesis
  proof (cases "rnode root = RNull")
    case True
    with assms(3) h show ?thesis by (auto simp: radix_tree_extend_def rt_inv_def rt_map_def fun_eq_iff)
  next
    case False
    with assms(3) have "extend_loop (?h - rt_height root) root m = (err, root', m')" by (simp add: radix_tree_extend_def)
    from extend_loop_spec [OF this _ _ False] assms(1) h show ?thesis by (auto simp: rt_inv_def)
  qed
qed

lemma dms_radix_tree_insert_spec:
  assumes "rt_inv root" "dms_radix_tree_insert index x root m = (err, old, root', m')"
  shows "rt_inv root' \<and> dms_node_count m' - dms_node_count m = rt_nodes (rnode root') - rt_nodes (rnode root) \<and>
    (err = 0 \<and> rnode root' \<noteq> RNull \<and> old = rt_map root (unat index) \<and> rt_map root' = (rt_map root)(unat index \<mapsto> x)
     \<or> err = - ENOMEM \<and> old = None \<and> rt_map root' = rt_map root)"
proof -
  obtain e r1 m1 where e: "(if unat index > maxindex (rt_height root) then radix_tree_extend index root m else (0, root, m)) = (e, r1, m1)"
    by (metis prod_cases3)
  have x: "rt_inv r1" "rt_map r1 = rt_map root" "dms_node_count m1 - dms_node_count m = rt_nodes (rnode r1) - rt_nodes (rnode root)"
      "e = 0 \<and> unat index \<le> maxindex (rt_height r1) \<or> e = - ENOMEM"
    using radix_tree_extend_spec [OF assms(1), of index m e r1 m1] e assms(1) by (auto split: if_splits)
  show ?thesis
  proof (cases "e = 0")
    case False
    then show ?thesis using assms(2) x e by (auto simp: dms_radix_tree_insert_def)
  next
    case True
    obtain s' where s': "insert_down (rt_height r1) (unat index) x (rnode r1) m1 = (err, old, s', m')" "root' = r1\<lparr>rnode := s'\<rparr>"
      using assms(2) e True by (auto simp: dms_radix_tree_insert_def split: prod.splits)
    have sp: "insert_spec (rt_height r1) (unat index) x (rnode r1) m1 (err, old, s', m')"
      using insert_down_spec [of "rt_height r1" "rnode r1"] x(1) s'(1) by (metis rt_inv_def)
    have i: "unat index < 2 ^ 64" "unat index < 64 ^ rt_height r1"
      using x(4) True by (simp_all add: maxindex_less ENOMEM_def)
    have "rt_map root' = (rt_map r1)(unat index \<mapsto> x)"
      if "\<forall>k. rt_find (rt_height r1) s' k =
        (if k mod 64 ^ rt_height r1 = unat index mod 64 ^ rt_height r1 then Some x else rt_find (rt_height r1) (rnode r1) k)"
      using that i by (auto simp: fun_eq_iff rt_map_eq s'(2))
    moreover have "rt_map root' = rt_map r1" if "rt_find (rt_height r1) s' = rt_find (rt_height r1) (rnode r1)"
      using that by (simp add: fun_eq_iff rt_map_eq s'(2))
    moreover have "rt_map r1 (unat index) = rt_find (rt_height r1) (rnode r1) (unat index)" using i by (simp add: rt_map_eq)
    ultimately show ?thesis using sp x(1-3) by (auto simp: insert_spec_def rt_inv_def s'(2))
  qed
qed

text \<open>What the descent of a deletion does to a slot.\<close>

definition delete_spec :: "nat \<Rightarrow> nat \<Rightarrow> 'a rslot \<Rightarrow> rt_mem \<Rightarrow> 'a option \<times> 'a rslot \<times> rt_mem \<Rightarrow> bool" where
  "delete_spec h n s m r \<longleftrightarrow> (case r of (found, s', m') \<Rightarrow>
     found = rt_find h s n \<and> rt_wf h s' \<and> (found = None \<longrightarrow> s' = s) \<and>
     dms_node_count m' - dms_node_count m = rt_nodes s' - rt_nodes s \<and>
     (\<forall>k. rt_find h s' k = (if k mod 64 ^ h = n mod 64 ^ h then None else rt_find h s k)))"

lemma nodes_all_null: "count_if (\<lambda>t. t \<noteq> RNull) ss = 0 \<Longrightarrow> sum_list (map rt_nodes ss) = 0"
  by (induction ss) (auto split: if_splits)

lemma find_all_null:
  "count_if (\<lambda>t. t \<noteq> RNull) ss = 0 \<Longrightarrow> length ss = 64 \<Longrightarrow> rt_find (Suc h) (RNode c ss) k = None"
proof -
  assume "count_if (\<lambda>t. t \<noteq> RNull) ss = 0" "length ss = 64"
  then have "ss ! (k div 64 ^ h mod 64) = RNull" by (simp add: count_if_eq_0_iff)
  then show ?thesis by simp
qed

lemma delete_down_spec: "rt_wf h s \<Longrightarrow> delete_spec h n s m (delete_down h n s m)"
proof (induction h arbitrary: s m)
  case 0
  then show ?case by (cases s) (auto simp: delete_spec_def)
next
  case (Suc h)
  show ?case
  proof (cases "s = RNull")
    case True
    then show ?thesis by (simp add: delete_spec_def)
  next
    case False
    obtain ss where s: "s = RNode (count_if (\<lambda>t. t \<noteq> RNull) ss) ss" "length ss = 64" "\<And>i. i < 64 \<Longrightarrow> rt_wf h (ss ! i)"
      using rt_wf_Suc_cases [OF Suc.prems False] by metis
    define i where "i = n div 64 ^ h mod 64"
    have i: "i < 64" "i < length ss" by (simp_all add: i_def s(2))
    obtain fd t m' where r: "delete_down h n (ss ! i) m = (fd, t, m')" by (metis prod_cases3)
    have sp: "fd = rt_find h (ss ! i) n" "rt_wf h t" "fd = None \<Longrightarrow> t = ss ! i"
      "dms_node_count m' - dms_node_count m = rt_nodes t - rt_nodes (ss ! i)"
      "\<And>k. rt_find h t k = (if k mod 64 ^ h = n mod 64 ^ h then None else rt_find h (ss ! i) k)"
      using Suc.IH [OF s(3) [OF i(1)], of m] unfolding r delete_spec_def by auto
    have wf: "\<forall>u \<in> set (ss[i := t]). rt_wf h u"
      using s(2,3) sp(2) set_update_subset_insert [of ss i t] by (metis in_set_conv_nth insertE subsetD)
    have nn: "ss ! i \<noteq> RNull" if "fd \<noteq> None" using sp(1) that by auto
    have c: "count_if (\<lambda>t. t \<noteq> RNull) (ss[i := t]) = count_if (\<lambda>t. t \<noteq> RNull) ss - of_bool (t = RNull)" if "fd \<noteq> None"
      using count_if_update [OF i(2), of "\<lambda>t. t \<noteq> RNull" t] nn [OF that] by (cases "t = RNull") simp_all
    have f: "rt_find (Suc h) (RNode c (ss[i := t])) k = (if k mod 64 ^ Suc h = n mod 64 ^ Suc h then None else rt_find (Suc h) s k)" for c k
      unfolding mod_Suc_power i_def [symmetric] using i sp(5) by (cases "k div 64 ^ h mod 64 = i") (simp_all add: s(1))
    have g: "rt_find (Suc h) s n = fd" by (simp add: s(1) sp(1) i_def)
    let ?s' = "if fd = None then s else if count_if (\<lambda>t. t \<noteq> RNull) (ss[i := t]) = 0 then RNull
        else RNode (count_if (\<lambda>t. t \<noteq> RNull) (ss[i := t])) (ss[i := t])"
    have d: "delete_down (Suc h) n s m = (fd, ?s', if fd \<noteq> None \<and> count_if (\<lambda>t. t \<noteq> RNull) (ss[i := t]) = 0 then radix_tree_node_free m' else m')"
    proof -
      have "count_if (\<lambda>t. t \<noteq> RNull) (ss[i := t]) \<noteq> 0" if "t \<noteq> RNull"
        using that i(2) by (auto simp: count_if_eq_0_iff intro!: bexI [of _ t] set_update_memI)
      then show ?thesis using False c
        by (cases fd; cases "t = RNull") (simp_all add: s(1) r Let_def i_def [symmetric])
    qed
    have nodes: "sum_list (map rt_nodes (ss[i := t])) = sum_list (map rt_nodes ss) + rt_nodes t - rt_nodes (ss ! i)"
      by (rule nodes_update [OF i(2)])
    have un: "rt_find (Suc h) s k = (if k mod 64 ^ Suc h = n mod 64 ^ Suc h then None else rt_find (Suc h) s k)" if "fd = None" for k
      using f [of "count_if (\<lambda>t. t \<noteq> RNull) ss" k] sp(3) [OF that] by (simp only: list_update_id s(1) [symmetric])
    consider "fd = None" | "fd \<noteq> None" "count_if (\<lambda>t. t \<noteq> RNull) (ss[i := t]) = 0" | "fd \<noteq> None" "count_if (\<lambda>t. t \<noteq> RNull) (ss[i := t]) \<noteq> 0"
      by blast
    then show ?thesis
    proof cases
      case 1
      with g un sp(3,4) Suc.prems show ?thesis unfolding d delete_spec_def by simp
    next
      case 2
      have "rt_find (Suc h) RNull k = (if k mod 64 ^ Suc h = n mod 64 ^ Suc h then None else rt_find (Suc h) s k)" for k
        using f [of 0 k] find_all_null [OF 2(2), of h 0 k] s(2) by (simp only: length_list_update rt_find_null)
      moreover obtain y where "fd = Some y" using 2(1) by blast
      ultimately show ?thesis using 2(2) g sp(4) nodes nodes_all_null [OF 2(2)]
        unfolding d delete_spec_def by (simp add: s(1) radix_tree_node_free_def)
    next
      case 3
      moreover obtain y where "fd = Some y" using 3(1) by blast
      ultimately show ?thesis using g f wf sp(4) nodes s(2)
        unfolding d delete_spec_def by (simp add: s(1) del: rt_find.simps)
    qed
  qed
qed

text \<open>Shrinking takes levels off that only have slot 0.\<close>

lemma count_if_1_others:
  assumes "count_if P ss = 1" "P (ss ! 0)" "0 < i" "i < length ss"
  shows "\<not> P (ss ! i)"
proof
  assume "P (ss ! i)"
  moreover have "0 < length ss" by (rule less_trans [OF assms(3,4)])
  ultimately show False using count_if_le_1_unique [of P ss 0 i] assms by simp
qed

lemma nodes_slot0:
  assumes "\<And>i. 0 < i \<Longrightarrow> i < length ss \<Longrightarrow> ss ! i = RNull" "0 < length ss"
  shows "sum_list (map rt_nodes ss) = rt_nodes (ss ! 0)"
proof (cases ss)
  case (Cons a r)
  have "r ! i = RNull" if "i < length r" for i
    using assms(1) [of "Suc i"] that unfolding Cons by simp
  then have "count_if (\<lambda>t. t \<noteq> RNull) r = 0" unfolding count_if_eq_0_iff all_set_conv_all_nth by simp
  then have "sum_list (map rt_nodes r) = 0" by (rule nodes_all_null)
  then show ?thesis unfolding Cons by simp
qed (use assms(2) in simp)

lemma radix_tree_shrink_spec:
  assumes "rt_wf h s" "s \<noteq> RNull" "radix_tree_shrink h s m = (root', m')"
  shows "rt_height root' \<le> h \<and> rt_wf (rt_height root') (rnode root') \<and> rnode root' \<noteq> RNull \<and>
    rt_map root' = rt_map \<lparr>rt_height = h, rnode = s\<rparr> \<and>
    dms_node_count m' - dms_node_count m = rt_nodes (rnode root') - rt_nodes s"
  using assms
proof (induction h arbitrary: s m)
  case (Suc h)
  obtain ss where s: "s = RNode (count_if (\<lambda>t. t \<noteq> RNull) ss) ss" "length ss = 64" "\<And>i. i < 64 \<Longrightarrow> rt_wf h (ss ! i)"
    using rt_wf_Suc_cases [OF Suc.prems(1,2)] by metis
  show ?case
  proof (cases "count_if (\<lambda>t. t \<noteq> RNull) ss = 1 \<and> ss ! 0 \<noteq> RNull")
    case True
    have o: "ss ! i = RNull" if "0 < i" "i < length ss" for i
      using count_if_1_others [of "\<lambda>t. t \<noteq> RNull" ss i] True that by auto
    have "radix_tree_shrink h (ss ! 0) (radix_tree_node_free m) = (root', m')"
      using Suc.prems(3) True by (simp add: s(1))
    from Suc.IH [OF s(3) _ this] have ih: "rt_height root' \<le> h" "rt_wf (rt_height root') (rnode root')" "rnode root' \<noteq> RNull"
        "rt_map root' = rt_map \<lparr>rt_height = h, rnode = ss ! 0\<rparr>"
        "dms_node_count m' - dms_node_count (radix_tree_node_free m) = rt_nodes (rnode root') - rt_nodes (ss ! 0)"
      using True by auto
    have "rt_map \<lparr>rt_height = Suc h, rnode = s\<rparr> k = rt_map \<lparr>rt_height = h, rnode = ss ! 0\<rparr> k" for k
      using rt_find_grow [of ss k h "count_if (\<lambda>t. t \<noteq> RNull) ss"] o s(2) by (auto simp: rt_map_eq s(1))
    moreover have "rt_nodes s = 1 + rt_nodes (ss ! 0)"
      using nodes_slot0 [of ss] o s(2) by (simp add: s(1))
    ultimately show ?thesis using ih by (auto simp: radix_tree_node_free_def fun_eq_iff)
  next
    case False
    then show ?thesis using Suc.prems by (auto simp: s(1))
  qed
qed auto

lemma rt_map_empty: "rt_map \<lparr>rt_height = h, rnode = RNull\<rparr> = Map.empty"
  by (simp add: rt_map_def fun_eq_iff)

lemma dms_radix_tree_delete_spec:
  assumes "rt_inv root" "dms_radix_tree_delete index root m = (found, root', m')"
  shows "rt_inv root' \<and> found = rt_map root (unat index) \<and> rt_map root' = (rt_map root)(unat index := None) \<and>
    (rnode root' = RNull \<longrightarrow> rt_height root' = 0 \<or> root' = root) \<and>
    dms_node_count m' - dms_node_count m = rt_nodes (rnode root') - rt_nodes (rnode root)"
proof (cases "unat index > maxindex (rt_height root)")
  case True
  with assms show ?thesis by (auto simp: dms_radix_tree_delete_def rt_map_def fun_eq_iff)
next
  case False
  let ?h = "rt_height root"
  have i: "unat index < 2 ^ 64" "unat index < 64 ^ ?h" using False by (simp_all add: maxindex_less not_less)
  obtain fd t m1 where d: "delete_down ?h (unat index) (rnode root) m = (fd, t, m1)" by (metis prod_cases3)
  have wf: "rt_wf ?h (rnode root)" "?h \<le> 11" using assms(1) by (simp_all add: rt_inv_def)
  have sp: "fd = rt_map root (unat index)" "rt_wf ?h t" "fd = None \<Longrightarrow> t = rnode root"
    "dms_node_count m1 - dms_node_count m = rt_nodes t - rt_nodes (rnode root)"
    "rt_map \<lparr>rt_height = ?h, rnode = t\<rparr> = (rt_map root)(unat index := None)"
    using delete_down_spec [OF wf(1), of "unat index" m] i unfolding d delete_spec_def by (auto simp: rt_map_eq fun_eq_iff)
  consider "fd = None" | "fd \<noteq> None" "t = RNull" | "fd \<noteq> None" "t \<noteq> RNull" "rcount t < rcount (rnode root)"
    | "fd \<noteq> None" "t \<noteq> RNull" "\<not> rcount t < rcount (rnode root)" by blast
  then show ?thesis
  proof cases
    case 1
    with sp assms(1,2) False d show ?thesis by (auto simp: dms_radix_tree_delete_def fun_eq_iff)
  next
    case 2
    with sp(1,3-5) assms(1,2) False d show ?thesis
      by (auto simp: dms_radix_tree_delete_def rt_inv_def rt_map_empty)
  next
    case 3
    then have r: "radix_tree_shrink ?h t m1 = (root', m')" "found = fd"
      using assms(2) False d by (auto simp: dms_radix_tree_delete_def)
    from radix_tree_shrink_spec [OF sp(2) 3(2) r(1)] sp r(2) wf(2) show ?thesis by (auto simp: rt_inv_def)
  next
    case 4
    then have r: "root' = root\<lparr>rnode := t\<rparr>" "found = fd" "m' = m1"
      using assms(2) False d by (auto simp: dms_radix_tree_delete_def)
    have "root' = \<lparr>rt_height = ?h, rnode = t\<rparr>" by (simp add: r(1))
    with sp r(2,3) wf(2) 4 show ?thesis by (auto simp: rt_inv_def)
  qed
qed

subsection \<open>The scan returns the items in the order of the keys\<close>

text \<open>The items of a map with keys in an interval, in ascending order of the keys.\<close>

definition rt_range :: "(nat \<Rightarrow> 'a option) \<Rightarrow> nat \<Rightarrow> nat \<Rightarrow> 'a list" where
  "rt_range M a b = map (\<lambda>k. the (M k)) (filter (\<lambda>k. M k \<noteq> None) [a..<b])"

lemma rt_range_append: "a \<le> b \<Longrightarrow> b \<le> c \<Longrightarrow> rt_range M a c = rt_range M a b @ rt_range M b c"
  using upt_add_eq_append [of a b "c - b"] by (simp add: rt_range_def)

lemma rt_range_none: "(\<And>k. a \<le> k \<Longrightarrow> k < b \<Longrightarrow> M k = None) \<Longrightarrow> rt_range M a b = []"
  by (simp add: rt_range_def filter_empty_conv)

lemma rt_range_cong: "(\<And>k. a \<le> k \<Longrightarrow> k < b \<Longrightarrow> M k = M' k) \<Longrightarrow> rt_range M a b = rt_range M' a b"
  by (auto simp: rt_range_def intro!: map_cong filter_cong)

lemma rt_range_single: "rt_range M a (Suc a) = (case M a of None \<Rightarrow> [] | Some x \<Rightarrow> [x])"
  by (auto simp: rt_range_def split: option.splits)

lemma rt_range_empty [simp]: "rt_range M a a = []"
  by (simp add: rt_range_def)

lemma lookup_bottom_spec:
  assumes "B + 64 \<le> 2 ^ 64" "i \<le> 64" "0 < mx" "\<And>j. j < 64 \<Longrightarrow> rt_wf 0 (ss ! j)"
    and "lookup_bottom ss i ((B + i) mod 2 ^ 64) mx = (xs, nxt)"
  shows "\<exists>N. B + i \<le> N \<and> (i < 64 \<longrightarrow> B + i < N) \<and> N \<le> B + 64 \<and> nxt = N mod 2 ^ 64 \<and>
    xs = rt_range (\<lambda>k. rt_find 0 (ss ! (k - B)) k) (B + i) N \<and> length xs \<le> mx"
  using assms(2,3,5)
proof (induction "64 - i" arbitrary: i mx xs nxt)
  case 0
  then show ?case by (auto simp: lookup_bottom.simps [of ss 64] intro!: exI [of _ "B + 64"])
next
  case (Suc d)
  then have i: "i < 64" by simp
  let ?M = "\<lambda>k. rt_find 0 (ss ! (k - B)) k"
  have n: "((B + i) mod 2 ^ 64 + 1) mod 2 ^ 64 = (B + (i + 1)) mod 2 ^ 64" by (simp add: mod_Suc_eq)
  have r: "rt_range ?M (B + i) N = (case ss ! i of RItem x \<Rightarrow> [x] | _ \<Rightarrow> []) @ rt_range ?M (B + (i + 1)) N" if "B + (i + 1) \<le> N" for N
    using rt_range_append [of "B + i" "B + (i + 1)" N ?M] that rt_range_single [of ?M "B + i"]
    by (auto split: rslot.splits)
  have d: "d = 64 - (i + 1)" "i + 1 \<le> 64" using Suc.hyps(2) i by simp_all
  show ?case
  proof (cases "\<exists>x. ss ! i = RItem x")
    case False
    then have "lookup_bottom ss (i + 1) ((B + (i + 1)) mod 2 ^ 64) mx = (xs, nxt)"
      using Suc.prems(3) i n by (auto simp: lookup_bottom.simps [of ss i] Let_def split: rslot.splits)
    from Suc.hyps(1) [OF d Suc.prems(2) this] obtain N where "B + (i + 1) \<le> N" "N \<le> B + 64" "nxt = N mod 2 ^ 64"
      "xs = rt_range ?M (B + (i + 1)) N" "length xs \<le> mx" by blast
    with r False i show ?thesis by (intro exI [of _ N]) (auto split: rslot.splits)
  next
    case True
    then obtain x where x: "ss ! i = RItem x" by blast
    show ?thesis
    proof (cases "mx = 1")
      case True
      then have "xs = [x]" "nxt = (B + (i + 1)) mod 2 ^ 64"
        using Suc.prems(3) i n x by (auto simp: lookup_bottom.simps [of ss i] Let_def)
      then show ?thesis using r [of "B + (i + 1)"] x i True by (intro exI [of _ "B + (i + 1)"]) auto
    next
      case False
      then obtain ys where ys: "lookup_bottom ss (i + 1) ((B + (i + 1)) mod 2 ^ 64) (mx - 1) = (ys, nxt)" "xs = x # ys"
        using Suc.prems(3) i n x by (auto simp: lookup_bottom.simps [of ss i] Let_def split: prod.splits)
      have "0 < mx - 1" using False Suc.prems(2) by simp
      from Suc.hyps(1) [OF d this ys(1)] obtain N where "B + (i + 1) \<le> N" "N \<le> B + 64" "nxt = N mod 2 ^ 64"
        "ys = rt_range ?M (B + (i + 1)) N" "length ys \<le> mx - 1" by blast
      with r x i False Suc.prems(2) ys(2) show ?thesis by (intro exI [of _ N]) auto
    qed
  qed
qed

lemma next_multiple:
  fixes W :: nat
  assumes "0 < W" "W dvd D" "n < D"
  shows "n - n mod W + W = (n div W + 1) * W" "(n div W + 1) * W \<le> D" "n < (n div W + 1) * W"
proof -
  have "n - n mod W = n div W * W" using minus_mod_eq_div_mult [of n W] by simp
  then show "n - n mod W + W = (n div W + 1) * W" by simp
  obtain q where q: "D = q * W" using assms(2) by (metis dvd_def mult.commute)
  then have "n div W < q" using assms by (simp add: div_less_iff_less_mult)
  then show "(n div W + 1) * W \<le> D" unfolding q by (intro mult_le_mono1) simp
  show "n < (n div W + 1) * W" using assms(1) by (simp add: dividend_less_div_times add.commute)
qed

lemma div_between: "n div W * W \<le> k \<Longrightarrow> k < (n div W + 1) * W \<Longrightarrow> k div W = (n div W :: nat)"
  by (metis Suc_eq_plus1 div_nat_eqI mult.commute)

lemma lookup_scan_spec:
  assumes W: "2 ^ shift dvd (2 ^ 64 :: nat)" "W = 2 ^ shift"
    and "lookup_scan ss shift i n = (res, nxt)" "n < 2 ^ 64" "n div W = 64 * P + i" "i < 64 \<or> i = 64 \<and> n mod W = 0"
  shows "\<exists>N. n \<le> N \<and> N \<le> 2 ^ 64 \<and> N \<le> (64 * P + 64) * W \<and> nxt = N mod 2 ^ 64 \<and>
    (\<forall>k. n \<le> k \<and> k < N \<longrightarrow> ss ! (k div W - 64 * P) = RNull) \<and>
    (case res of None \<Rightarrow> i < 64 \<longrightarrow> n < N
     | Some j \<Rightarrow> N < 2 ^ 64 \<and> N div W = 64 * P + j \<and> j < 64 \<and> ss ! j \<noteq> RNull)"
  using assms(3-6)
proof (induction "64 - i" arbitrary: i n)
  case 0
  then have "i = 64" by simp
  with 0 W show ?case
    using div_mult_mod_eq [of n W] by (auto simp: lookup_scan.simps [of ss shift 64] intro!: exI [of _ n])
next
  case (Suc d)
  then have i: "i < 64" by simp
  have Wpos: "0 < W" "W dvd 2 ^ 64" using W by simp_all
  note nm = next_multiple [OF Wpos Suc.prems(2)]
  let ?n = "(n div W + 1) * W"
  have le: "?n \<le> (64 * P + 64) * W" unfolding Suc.prems(3) using i by (intro mult_le_mono1) simp
  show ?case
  proof (cases "ss ! i = RNull")
    case False
    with i Suc.prems have "res = Some i" "nxt = n" by (auto simp: lookup_scan.simps [of ss shift i])
    then show ?thesis using False i Suc.prems le nm(3) by (intro exI [of _ n]) auto
  next
    case True
    have gap: "ss ! (k div W - 64 * P) = RNull" if "n \<le> k" "k < ?n" for k
    proof -
      have "n div W * W \<le> k" using div_times_less_eq_dividend [of n W] that(1) by (rule le_trans)
      then have "k div W = n div W" using that(2) by (rule div_between)
      then show ?thesis using True Suc.prems(3) by simp
    qed
    show ?thesis
    proof (cases "?n = 2 ^ 64")
      case True
      then have "res = None" "nxt = 0"
        using Suc.prems(1) i \<open>ss ! i = RNull\<close> nm(1) W(2) by (auto simp: lookup_scan.simps [of ss shift i] Let_def)
      then show ?thesis using True le gap nm(3) Suc.prems(2) i by (intro exI [of _ "?n"]) auto
    next
      case False
      with nm(2) have n: "?n < 2 ^ 64" by simp
      then have "?n mod 2 ^ 64 = ?n" "?n \<noteq> 0" using Wpos by simp_all
      then have l: "lookup_scan ss shift (i + 1) ?n = (res, nxt)"
        using Suc.prems(1) i True nm(1) W(2) by (simp add: lookup_scan.simps [of ss shift i] Let_def)
      have q: "?n div W = 64 * P + (i + 1)" using Wpos Suc.prems(3) by simp
      have "d = 64 - (i + 1)" "i + 1 < 64 \<or> i + 1 = 64 \<and> ?n mod W = 0" using Suc.hyps(2) i by auto
      from Suc.hyps(1) [OF this(1) l n q this(2)] obtain N where N: "?n \<le> N" "N \<le> 2 ^ 64"
          "N \<le> (64 * P + 64) * W" "nxt = N mod 2 ^ 64"
          "\<forall>k. ?n \<le> k \<and> k < N \<longrightarrow> ss ! (k div W - 64 * P) = RNull"
          "case res of None \<Rightarrow> i + 1 < 64 \<longrightarrow> ?n < N | Some j \<Rightarrow> N < 2 ^ 64 \<and> N div W = 64 * P + j \<and> j < 64 \<and> ss ! j \<noteq> RNull"
        by blast
      have "\<forall>k. n \<le> k \<and> k < N \<longrightarrow> ss ! (k div W - 64 * P) = RNull" using gap N(5) by (meson not_le)
      moreover have "case res of None \<Rightarrow> i < 64 \<longrightarrow> n < N | Some j \<Rightarrow> N < 2 ^ 64 \<and> N div W = 64 * P + j \<and> j < 64 \<and> ss ! j \<noteq> RNull"
        using N(1,6) nm(3) by (auto split: option.splits)
      ultimately show ?thesis using N(1-4) nm(3) by (intro exI [of _ N]) auto
    qed
  qed
qed

lemma lookup_down_spec:
  assumes "rt_wf (Suc h) s" "s \<noteq> RNull" "n < 2 ^ 64" "h \<le> 10" "0 < mx" "lookup_down h s n mx = (xs, nxt)"
  shows "\<exists>N. n < N \<and> N \<le> 2 ^ 64 \<and> N \<le> (n div 64 ^ Suc h + 1) * 64 ^ Suc h \<and> nxt = N mod 2 ^ 64 \<and>
    xs = rt_range (rt_find (Suc h) s) n N \<and> length xs \<le> mx"
  using assms
proof (induction h arbitrary: s n xs)
  case 0
  obtain ss where s: "s = RNode (count_if (\<lambda>t. t \<noteq> RNull) ss) ss" "length ss = 64" "\<And>i. i < 64 \<Longrightarrow> rt_wf 0 (ss ! i)"
    using rt_wf_Suc_cases [OF 0(1,2)] by metis
  define B where "B = n div 64 * 64"
  have b: "(n div 64 + 1) * 64 \<le> 2 ^ 64" using next_multiple(2) [of 64 "2 ^ 64" n] 0(3) by simp
  have n: "n = B + n mod 64" by (simp add: B_def)
  have "lookup_bottom ss (n mod 64) ((B + n mod 64) mod 2 ^ 64) mx = (xs, nxt)"
    using 0(3,6) n by (simp add: s(1))
  from lookup_bottom_spec [OF _ _ 0(5) s(3) this] b obtain N where
    N: "n < N" "N \<le> B + 64" "nxt = N mod 2 ^ 64" "xs = rt_range (\<lambda>k. rt_find 0 (ss ! (k - B)) k) n N" "length xs \<le> mx"
    unfolding n [symmetric] by (auto simp: B_def)
  have "k - B = k mod 64" if "n \<le> k" "k < N" for k
  proof -
    have "k div 64 = n div 64" using div_between [of n 64 k] that N(2) by (simp add: B_def)
    then show ?thesis using minus_div_mult_eq_mod [of k 64] by (simp add: B_def)
  qed
  then have "xs = rt_range (rt_find (Suc 0) s) n N" unfolding N(4) by (intro rt_range_cong) (simp add: s(1))
  then show ?case using N(1-3,5) b by (intro exI [of _ N]) (auto simp: B_def simp del: rt_find.simps)
next
  case (Suc h)
  obtain ss where s: "s = RNode (count_if (\<lambda>t. t \<noteq> RNull) ss) ss" "length ss = 64" "\<And>i. i < 64 \<Longrightarrow> rt_wf (Suc h) (ss ! i)"
    using rt_wf_Suc_cases [OF Suc.prems(1,2)] by metis
  define W where "W = (64 :: nat) ^ Suc h"
  define P where "P = n div W div 64"
  have W: "2 ^ (Suc h * RADIX_TREE_MAP_SHIFT) = W" "0 < W" by (simp_all only: W_def size_consts zero_less_power zero_less_numeral)
  have "(2 :: nat) ^ (6 * Suc h) dvd 2 ^ 64" using Suc.prems(4) by (intro le_imp_power_dvd) simp
  then have dv: "2 ^ (Suc h * RADIX_TREE_MAP_SHIFT) dvd (2 ^ 64 :: nat)" by (simp add: RADIX_TREE_MAP_SHIFT_def mult.commute)
  have p: "n div W = 64 * P + n div W mod 64" by (simp add: P_def)
  obtain res n1 where l: "lookup_scan ss (Suc h * RADIX_TREE_MAP_SHIFT) (n div W mod 64) n = (res, n1)" by (metis prod.exhaust)
  from lookup_scan_spec [OF dv W(1) [symmetric] l Suc.prems(3) p] obtain N1 where
    N1: "n \<le> N1" "N1 \<le> 2 ^ 64" "N1 \<le> (64 * P + 64) * W" "n1 = N1 mod 2 ^ 64"
      "\<And>k. n \<le> k \<Longrightarrow> k < N1 \<Longrightarrow> ss ! (k div W - 64 * P) = RNull"
      "case res of None \<Rightarrow> n < N1 | Some j \<Rightarrow> N1 < 2 ^ 64 \<and> N1 div W = 64 * P + j \<and> j < 64 \<and> ss ! j \<noteq> RNull"
    by (auto split: option.splits)
  have blk: "(n div 64 ^ Suc (Suc h) + 1) * 64 ^ Suc (Suc h) = (64 * P + 64) * W"
  proof -
    have "64 ^ Suc (Suc h) = W * 64" by (simp add: W_def)
    then show ?thesis by (simp only: div_mult2_eq P_def) (simp add: algebra_simps)
  qed
  have idx: "k div W mod 64 = k div W - 64 * P" if "n \<le> k" "k < (64 * P + 64) * W" for k
  proof -
    have "n div W \<le> k div W" using that(1) by (rule div_le_mono)
    moreover have "k div W < 64 * P + 64" using that(2) W(2) by (simp add: div_less_iff_less_mult)
    ultimately have "k div W div 64 = P" using p by (simp add: div_nat_eqI)
    then show ?thesis using minus_mult_div_eq_mod [of "k div W" 64] by simp
  qed
  have null: "rt_range (rt_find (Suc (Suc h)) s) n N1 = []"
    using N1(3,5) idx by (intro rt_range_none) (simp add: s(1) W_def)
  have d: "lookup_down (Suc h) s n mx = (case res of None \<Rightarrow> ([], n1) | Some j \<Rightarrow> lookup_down h (ss ! j) n1 mx)"
    using l [unfolded W_def] unfolding lookup_down.simps Let_def rt_offset_eq s(1) rslot.sel by (simp split: option.splits del: mult_Suc power_Suc)
  show ?case
  proof (cases res)
    case None
    then show ?thesis using N1(1-4,6) null d Suc.prems(6) blk by (intro exI [of _ N1]) (auto simp del: rt_find.simps lookup_down.simps power_Suc)
  next
    case (Some j)
    have j: "N1 < 2 ^ 64" "N1 div W = 64 * P + j" "j < 64" "ss ! j \<noteq> RNull" "n1 = N1" using N1(4,6) Some by auto
    have "lookup_down h (ss ! j) N1 mx = (xs, nxt)" using Suc.prems(6) d Some j(5) by (simp del: lookup_down.simps)
    from Suc.IH [OF s(3) [OF j(3)] j(4) j(1) _ Suc.prems(5) this] Suc.prems(4) obtain N where
      N: "N1 < N" "N \<le> 2 ^ 64" "N \<le> (N1 div W + 1) * W" "nxt = N mod 2 ^ 64" "xs = rt_range (rt_find (Suc h) (ss ! j)) N1 N" "length xs \<le> mx"
      unfolding W_def by (auto simp del: power_Suc rt_find.simps)
    have e: "(N1 div W + 1) * W \<le> (64 * P + 64) * W" unfolding j(2) using j(3) by (intro mult_le_mono1) simp
    have "rt_find (Suc h) (ss ! j) k = rt_find (Suc (Suc h)) s k" if "N1 \<le> k" "k < N" for k
    proof -
      have "k div W = N1 div W" using div_between [of N1 W k] that N(3) div_times_less_eq_dividend [of N1 W] by simp
      moreover have "k div W mod 64 = k div W - 64 * P" using idx [of k] that N(3) e N1(1) by simp
      ultimately show ?thesis using j(2) by (simp add: s(1) W_def)
    qed
    then have "xs = rt_range (rt_find (Suc (Suc h)) s) N1 N" unfolding N(5) by (intro rt_range_cong)
    also have "\<dots> = rt_range (rt_find (Suc (Suc h)) s) n N" using rt_range_append [OF N1(1), of N "rt_find (Suc (Suc h)) s"] N(1) null by (simp del: rt_find.simps)
    finally show ?thesis using N(1,2,3,4,6) e N1(1) unfolding blk by (intro exI [of _ N]) (auto simp del: rt_find.simps power_Suc)
  qed
qed

lemma gang_loop_spec:
  assumes "rt_inv root" "rnode root \<noteq> RNull \<or> rt_height root = 0" "cur < 2 ^ 64"
  shows "gang_loop root (maxindex (rt_height root)) cur n = Some (take n (rt_range (rt_map root) cur (2 ^ 64)))"
  using assms(3)
proof (induction "2 ^ 64 - cur" arbitrary: cur n rule: less_induct)
  case less
  let ?M = "rt_map root" and ?mi = "maxindex (rt_height root)"
  consider (stop) "n = 0 \<or> cur > ?mi" | (zero) "0 < n" "cur \<le> ?mi" "rt_height root = 0" | (down) h where "0 < n" "cur \<le> ?mi" "rt_height root = Suc h"
    by (metis gr0I not0_implies_Suc not_le)
  then show ?case
  proof cases
    case stop
    then have "n = 0 \<or> rt_range ?M cur (2 ^ 64) = []" using rt_range_none [of cur "2 ^ 64" ?M] by (auto simp: rt_map_def)
    then show ?thesis using stop by (auto simp: gang_loop.simps [of root ?mi cur n])
  next
    case zero
    then have "cur = 0" by (simp add: maxindex_less)
    have m: "?M k = (if k = 0 then rt_find 0 (rnode root) 0 else None)" for k using zero(3) by (auto simp: rt_map_eq)
    have "rt_range ?M 0 (2 ^ 64) = rt_range ?M 0 1 @ rt_range ?M 1 (2 ^ 64)" by (rule rt_range_append) simp_all
    also have "rt_range ?M 1 (2 ^ 64) = []" by (rule rt_range_none) (simp add: m)
    finally have e: "rt_range ?M cur (2 ^ 64) = (case rnode root of RItem x \<Rightarrow> [x] | _ \<Rightarrow> [])"
      using rt_range_single [of ?M 0] m [of 0] unfolding \<open>cur = 0\<close> by (simp split: rslot.splits)
    show ?thesis unfolding e using zero
      by (auto simp: gang_loop.simps [of root "maxindex 0" 0 n] \<open>cur = 0\<close> lookup_def split: rslot.splits)
  next
    case down
    obtain xs nxt where l: "lookup_down h (rnode root) cur n = (xs, nxt)" by (metis prod.exhaust)
    have wf: "rt_wf (Suc h) (rnode root)" "h \<le> 10" "rnode root \<noteq> RNull" using assms(1,2) down(3) by (auto simp: rt_inv_def)
    from lookup_down_spec [OF wf(1,3) less.prems wf(2) down(1) l] obtain N where
      N: "cur < N" "N \<le> 2 ^ 64" "N \<le> (cur div 64 ^ Suc h + 1) * 64 ^ Suc h" "nxt = N mod 2 ^ 64"
        "xs = rt_range (rt_find (Suc h) (rnode root)) cur N" "length xs \<le> n" by blast
    have c: "cur < 64 ^ Suc h" using down(2,3) by (simp add: maxindex_less)
    then have "cur div 64 ^ Suc h = 0" by (rule div_less)
    with N(3) have "N \<le> 64 ^ Suc h" by simp
    then have "xs = rt_range ?M cur N"
      unfolding N(5) using N(2) down(3) by (intro rt_range_cong) (simp add: rt_map_eq del: rt_find.simps)
    then have split: "rt_range ?M cur (2 ^ 64) = xs @ rt_range ?M N (2 ^ 64)" using rt_range_append [of cur N "2 ^ 64" ?M] N(1,2) by simp
    have g: "gang_loop root ?mi cur n = (if nxt = 0 then Some xs
        else Option.bind (gang_loop root ?mi nxt (n - length xs)) (\<lambda>ys. Some (xs @ ys)))"
      unfolding down(3) using down wf(3) l by (simp add: gang_loop.simps [of root "maxindex (Suc h)" cur n] lookup_def)
    show ?thesis
    proof (cases "N = 2 ^ 64")
      case True
      then show ?thesis using g split N(4,6) by simp
    next
      case False
      then have n: "N < 2 ^ 64" "nxt = N" "nxt \<noteq> 0" using N(1,2,4) by auto
      then have "gang_loop root ?mi N (n - length xs) = Some (take (n - length xs) (rt_range ?M N (2 ^ 64)))"
        using N(1) by (intro less.hyps) auto
      with n show ?thesis using g split N(6) by simp
    qed
  qed
qed

subsection \<open>The tree implements a finite map\<close>

text \<open>
  The operations of the tree as one step, and the specification: a finite map, and whether an allocation has failed so far.
  The specification allows the scan to dereference NULL only when the map is empty and an allocation has failed.
\<close>

datatype 'a rt_op = RtInsert u64 'a | RtDelete u64 | RtScan u64 nat

datatype 'a rt_out = RtDone "'a option" | RtNoMem | RtItems "'a list" | RtNullDeref

fun rt_step :: "'a rt_op \<Rightarrow> 'a dms_radix_tree_root_t \<times> rt_mem \<Rightarrow> 'a rt_out \<times> 'a dms_radix_tree_root_t \<times> rt_mem" where
  "rt_step (RtInsert k x) (root, m) =
     (let (err, old, root', m') = dms_radix_tree_insert k x root m in (if err = 0 then RtDone old else RtNoMem, root', m'))"
| "rt_step (RtDelete k) (root, m) = (let (found, root', m') = dms_radix_tree_delete k root m in (RtDone found, root', m'))"
| "rt_step (RtScan k n) (root, m) =
     (case dms_radix_tree_gang_lookup root k n of None \<Rightarrow> RtNullDeref | Some xs \<Rightarrow> RtItems xs, root, m)"

fun map_step :: "(nat \<rightharpoonup> 'a) \<times> bool \<Rightarrow> 'a rt_op \<Rightarrow> 'a rt_out \<Rightarrow> (nat \<rightharpoonup> 'a) \<times> bool \<Rightarrow> bool" where
  "map_step (M, oom) (RtInsert k x) (RtDone old) a' \<longleftrightarrow> old = M (unat k) \<and> a' = (M(unat k \<mapsto> x), oom)"
| "map_step (M, oom) (RtInsert k x) RtNoMem a' \<longleftrightarrow> a' = (M, True)"
| "map_step (M, oom) (RtDelete k) (RtDone found) a' \<longleftrightarrow> found = M (unat k) \<and> a' = (M(unat k := None), oom)"
| "map_step (M, oom) (RtScan k n) (RtItems xs) a' \<longleftrightarrow> xs = take n (rt_range M (unat k) (2 ^ 64)) \<and> a' = (M, oom)"
| "map_step (M, oom) (RtScan k n) RtNullDeref a' \<longleftrightarrow> oom \<and> M = Map.empty \<and> a' = (M, oom)"
| "map_step _ _ _ _ \<longleftrightarrow> False"

text \<open>The tree represents the map; \<^verbatim>\<open>dms_node_count\<close> has moved by the nodes of the tree since the tree was created with counter \<open>c\<close>.\<close>

definition rt_rel :: "int \<Rightarrow> 'a dms_radix_tree_root_t \<times> rt_mem \<Rightarrow> (nat \<rightharpoonup> 'a) \<times> bool \<Rightarrow> bool" where
  "rt_rel c s a \<longleftrightarrow> rt_inv (fst s) \<and> fst a = rt_map (fst s) \<and> dms_node_count (snd s) = c + rt_nodes (rnode (fst s)) \<and>
     (rnode (fst s) = RNull \<and> rt_height (fst s) > 0 \<longrightarrow> snd a)"

lemma rt_map_null: "rnode root = RNull \<Longrightarrow> rt_map root = Map.empty"
  by (simp add: rt_map_def fun_eq_iff)

lemma rt_rel_init: "rt_rel (dms_node_count m) (DMS_INIT_RADIX_TREE, m) (Map.empty, False)"
  by (simp add: rt_rel_def DMS_INIT_RADIX_TREE_def rt_inv_def rt_map_empty)

lemma gang_lookup_null:
  assumes "rnode root = RNull" "rt_height root > 0" "unat k \<le> maxindex (rt_height root)" "0 < n"
  shows "dms_radix_tree_gang_lookup root k n = None"
  using assms by (simp add: dms_radix_tree_gang_lookup_def gang_loop.simps lookup_def)

lemma gang_lookup_spec:
  assumes "rt_inv root" "rnode root \<noteq> RNull \<or> rt_height root = 0"
  shows "dms_radix_tree_gang_lookup root k n = Some (take n (rt_range (rt_map root) (unat k) (2 ^ 64)))"
proof -
  have "unat k < 2 ^ 64" using unsigned_less [of k] by simp
  then show ?thesis unfolding dms_radix_tree_gang_lookup_def by (rule gang_loop_spec [OF assms])
qed

lemma rt_scan_refines:
  assumes "rt_rel c (root, m) (M, oom)"
  shows "map_step (M, oom) (RtScan k n) (fst (rt_step (RtScan k n) (root, m))) (M, oom)"
proof (cases "rnode root = RNull \<and> rt_height root > 0")
  case False
  then show ?thesis using gang_lookup_spec [of root k n] assms by (auto simp: rt_rel_def)
next
  case True
  with assms have M: "M = Map.empty" "oom" "M = rt_map root" by (auto simp: rt_rel_def rt_map_null)
  have r: "rt_range M (unat k) (2 ^ 64) = []" by (rule rt_range_none) (simp add: M)
  show ?thesis
  proof (cases "0 < n \<and> unat k \<le> maxindex (rt_height root)")
    case False
    then have "dms_radix_tree_gang_lookup root k n = Some []" by (auto simp: dms_radix_tree_gang_lookup_def gang_loop.simps)
    then show ?thesis using r by simp
  qed (use True M gang_lookup_null [of root k n] in auto)
qed

interpretation rtm: data_refinement rt_step map_step "rt_rel c" for c
proof
  fix s :: "'a dms_radix_tree_root_t \<times> rt_mem" and a e
  assume rel: "rt_rel c s a"
  obtain root m where s: "s = (root, m)" by (cases s)
  obtain M oom where a: "a = (M, oom)" by (cases a)
  have inv: "rt_inv root" "M = rt_map root" using rel by (auto simp: rt_rel_def s a)
  show "\<exists>a'. map_step a e (fst (rt_step e s)) a' \<and> rt_rel c (snd (rt_step e s)) a'"
  proof (cases e)
    case (RtInsert k x)
    obtain err old root' m' where r: "dms_radix_tree_insert k x root m = (err, old, root', m')" by (metis prod_cases4)
    note sp = dms_radix_tree_insert_spec [OF inv(1) r]
    show ?thesis
    proof (cases "err = 0")
      case True
      then show ?thesis using sp rel by (intro exI [of _ "(M(unat k \<mapsto> x), oom)"]) (auto simp: RtInsert s a r rt_rel_def ENOMEM_def)
    next
      case False
      then show ?thesis using sp rel by (intro exI [of _ "(M, True)"]) (auto simp: RtInsert s a r rt_rel_def)
    qed
  next
    case (RtDelete k)
    obtain fd root' m' where r: "dms_radix_tree_delete k root m = (fd, root', m')" by (metis prod_cases3)
    show ?thesis using dms_radix_tree_delete_spec [OF inv(1) r] rel
      by (intro exI [of _ "(M(unat k := None), oom)"]) (auto simp: RtDelete s a r rt_rel_def)
  next
    case (RtScan k n)
    then show ?thesis using rt_scan_refines [of c root m M oom k n] rel by (intro exI [of _ "(M, oom)"]) (simp add: s a)
  qed
qed

text \<open>
  (C9) The radix tree is a finite map.  Whatever operations are made on a new tree and whichever allocations fail, the outputs
  are those of a finite map on 64-bit keys: an insertion returns the item it replaces, or fails with the map unchanged;
  a deletion returns what it deletes; a scan always ends and returns the items from the start key on in ascending order
  of their keys, at most as many as asked for.  (After a failed allocation, and only while the map is empty, the scan may
  dereference NULL.)  The counter of nodes is at every moment the number of nodes in the tree: none is leaked.
\<close>

theorem radix_tree_refines_map:
  "\<exists>oom. a_run map_step es (fst (c_run rt_step es (DMS_INIT_RADIX_TREE, m))) (Map.empty, False)
      (rt_map (fst (snd (c_run rt_step es (DMS_INIT_RADIX_TREE, m)))), oom) \<and>
    dms_node_count (snd (snd (c_run rt_step es (DMS_INIT_RADIX_TREE, m)))) =
      dms_node_count m + rt_nodes (rnode (fst (snd (c_run rt_step es (DMS_INIT_RADIX_TREE, m)))))"
  using rtm.run_refines [OF rt_rel_init [of m], of es] by (auto simp: rt_rel_def)

text \<open>A failed insertion into an empty tree leaves a height without a root node, and the next scan dereferences NULL.\<close>

lemma extend_height_2: "63 < unat k \<Longrightarrow> unat k < 4096 \<Longrightarrow> extend_height k (Suc 0) = Suc (Suc 0)"
  by (simp add: extend_height.simps [of k "Suc 0"] extend_height.simps [of k "Suc (Suc 0)"] maxindex_eq)

lemma maxindex_small: "maxindex 0 = 0" "maxindex (Suc 0) = 63" "maxindex (Suc (Suc 0)) = 4095"
  by (simp_all add: maxindex_eq)

lemma scan_after_failed_insert:
  "fst (c_run rt_step [RtInsert 64 x, RtScan 0 1] (DMS_INIT_RADIX_TREE, \<lparr>kmem_ok = \<lambda>_. False, kmem_calls = 0, dms_node_count = 0\<rparr>))
     = [RtNoMem, RtNullDeref]"
  by (simp add: DMS_INIT_RADIX_TREE_def dms_radix_tree_insert_def radix_tree_extend_def extend_height_2 maxindex_small
      radix_tree_node_alloc_def ENOMEM_def gang_lookup_null)

text \<open>When an insertion fails, an allocation of this very call has failed.\<close>

definition alloc_failed :: "rt_mem \<Rightarrow> rt_mem \<Rightarrow> bool" where
  "alloc_failed m m' \<longleftrightarrow> (\<exists>i. kmem_calls m \<le> i \<and> i < kmem_calls m' \<and> \<not> kmem_ok m i)"

definition mem_step :: "rt_mem \<Rightarrow> rt_mem \<Rightarrow> int \<Rightarrow> bool" where
  "mem_step m m' err \<longleftrightarrow> kmem_ok m' = kmem_ok m \<and> kmem_calls m \<le> kmem_calls m' \<and> (err \<noteq> 0 \<longrightarrow> alloc_failed m m')"

lemma mem_step_trans: "mem_step m m1 0 \<Longrightarrow> mem_step m1 m2 err \<Longrightarrow> mem_step m m2 err"
  unfolding mem_step_def alloc_failed_def by (metis le_trans)

lemma mem_step_refl: "mem_step m m 0"
  by (simp add: mem_step_def)

lemma node_alloc_mem_step: "radix_tree_node_alloc m = (s, m') \<Longrightarrow> mem_step m m' (if s = RNull then err else 0)"
  by (auto simp: radix_tree_node_alloc_def mem_step_def alloc_failed_def Let_def split: if_splits)

lemma extend_loop_mem: "extend_loop n root m = (err, root', m') \<Longrightarrow> mem_step m m' err"
proof (induction n arbitrary: root m)
  case (Suc n)
  obtain s m1 where a: "radix_tree_node_alloc m = (s :: 'a rslot, m1)" by (metis prod.exhaust)
  show ?case
  proof (cases s)
    case (RNode c ss)
    then have "mem_step m m1 0" using node_alloc_mem_step [OF a, of 0] by simp
    then show ?thesis using Suc a RNode by (auto intro: mem_step_trans)
  qed (use Suc.prems a node_alloc_mem_step [OF a, of err] in \<open>auto simp: radix_tree_node_alloc_def Let_def split: if_splits\<close>)
qed (auto simp: mem_step_def)

lemma insert_down_mem: "insert_down h n x s m = (err, old, s', m') \<Longrightarrow> mem_step m m' err"
proof (induction h arbitrary: s m err old s' m')
  case (Suc h)
  obtain node m1 where a: "(if s = RNull then radix_tree_node_alloc m else (s, m)) = (node, m1)" by (metis prod.exhaust)
  have m1: "mem_step m m1 (if node = RNull then err else 0)"
    using a node_alloc_mem_step [of m node m1 err] mem_step_refl [of m] by (auto split: if_splits)
  obtain e ol t m2 where d: "insert_down h n x (rslots node ! rt_offset n (h * RADIX_TREE_MAP_SHIFT)) m1 = (e, ol, t, m2)"
    by (metis prod_cases4)
  show ?case
  proof (cases "node = RNull")
    case False
    with Suc.prems a d have "err = e" "m' = m2" by (auto simp: Let_def simp del: rt_offset_eq)
    with m1 False Suc.IH [OF d] show ?thesis by (auto intro: mem_step_trans)
  qed (use Suc.prems a m1 in \<open>auto simp: Let_def\<close>)
qed (auto simp: mem_step_def)

lemma insert_mem_step:
  assumes "dms_radix_tree_insert k x root m = (err, old, root', m')"
  shows "mem_step m m' err"
proof -
  obtain e r1 m1 where e: "(if unat k > maxindex (rt_height root) then radix_tree_extend k root m else (0, root, m)) = (e, r1, m1)"
    by (metis prod_cases3)
  have m1: "mem_step m m1 e" using e extend_loop_mem [of _ root m e r1 m1]
    by (auto simp: radix_tree_extend_def Let_def mem_step_refl split: if_splits)
  show ?thesis
  proof (cases "e = 0")
    case True
    obtain s' where "insert_down (rt_height r1) (unat k) x (rnode r1) m1 = (err, old, s', m')"
      using assms e True by (auto simp: dms_radix_tree_insert_def split: prod.splits)
    from mem_step_trans [OF _ insert_down_mem [OF this]] m1 True show ?thesis by simp
  qed (use assms e m1 in \<open>auto simp: dms_radix_tree_insert_def\<close>)
qed

text \<open>
  (C23) An insertion that fails does so with \<^verbatim>\<open>-ENOMEM\<close>, only because an allocation of this call failed, and without effect: the tree is
  still well formed, represents the same map and reports no replaced item, and the nodes that were linked before the failure
  are still counted.
\<close>

theorem radix_insert_error:
  assumes "rt_inv root" "dms_radix_tree_insert k x root m = (err, old, root', m')" "err \<noteq> 0"
  shows "err = - ENOMEM \<and> alloc_failed m m' \<and> old = None \<and> rt_inv root' \<and> rt_map root' = rt_map root \<and>
    dms_node_count m' - dms_node_count m = rt_nodes (rnode root') - rt_nodes (rnode root)"
  using insert_mem_step [OF assms(2)] dms_radix_tree_insert_spec [OF assms(1,2)] assms(3) by (auto simp: mem_step_def)

definition rt_sample :: "nat dms_radix_tree_root_t" where
  "rt_sample = \<lparr>rt_height = 0, rnode = RItem 5\<rparr>"

theorem radix_insert_error_witness:
  "rt_map (fst (snd (snd (dms_radix_tree_insert 100 7 rt_sample \<lparr>kmem_ok = \<lambda>i. i = 0, kmem_calls = 0, dms_node_count = 0\<rparr>)))) = rt_map rt_sample"
proof -
  let ?m = "\<lparr>kmem_ok = \<lambda>i. i = 0, kmem_calls = 0, dms_node_count = 0\<rparr> :: rt_mem"
  obtain err old root' m' where r: "dms_radix_tree_insert 100 7 rt_sample ?m = (err, old, root', m')" by (metis prod_cases4)
  have "err \<noteq> 0" using r
    by (auto simp: rt_sample_def dms_radix_tree_insert_def radix_tree_extend_def extend_height_2 maxindex_small
        radix_tree_node_alloc_def ENOMEM_def Let_def split: if_splits)
  moreover have "rt_inv rt_sample" by (simp add: rt_sample_def rt_inv_def)
  ultimately show ?thesis using radix_insert_error [OF _ r] r by simp
qed

end
