(* ===== verification/Cache_Pool.thy ===== *)
theory Cache_Pool
  imports Radix_Tree
begin

text \<open>
  One pool of the metadata cache of \<^verbatim>\<open>common/cache.c\<close>: the leaves of a volume in a radix tree by logical block number and in a
  list by recency of use.  A leaf is a pointer (a number) into a store shared by all pools; \<^verbatim>\<open>flag_refcnt\<close> is a 32-bit word whose
  top bit marks a leaf that has left the pool while a reader still holds it, the other bits count the readers.  Every operation runs
  under the mutex of the pool, so an operation is one function on the pool and the store.  The store remembers which leaves are
  allocated and which user items were given to \<^verbatim>\<open>citem_free_fn\<close>.  Erasure coding is not compiled in.
\<close>

unbundle bit_operations_syntax

subsection \<open>Leaves\<close>

record tree_leaf_t =
  leaf_data :: nat
  blkid :: u64
  flag_refcnt :: u32

definition leaf_delete_bit :: u32 where
  "leaf_delete_bit = push_bit 31 1"

definition tree_leaf_set_delete :: "tree_leaf_t \<Rightarrow> tree_leaf_t" where
  "tree_leaf_set_delete leaf = leaf\<lparr>flag_refcnt := flag_refcnt leaf OR leaf_delete_bit\<rparr>"

definition tree_leaf_is_delete :: "tree_leaf_t \<Rightarrow> bool" where
  "tree_leaf_is_delete leaf \<longleftrightarrow> flag_refcnt leaf AND leaf_delete_bit \<noteq> 0"

definition tree_leaf_ref_count :: "tree_leaf_t \<Rightarrow> u32" where
  "tree_leaf_ref_count leaf = flag_refcnt leaf AND NOT leaf_delete_bit"

record cache_mem =
  leaf_at :: "nat \<Rightarrow> tree_leaf_t"
  leaf_live :: "nat \<Rightarrow> bool"
  tree_leaf_cnt :: int
  citem_freed :: "nat list"
  node_mem :: rt_mem

definition upd_leaf :: "nat \<Rightarrow> (tree_leaf_t \<Rightarrow> tree_leaf_t) \<Rightarrow> cache_mem \<Rightarrow> cache_mem" where
  "upd_leaf l f mem = mem\<lparr>leaf_at := (leaf_at mem)(l := f (leaf_at mem l))\<rparr>"

definition release_tree_leaf :: "nat \<Rightarrow> cache_mem \<Rightarrow> cache_mem" where
  "release_tree_leaf leaf mem =
     (if tree_leaf_ref_count (leaf_at mem leaf) > 0 then mem
      else mem\<lparr>citem_freed := leaf_data (leaf_at mem leaf) # citem_freed mem,
               leaf_live := (leaf_live mem)(leaf := False), tree_leaf_cnt := tree_leaf_cnt mem - 1\<rparr>)"

record cache_pool_t =
  volid :: u64
  capacity :: u64
  cache_num :: int
  cache_size :: u32
  tree :: "nat dms_radix_tree_root_t"
  lru_list :: "nat list"
  cp_ref_cnt :: int
  m_hit :: u64
  m_miss :: u64

type_synonym cache_st = "cache_pool_t \<times> cache_mem"

text \<open>A leaf that is out of the tree and out of the list: marked when a reader holds it, released otherwise.\<close>

definition leaf_drop :: "nat \<Rightarrow> cache_mem \<Rightarrow> cache_mem" where
  "leaf_drop leaf mem =
     (if tree_leaf_ref_count (leaf_at mem leaf) > 0 then upd_leaf leaf tree_leaf_set_delete mem
      else release_tree_leaf leaf mem)"

definition tree_delete :: "u64 \<Rightarrow> cache_st \<Rightarrow> nat option \<times> cache_st" where
  "tree_delete key st =
     (let (found, t, nm) = dms_radix_tree_delete key (tree (fst st)) (node_mem (snd st))
      in (found, (fst st)\<lparr>tree := t\<rparr>, (snd st)\<lparr>node_mem := nm\<rparr>))"

definition lru_del :: "nat \<Rightarrow> cache_pool_t \<Rightarrow> cache_pool_t" where
  "lru_del leaf p = p\<lparr>lru_list := remove1 leaf (lru_list p), cache_num := cache_num p - 1\<rparr>"

subsection \<open>Kicking leaves out\<close>

text \<open>
  The loop of \<^verbatim>\<open>__kick_meta_cache\<close> over the list from its tail, the least recently used leaf; \<open>cmp\<close> is the test of the caller on the
  user item, \<open>None\<close> for no test.
\<close>

fun kick_loop :: "(nat \<Rightarrow> bool) option \<Rightarrow> int \<Rightarrow> int \<Rightarrow> nat list \<Rightarrow> int \<Rightarrow> bool \<Rightarrow> cache_st \<Rightarrow> bool \<times> cache_st" where
  "kick_loop cmp count tot [] nr not_all st = (not_all, st)"
| "kick_loop cmp count tot (leaf # rest) nr not_all st =
     (if (case cmp of None \<Rightarrow> False | Some f \<Rightarrow> \<not> f (leaf_data (leaf_at (snd st) leaf)))
      then kick_loop cmp count tot rest nr not_all st
      else (let st1 = snd (tree_delete (blkid (leaf_at (snd st) leaf)) st);
                busy = tree_leaf_ref_count (leaf_at (snd st1) leaf) > 0;
                st2 = (lru_del leaf (fst st1), leaf_drop leaf (snd st1));
                not_all' = (not_all \<or> busy \<and> count = -1)
            in if count \<noteq> -1 \<and> nr + 1 \<ge> tot then (not_all', st2)
               else kick_loop cmp count tot rest (nr + 1) not_all' st2))"

definition kick_meta_cache_pool :: "int \<Rightarrow> (nat \<Rightarrow> bool) option \<Rightarrow> cache_st \<Rightarrow> bool \<times> cache_st" where
  "kick_meta_cache_pool count cmp st =
     (if count = -1 \<or> count > cache_num (fst st)
      then kick_loop cmp count (cache_num (fst st)) (rev (lru_list (fst st))) 0 False st
      else if count = 0 \<or> count < -1 then (False, st)
      else kick_loop cmp count count (rev (lru_list (fst st))) 0 False st)"

subsection \<open>Finding and giving back\<close>

text \<open>
  The loop of \<^verbatim>\<open>cache_find\<close> that spreads the leaves of the scan over the basket, from the last one down; the basket is the array of
  the caller, in which the scan has put its leaves side by side.
\<close>

fun find_loop :: "nat \<Rightarrow> u64 \<Rightarrow> u64 \<Rightarrow> nat option list \<Rightarrow> int \<Rightarrow> cache_st \<Rightarrow> int \<times> nat option list \<times> cache_st" where
  "find_loop 0 start ret_off basket rret st = (rret, basket, st)"
| "find_loop (Suc i) start ret_off basket rret st =
     (case basket ! i of
        None \<Rightarrow> find_loop i start ret_off basket rret st
      | Some leaf \<Rightarrow>
          (let lf = leaf_at (snd st) leaf; j = blkid lf
           in if j \<ge> start \<and> j < ret_off \<and> \<not> tree_leaf_is_delete lf
              then find_loop i start j ((basket[i := None])[unat (j - start) := Some leaf]) (rret + 1)
                     ((fst st)\<lparr>lru_list := leaf # remove1 leaf (lru_list (fst st))\<rparr>,
                      upd_leaf leaf (\<lambda>l. l\<lparr>flag_refcnt := flag_refcnt l + 1\<rparr>) (snd st))
              else find_loop i start ret_off (basket[i := None]) rret st))"

definition cache_find_pool :: "u64 \<Rightarrow> nat \<Rightarrow> cache_st \<Rightarrow> (int \<times> nat option list \<times> cache_st) option" where
  "cache_find_pool start count st =
     (case dms_radix_tree_gang_lookup (tree (fst st)) start count of
        None \<Rightarrow> None
      | Some leaves \<Rightarrow>
          (let ret = length leaves
           in if ret > 0
              then (let (rret, basket, p, mem) = find_loop ret start (start + of_nat count)
                          (map Some leaves @ replicate (count - ret) None) 0 st
                    in Some (rret, basket, p\<lparr>m_hit := m_hit p + of_nat ret, m_miss := m_miss p + of_nat (count - ret)\<rparr>, mem))
              else Some (0, replicate count None, st)))"

fun put_loop :: "nat option list \<Rightarrow> cache_mem \<Rightarrow> cache_mem" where
  "put_loop [] mem = mem"
| "put_loop (None # basket) mem = put_loop basket mem"
| "put_loop (Some leaf # basket) mem =
     (let mem1 = upd_leaf leaf (\<lambda>l. l\<lparr>flag_refcnt := flag_refcnt l - 1\<rparr>) mem
      in if \<not> tree_leaf_is_delete (leaf_at mem1 leaf) then put_loop basket mem1
         else if tree_leaf_ref_count (leaf_at mem1 leaf) > 0 then put_loop basket mem1
         else put_loop basket (release_tree_leaf leaf mem1))"

subsection \<open>Invalidating and updating\<close>

fun invalidate_loop :: "u64 \<Rightarrow> nat \<Rightarrow> cache_st \<Rightarrow> cache_st" where
  "invalidate_loop key 0 st = st"
| "invalidate_loop key (Suc n) st =
     (case tree_delete key st of
        (None, st1) \<Rightarrow> invalidate_loop (key + 1) n st1
      | (Some leaf, st1) \<Rightarrow> invalidate_loop (key + 1) n (lru_del leaf (fst st1), leaf_drop leaf (snd st1)))"

text \<open>
  One round of the loop of \<^verbatim>\<open>cache_update\<close>: \<open>alloc\<close> is the answer of the slab allocator for the leaf.  The result is what the source
  leaves in \<^verbatim>\<open>ret\<close>.
\<close>

definition update_one :: "nat option \<Rightarrow> u64 \<Rightarrow> nat \<Rightarrow> cache_st \<Rightarrow> int \<times> cache_st" where
  "update_one alloc key data st =
     (case alloc of
        None \<Rightarrow> (- ENOMEM, fst st, (snd st)\<lparr>citem_freed := data # citem_freed (snd st)\<rparr>)
      | Some leaf \<Rightarrow>
          (let mem1 = (snd st)\<lparr>leaf_at := (leaf_at (snd st))(leaf := \<lparr>leaf_data = data, blkid = key, flag_refcnt = 0\<rparr>),
                               leaf_live := (leaf_live (snd st))(leaf := True), tree_leaf_cnt := tree_leaf_cnt (snd st) + 1\<rparr>;
               (ret, old_leaf, t, nm) = dms_radix_tree_insert key leaf (tree (fst st)) (node_mem mem1);
               p1 = (fst st)\<lparr>tree := t\<rparr>; mem2 = mem1\<lparr>node_mem := nm\<rparr>
           in if ret < 0 then (ret, p1, release_tree_leaf leaf mem2)
              else (let p2 = p1\<lparr>lru_list := leaf # lru_list p1, cache_num := cache_num p1 + 1\<rparr>
                    in case old_leaf of
                         None \<Rightarrow> (ret, p2, mem2)
                       | Some old \<Rightarrow> (ret, lru_del old p2, leaf_drop old mem2))))"

fun update_loop :: "nat option list \<Rightarrow> u64 \<Rightarrow> nat list \<Rightarrow> int \<Rightarrow> cache_st \<Rightarrow> int \<times> cache_st" where
  "update_loop allocs key [] ret st = (ret, st)"
| "update_loop [] key (data # ds) ret st = (ret, st)"
| "update_loop (alloc # allocs) key (data # ds) ret st =
     (let (ret', st') = update_one alloc key data st in update_loop allocs (key + 1) ds ret' st')"

definition cache_reclaim :: "u32 \<Rightarrow> cache_st \<Rightarrow> cache_st" where
  "cache_reclaim count st =
     (let i0 = sint (of_int (cache_num (fst st)) + count - cache_size (fst st) :: u32);
          i = (if i0 > sint (cache_size (fst st)) then sint (cache_size (fst st)) else i0)
      in if i > 0 then snd (kick_meta_cache_pool i None st) else st)"

definition cache_update_pool :: "nat option list \<Rightarrow> u64 \<Rightarrow> nat list \<Rightarrow> cache_st \<Rightarrow> int \<times> cache_st" where
  "cache_update_pool allocs start basket st =
     (let count = of_nat (length basket) :: u32
      in if count > cache_size (fst st) \<or> cache_size (fst st) = 0 then (- E2BIG, st)
         else update_loop allocs start basket 0 (cache_reclaim count st))"

end
