(* ===== verification/Cache_Inv.thy ===== *)
theory Cache_Inv
  imports Cache_Pool
begin

text \<open>
  The invariant of a cache pool and the steps that keep it.  The readers that hold leaves are a list of leaf pointers, one entry
  for each reference.  The invariant ties together the tree, the list by recency, the counter, the reference words and the set of
  allocated leaves: a leaf is allocated exactly when it is in the pool or a reader holds it.
\<close>

subsection \<open>The reference word\<close>

text \<open>A reader count below $2^{31}$ and the delete mark, in one word.\<close>

definition ref_word :: "nat \<Rightarrow> bool \<Rightarrow> u32" where
  "ref_word n d = (if d then of_nat n OR leaf_delete_bit else of_nat n)"

lemma bit_leaf_delete: "bit leaf_delete_bit i \<longleftrightarrow> i = 31"
  unfolding leaf_delete_bit_def by (auto simp only: bit_push_bit_iff bit_1_iff possible_bit_word) auto

lemma bit_of_nat31: "n < 2 ^ 31 \<Longrightarrow> bit (of_nat n :: u32) i \<longleftrightarrow> i < 31 \<and> bit n i"
proof -
  assume n: "n < 2 ^ 31"
  have "\<not> bit n i" if "31 \<le> i"
  proof -
    have "n < 2 ^ i" using n that by (meson le_less_trans less_le_trans one_le_numeral power_increasing)
    then show ?thesis by (simp add: bit_iff_odd)
  qed
  then show ?thesis by (cases "31 \<le> i") (auto simp: bit_of_nat_iff)
qed

lemma ref_word_bits: "n < 2 ^ 31 \<Longrightarrow> bit (ref_word n d) i \<longleftrightarrow> i < 31 \<and> bit n i \<or> i = 31 \<and> d"
  by (auto simp: ref_word_def bit_of_nat31 bit_or_iff bit_leaf_delete)

lemma ref_word_count: "n < 2 ^ 31 \<Longrightarrow> ref_word n d AND NOT leaf_delete_bit = of_nat n"
  by (rule bit_word_eqI) (auto simp: bit_and_iff bit_not_iff ref_word_bits bit_of_nat31 bit_leaf_delete)

lemma ref_word_deleted: "n < 2 ^ 31 \<Longrightarrow> ref_word n d AND leaf_delete_bit \<noteq> 0 \<longleftrightarrow> d"
proof -
  assume n: "n < 2 ^ 31"
  have "ref_word n d AND leaf_delete_bit = (if d then leaf_delete_bit else 0)"
    by (rule bit_word_eqI) (use n in \<open>auto simp: bit_and_iff ref_word_bits bit_leaf_delete\<close>)
  moreover have "leaf_delete_bit \<noteq> 0" using bit_leaf_delete [of 31] by auto
  ultimately show ?thesis by simp
qed

lemma ref_word_mark: "ref_word n d OR leaf_delete_bit = ref_word n True"
  by (auto simp: ref_word_def or.assoc)

lemma ref_word_plus: "n < 2 ^ 31 \<Longrightarrow> ref_word n d = of_nat n + (if d then leaf_delete_bit else 0)"
  by (auto simp: ref_word_def bit_of_nat31 bit_leaf_delete intro!: disjunctive_add [symmetric])

lemma ref_word_Suc: "Suc n < 2 ^ 31 \<Longrightarrow> ref_word n d + 1 = ref_word (Suc n) d"
  by (simp add: ref_word_plus)

lemma ref_word_pred: "0 < n \<Longrightarrow> n < 2 ^ 31 \<Longrightarrow> ref_word n d - 1 = ref_word (n - 1) d"
  by (cases n) (simp_all add: ref_word_plus)

lemma of_nat_u32_pos: "n < 2 ^ 31 \<Longrightarrow> 0 < (of_nat n :: u32) \<longleftrightarrow> 0 < n"
proof -
  assume n: "n < 2 ^ 31"
  then have "unat (of_nat n :: u32) = n" by (simp add: unsigned_of_nat take_bit_nat_eq_self)
  then have "n = 0" if "(of_nat n :: u32) = 0" using that by simp
  then show ?thesis by (cases "n = 0") (auto simp: word_gt_0)
qed

lemma leaf_count_pos:
  "flag_refcnt l = ref_word n d \<Longrightarrow> n < 2 ^ 31 \<Longrightarrow> 0 < tree_leaf_ref_count l \<longleftrightarrow> 0 < n"
  by (simp add: tree_leaf_ref_count_def ref_word_count of_nat_u32_pos)

lemma leaf_deleted: "flag_refcnt l = ref_word n d \<Longrightarrow> n < 2 ^ 31 \<Longrightarrow> tree_leaf_is_delete l \<longleftrightarrow> d"
  by (simp add: tree_leaf_is_delete_def ref_word_deleted)

subsection \<open>The invariant\<close>

text \<open>
  \<open>F\<close> are the leaves of the other pools, \<open>H\<close> the references of the readers of this pool, \<open>M\<close> the map of the tree.
\<close>

definition cp_core :: "nat set \<Rightarrow> nat list \<Rightarrow> (nat \<rightharpoonup> nat) \<Rightarrow> cache_pool_t \<Rightarrow> cache_mem \<Rightarrow> bool" where
  "cp_core F H M p mem \<longleftrightarrow>
     distinct (lru_list p) \<and> cache_num p = int (length (lru_list p)) \<and> length H < 2 ^ 31 \<and>
     (\<forall>k l. M k = Some l \<longleftrightarrow> l \<in> set (lru_list p) \<and> unat (blkid (leaf_at mem l)) = k) \<and>
     (\<forall>l \<in> set (lru_list p) \<union> set H. flag_refcnt (leaf_at mem l) = ref_word (count_list H l) (l \<notin> set (lru_list p))) \<and>
     finite F \<and> F \<inter> (set (lru_list p) \<union> set H) = {} \<and>
     (\<forall>l. leaf_live mem l \<longleftrightarrow> l \<in> F \<union> (set (lru_list p) \<union> set H)) \<and>
     tree_leaf_cnt mem = int (card (F \<union> (set (lru_list p) \<union> set H)))"

lemma cp_coreI:
  assumes "distinct (lru_list p)" "cache_num p = int (length (lru_list p))" "length H < 2 ^ 31"
    "\<And>k l. M k = Some l \<longleftrightarrow> l \<in> set (lru_list p) \<and> unat (blkid (leaf_at mem l)) = k"
    "\<And>l. l \<in> set (lru_list p) \<union> set H \<Longrightarrow> flag_refcnt (leaf_at mem l) = ref_word (count_list H l) (l \<notin> set (lru_list p))"
    "finite F" "F \<inter> (set (lru_list p) \<union> set H) = {}"
    "\<And>l. leaf_live mem l \<longleftrightarrow> l \<in> F \<union> (set (lru_list p) \<union> set H)"
    "tree_leaf_cnt mem = int (card (F \<union> (set (lru_list p) \<union> set H)))"
  shows "cp_core F H M p mem"
  unfolding cp_core_def using assms by blast

lemma cp_coreD:
  assumes "cp_core F H M p mem"
  shows "distinct (lru_list p)" "cache_num p = int (length (lru_list p))" "length H < 2 ^ 31"
    "M k = Some l \<longleftrightarrow> l \<in> set (lru_list p) \<and> unat (blkid (leaf_at mem l)) = k"
    "l \<in> set (lru_list p) \<union> set H \<Longrightarrow> flag_refcnt (leaf_at mem l) = ref_word (count_list H l) (l \<notin> set (lru_list p))"
    "finite F" "F \<inter> (set (lru_list p) \<union> set H) = {}"
    "leaf_live mem l \<longleftrightarrow> l \<in> F \<union> (set (lru_list p) \<union> set H)"
    "tree_leaf_cnt mem = int (card (F \<union> (set (lru_list p) \<union> set H)))"
    "count_list H l < 2 ^ 31"
proof -
  note core = assms [unfolded cp_core_def]
  show "distinct (lru_list p)" "cache_num p = int (length (lru_list p))" "length H < 2 ^ 31"
    "M k = Some l \<longleftrightarrow> l \<in> set (lru_list p) \<and> unat (blkid (leaf_at mem l)) = k"
    "l \<in> set (lru_list p) \<union> set H \<Longrightarrow> flag_refcnt (leaf_at mem l) = ref_word (count_list H l) (l \<notin> set (lru_list p))"
    "finite F" "F \<inter> (set (lru_list p) \<union> set H) = {}"
    "leaf_live mem l \<longleftrightarrow> l \<in> F \<union> (set (lru_list p) \<union> set H)"
    "tree_leaf_cnt mem = int (card (F \<union> (set (lru_list p) \<union> set H)))" using core by blast+
  show "count_list H l < 2 ^ 31" using core count_le_length [of H l] by (meson le_less_trans)
qed

text \<open>What the operations do to the store, given the reference word of the leaf.\<close>

lemma release_eq:
  "flag_refcnt (leaf_at mem l) = ref_word 0 d \<Longrightarrow> release_tree_leaf l mem =
     mem\<lparr>citem_freed := leaf_data (leaf_at mem l) # citem_freed mem, leaf_live := (leaf_live mem)(l := False), tree_leaf_cnt := tree_leaf_cnt mem - 1\<rparr>"
  by (simp add: release_tree_leaf_def leaf_count_pos)

lemma leaf_drop_eq:
  assumes "flag_refcnt (leaf_at mem l) = ref_word n False" "n < 2 ^ 31"
  shows "leaf_drop l mem = (if 0 < n then upd_leaf l (\<lambda>x. x\<lparr>flag_refcnt := ref_word n True\<rparr>) mem else release_tree_leaf l mem)"
  using assms by (auto simp: leaf_drop_def leaf_count_pos upd_leaf_def tree_leaf_set_delete_def ref_word_mark)

lemma leaf_drop_fields:
  "leaf_data (leaf_at (leaf_drop l mem) x) = leaf_data (leaf_at mem x)" "blkid (leaf_at (leaf_drop l mem) x) = blkid (leaf_at mem x)"
  "node_mem (leaf_drop l mem) = node_mem mem"
  by (auto simp: leaf_drop_def release_tree_leaf_def upd_leaf_def tree_leaf_set_delete_def)

subsection \<open>Leaves leave and enter the pool\<close>

lemma core_drop:
  assumes core: "cp_core F H M p mem" and l: "l \<in> set (lru_list p)"
  shows "cp_core F H (M(unat (blkid (leaf_at mem l)) := None)) (lru_del l p) (leaf_drop l mem)"
proof -
  note D = cp_coreD [OF core]
  let ?n = "count_list H l"
  have n: "?n < 2 ^ 31" by (rule D(10))
  have flag: "flag_refcnt (leaf_at mem l) = ref_word ?n False" using D(5) [of l] l by simp
  have pos: "0 < ?n \<longleftrightarrow> l \<in> set H" by (simp only: neq0_conv [symmetric] count_list_0_iff not_not)
  have lru: "set (lru_list (lru_del l p)) = set (lru_list p) - {l}" using D(1) by (simp add: lru_del_def)
  have lF: "l \<notin> F" using D(7) l by blast
  show ?thesis
  proof (rule cp_coreI, unfold lru)
    show "distinct (lru_list (lru_del l p))" using D(1) by (simp add: lru_del_def)
    show "cache_num (lru_del l p) = int (length (lru_list (lru_del l p)))"
      using D(2) l length_pos_if_in_set [OF l] by (simp add: lru_del_def length_remove1 of_nat_diff Suc_leI)
    show "length H < 2 ^ 31" by (rule D(3))
    show "finite F" by (rule D(6))
    show "(M(unat (blkid (leaf_at mem l)) := None)) k = Some x \<longleftrightarrow>
        x \<in> set (lru_list p) - {l} \<and> unat (blkid (leaf_at (leaf_drop l mem) x)) = k" for k x
    proof (cases "k = unat (blkid (leaf_at mem l))")
      case True
      then have "M k = Some l" using D(4) [of k l] l by simp
      then show ?thesis using D(4) [of k x] True by (auto simp: leaf_drop_fields)
    next
      case False
      then show ?thesis using D(4) [of k x] by (auto simp: leaf_drop_fields)
    qed
    show "flag_refcnt (leaf_at (leaf_drop l mem) x) = ref_word (count_list H x) (x \<notin> set (lru_list p) - {l})"
      if x: "x \<in> set (lru_list p) - {l} \<union> set H" for x
    proof (cases "x = l")
      case True
      then show ?thesis using x pos unfolding leaf_drop_eq [OF flag n] by (simp add: upd_leaf_def)
    next
      case False
      then show ?thesis using D(5) [of x] x unfolding leaf_drop_eq [OF flag n] by (simp add: upd_leaf_def release_tree_leaf_def)
    qed
    show "F \<inter> (set (lru_list p) - {l} \<union> set H) = {}" using D(7) by blast
    show "leaf_live (leaf_drop l mem) x \<longleftrightarrow> x \<in> F \<union> (set (lru_list p) - {l} \<union> set H)" for x
      using D(8) [of x] pos flag lF release_eq [of mem l False] unfolding leaf_drop_eq [OF flag n]
      by (cases "x = l"; cases "0 < ?n") (auto simp: upd_leaf_def)
    show "tree_leaf_cnt (leaf_drop l mem) = int (card (F \<union> (set (lru_list p) - {l} \<union> set H)))"
    proof (cases "0 < ?n")
      case True
      then have "F \<union> (set (lru_list p) - {l} \<union> set H) = F \<union> (set (lru_list p) \<union> set H)" using pos by blast
      then show ?thesis using D(9) True unfolding leaf_drop_eq [OF flag n] by (simp add: upd_leaf_def)
    next
      case False
      then have "F \<union> (set (lru_list p) - {l} \<union> set H) = F \<union> (set (lru_list p) \<union> set H) - {l}" using pos lF by auto
      moreover have "0 < card (F \<union> (set (lru_list p) \<union> set H))" using D(6) l by (auto simp: card_gt_0_iff)
      ultimately show ?thesis using D(6,9) False flag l release_eq [of mem l False] unfolding leaf_drop_eq [OF flag n]
        by (simp add: card_Diff_singleton of_nat_diff Suc_leI)
    qed
  qed
qed

lemma core_new:
  assumes core: "cp_core F H M p mem" and l: "\<not> leaf_live mem l" and k: "M (unat key) = None"
  shows "cp_core F H (M(unat key \<mapsto> l)) (p\<lparr>lru_list := l # lru_list p, cache_num := cache_num p + 1\<rparr>)
    (mem\<lparr>leaf_at := (leaf_at mem)(l := \<lparr>leaf_data = d, blkid = key, flag_refcnt = 0\<rparr>),
         leaf_live := (leaf_live mem)(l := True), tree_leaf_cnt := tree_leaf_cnt mem + 1\<rparr>)"
proof -
  note D = cp_coreD [OF core]
  have n: "l \<notin> F" "l \<notin> set (lru_list p)" "l \<notin> set H" using D(8) [of l] l by auto
  have h: "count_list H l = 0" "ref_word 0 False = 0" using n(3) by (simp_all add: count_list_0_iff ref_word_def)
  show ?thesis
  proof (rule cp_coreI, goal_cases)
    case (4 k' x)
    show ?case using D(4) [of k' x] k n(2) by auto
  next
    case (5 x)
    then show ?case using D(5) [of x] n h by auto
  next
    case (8 x)
    show ?case using D(8) [of x] by auto
  next
    case 9
    have "F \<union> (set (l # lru_list p) \<union> set H) = insert l (F \<union> (set (lru_list p) \<union> set H))" by auto
    then show ?case using D(6,9) n by simp
  qed (use D(1-3,6,7) n in auto)
qed

subsection \<open>Readers take and give back references\<close>

lemma core_hold:
  assumes core: "cp_core F H M p mem" and l: "l \<in> set (lru_list p)" and H: "Suc (length H) < 2 ^ 31"
  shows "cp_core F (l # H) M (p\<lparr>lru_list := l # remove1 l (lru_list p)\<rparr>) (upd_leaf l (\<lambda>x. x\<lparr>flag_refcnt := flag_refcnt x + 1\<rparr>) mem)"
proof -
  note D = cp_coreD [OF core]
  let ?p = "p\<lparr>lru_list := l # remove1 l (lru_list p)\<rparr>" and ?m = "upd_leaf l (\<lambda>x. x\<lparr>flag_refcnt := flag_refcnt x + 1\<rparr>) mem"
  have s: "set (lru_list ?p) = set (lru_list p)" using D(1) l by auto
  have H': "set (lru_list p) \<union> set (l # H) = set (lru_list p) \<union> set H" using l by auto
  have c: "Suc (count_list H l) < 2 ^ 31" using count_le_length [of H l] H by linarith
  show ?thesis
  proof (rule cp_coreI, unfold s H')
    show "distinct (lru_list ?p)" using D(1) by simp
    show "cache_num ?p = int (length (lru_list ?p))" using D(2) l length_pos_if_in_set [OF l] by (simp add: length_remove1)
    show "length (l # H) < 2 ^ 31" using H by simp
    show "M k = Some x \<longleftrightarrow> x \<in> set (lru_list p) \<and> unat (blkid (leaf_at ?m x)) = k" for k x
      using D(4) [of k x] by (auto simp: upd_leaf_def)
    show "flag_refcnt (leaf_at ?m x) = ref_word (count_list (l # H) x) (x \<notin> set (lru_list p))" if "x \<in> set (lru_list p) \<union> set H" for x
      using D(5) [OF that] D(5) [of l] l ref_word_Suc [OF c, of False] by (cases "x = l") (simp_all add: upd_leaf_def)
    show "leaf_live ?m x \<longleftrightarrow> x \<in> F \<union> (set (lru_list p) \<union> set H)" for x using D(8) [of x] by (simp add: upd_leaf_def)
    show "tree_leaf_cnt ?m = int (card (F \<union> (set (lru_list p) \<union> set H)))" using D(9) by (simp add: upd_leaf_def)
    show "finite F" by (rule D(6))
    show "F \<inter> (set (lru_list p) \<union> set H) = {}" by (rule D(7))
  qed
qed

lemma core_unhold:
  assumes core: "cp_core F H M p mem" and l: "l \<in> set H"
  defines "mem1 \<equiv> upd_leaf l (\<lambda>x. x\<lparr>flag_refcnt := flag_refcnt x - 1\<rparr>) mem"
  shows "cp_core F (remove1 l H) M p (if tree_leaf_is_delete (leaf_at mem1 l) \<and> \<not> tree_leaf_ref_count (leaf_at mem1 l) > 0
      then release_tree_leaf l mem1 else mem1)"
proof -
  note D = cp_coreD [OF core]
  let ?n = "count_list H l"
  have n: "0 < ?n" "?n < 2 ^ 31" using l D(10) [of l] by (simp_all only: neq0_conv [symmetric] count_list_0_iff not_not)
  have cnt: "count_list (remove1 l H) x = (if x = l then count_list H x - 1 else count_list H x)" for x
    by (induction H) auto
  have flag: "flag_refcnt (leaf_at mem1 l) = ref_word (?n - 1) (l \<notin> set (lru_list p))"
    using D(5) [of l] l ref_word_pred [OF n] by (simp add: mem1_def upd_leaf_def)
  have test: "(tree_leaf_is_delete (leaf_at mem1 l) \<and> \<not> tree_leaf_ref_count (leaf_at mem1 l) > 0) \<longleftrightarrow> l \<notin> set (lru_list p) \<and> ?n = 1"
    using leaf_deleted [OF flag] leaf_count_pos [OF flag] n by auto
  have mem: "l \<in> set (remove1 l H) \<longleftrightarrow> 1 < ?n"
    using cnt [of l] count_list_0_iff [of "remove1 l H" l] n by auto
  have sub: "x \<in> set (remove1 l H) \<longleftrightarrow> x \<in> set H" if "x \<noteq> l" for x using that by simp
  have f: "flag_refcnt (leaf_at mem1 x) = ref_word (count_list (remove1 l H) x) (x \<notin> set (lru_list p))"
    if "x \<in> set (lru_list p) \<union> set (remove1 l H)" for x
    using that D(5) [of x] flag cnt [of x] sub [of x] by (cases "x = l") (auto simp: mem1_def upd_leaf_def)
  have b: "blkid (leaf_at mem1 x) = blkid (leaf_at mem x)" "leaf_live mem1 = leaf_live mem" "tree_leaf_cnt mem1 = tree_leaf_cnt mem" for x
    by (simp_all add: mem1_def upd_leaf_def)
  have H': "length (remove1 l H) < 2 ^ 31" by (rule le_less_trans [OF _ D(3)]) (simp add: length_remove1)
  let ?m = "if l \<notin> set (lru_list p) \<and> ?n = 1 then release_tree_leaf l mem1 else mem1"
  have rel: "release_tree_leaf l mem1 = mem1\<lparr>citem_freed := leaf_data (leaf_at mem1 l) # citem_freed mem1,
      leaf_live := (leaf_live mem1)(l := False), tree_leaf_cnt := tree_leaf_cnt mem1 - 1\<rparr>" if "?n = 1"
    using release_eq [of mem1 l] flag that by simp
  have S: "set (lru_list p) \<union> set (remove1 l H) =
      (if l \<notin> set (lru_list p) \<and> ?n = 1 then set (lru_list p) \<union> set H - {l} else set (lru_list p) \<union> set H)"
  proof -
    have "set (remove1 l H) = (if 1 < ?n then set H else set H - {l})"
    proof (rule set_eqI)
      show "x \<in> set (remove1 l H) \<longleftrightarrow> x \<in> (if 1 < ?n then set H else set H - {l})" for x
        using mem sub [of x] l by (cases "x = l") auto
    qed
    then show ?thesis using n(1) l by auto
  qed
  have lF: "l \<notin> F" using D(7) l by blast
  show ?thesis unfolding test
  proof (rule cp_coreI)
    show "M k = Some x \<longleftrightarrow> x \<in> set (lru_list p) \<and> unat (blkid (leaf_at ?m x)) = k" for k x
      using D(4) [of k x] b(1) [of x] rel by auto
    show "flag_refcnt (leaf_at ?m x) = ref_word (count_list (remove1 l H) x) (x \<notin> set (lru_list p))"
      if "x \<in> set (lru_list p) \<union> set (remove1 l H)" for x
      using f [OF that] rel by auto
    show "F \<inter> (set (lru_list p) \<union> set (remove1 l H)) = {}" unfolding S using D(7) by auto
    show "leaf_live ?m x \<longleftrightarrow> x \<in> F \<union> (set (lru_list p) \<union> set (remove1 l H))" for x
      unfolding S using D(8) [of x] b(2) rel lF by auto
    have "F \<union> (set (lru_list p) \<union> set H - {l}) = F \<union> (set (lru_list p) \<union> set H) - {l}" using lF by blast
    moreover have "0 < card (F \<union> (set (lru_list p) \<union> set H))" using D(6) l by (auto simp: card_gt_0_iff)
    ultimately show "tree_leaf_cnt ?m = int (card (F \<union> (set (lru_list p) \<union> set (remove1 l H))))"
      unfolding S using D(6,9) b(3) rel l by (auto simp: card_Diff_singleton of_nat_diff Suc_leI)
  qed (rule D H')+
qed

subsection \<open>The pool as an invariant of the state\<close>

definition cp_inv :: "nat set \<Rightarrow> nat list \<Rightarrow> cache_st \<Rightarrow> bool" where
  "cp_inv F H st \<longleftrightarrow> rt_inv (tree (fst st)) \<and> cp_core F H (rt_map (tree (fst st))) (fst st) (snd st)"

text \<open>The content of a pool: keys and user items, most recently used first.\<close>

definition lru_view :: "cache_st \<Rightarrow> (u64 \<times> nat) list" where
  "lru_view st = map (\<lambda>l. (blkid (leaf_at (snd st) l), leaf_data (leaf_at (snd st) l))) (lru_list (fst st))"

lemma cp_core_node_mem [simp]: "cp_core F H M (p\<lparr>tree := t\<rparr>) mem = cp_core F H M p mem" "cp_core F H M p (mem\<lparr>node_mem := nm\<rparr>) = cp_core F H M p mem"
  by (simp_all add: cp_core_def)

lemma unat_key_eq: "unat (a :: u64) = unat b \<longleftrightarrow> a = b"
  by (auto intro: word_unat_eq_iff [THEN iffD2])

lemma tree_delete_spec:
  assumes "cp_inv F H st" "tree_delete key st = (found, st1)"
  shows "found = rt_map (tree (fst st)) (unat key)" "rt_inv (tree (fst st1))"
    "rt_map (tree (fst st1)) = (rt_map (tree (fst st)))(unat key := None)"
    "st1 = ((fst st)\<lparr>tree := tree (fst st1)\<rparr>, (snd st)\<lparr>node_mem := node_mem (snd st1)\<rparr>)"
    "rnode (tree (fst st1)) = RNull \<Longrightarrow> rt_height (tree (fst st1)) = 0 \<or> tree (fst st1) = tree (fst st)"
proof -
  obtain fd t nm where d: "dms_radix_tree_delete key (tree (fst st)) (node_mem (snd st)) = (fd, t, nm)" by (metis prod_cases3)
  note sp = dms_radix_tree_delete_spec [OF _ d]
  show "found = rt_map (tree (fst st)) (unat key)" "rt_inv (tree (fst st1))"
    "rt_map (tree (fst st1)) = (rt_map (tree (fst st)))(unat key := None)"
    "st1 = ((fst st)\<lparr>tree := tree (fst st1)\<rparr>, (snd st)\<lparr>node_mem := node_mem (snd st1)\<rparr>)"
    "rnode (tree (fst st1)) = RNull \<Longrightarrow> rt_height (tree (fst st1)) = 0 \<or> tree (fst st1) = tree (fst st)"
    using sp assms by (auto simp: tree_delete_def d cp_inv_def)
qed

lemma lru_view_del:
  assumes "cp_inv F H st" "l \<in> set (lru_list (fst st))" "st1 = ((fst st)\<lparr>tree := t\<rparr>, (snd st)\<lparr>node_mem := nm\<rparr>)"
  shows "lru_view (lru_del l (fst st1), leaf_drop l (snd st1)) = filter (\<lambda>e. fst e \<noteq> blkid (leaf_at (snd st) l)) (lru_view st)"
proof -
  note D = cp_coreD [OF conjunct2 [OF assms(1) [unfolded cp_inv_def]]]
  have "x = l \<longleftrightarrow> blkid (leaf_at (snd st) x) = blkid (leaf_at (snd st) l)" if "x \<in> set (lru_list (fst st))" for x
    using D(4) [of "unat (blkid (leaf_at (snd st) l))" x] D(4) [of "unat (blkid (leaf_at (snd st) l))" l] that assms(2)
    by (auto simp: unat_key_eq)
  then show ?thesis using distinct_remove1_removeAll [OF D(1), of l]
    by (auto simp: lru_view_def lru_del_def leaf_drop_fields assms(3) removeAll_filter_not_eq filter_map comp_def
        intro!: map_cong filter_cong)
qed

lemma remove_leaf:
  assumes inv: "cp_inv F H st" and "tree_delete key st = (Some l, st1)"
  defines "st2 \<equiv> (lru_del l (fst st1), leaf_drop l (snd st1))"
  shows "cp_inv F H st2" "l \<in> set (lru_list (fst st))" "blkid (leaf_at (snd st) l) = key"
    "lru_view st2 = filter (\<lambda>e. fst e \<noteq> key) (lru_view st)" "lru_list (fst st2) = remove1 l (lru_list (fst st))"
    "\<And>x. leaf_data (leaf_at (snd st2) x) = leaf_data (leaf_at (snd st) x)" "\<And>x. blkid (leaf_at (snd st2) x) = blkid (leaf_at (snd st) x)"
    "cache_size (fst st2) = cache_size (fst st)"
proof -
  note T = tree_delete_spec [OF assms(1,2)]
  have core: "cp_core F H (rt_map (tree (fst st))) (fst st) (snd st)" using inv by (simp add: cp_inv_def)
  have k: "l \<in> set (lru_list (fst st))" "unat (blkid (leaf_at (snd st) l)) = unat key"
    using cp_coreD(4) [OF core, of "unat key" l] T(1) by auto
  then show l: "l \<in> set (lru_list (fst st))" "blkid (leaf_at (snd st) l) = key" by (simp_all add: unat_key_eq)
  have f: "fst st1 = (fst st)\<lparr>tree := tree (fst st1)\<rparr>" "snd st1 = (snd st)\<lparr>node_mem := node_mem (snd st1)\<rparr>"
    using T(4) by (metis fst_conv, metis snd_conv)
  have "cp_core F H (rt_map (tree (fst st))) (fst st1) (snd st1)" using core by (subst f(1), subst f(2)) simp
  moreover have "l \<in> set (lru_list (fst st1))" "blkid (leaf_at (snd st1) l) = key" using l by (subst f, simp)+
  ultimately have "cp_core F H (rt_map (tree (fst st1))) (fst st2) (snd st2)"
    using core_drop [of F H _ "fst st1" "snd st1" l] T(3) by (simp add: st2_def)
  then show "cp_inv F H st2" using T(2) by (simp add: cp_inv_def st2_def lru_del_def)
  show "lru_view st2 = filter (\<lambda>e. fst e \<noteq> key) (lru_view st)"
    using lru_view_del [OF inv k(1) T(4)] l(2) by (simp add: st2_def)
  show "lru_list (fst st2) = remove1 l (lru_list (fst st))" "cache_size (fst st2) = cache_size (fst st)"
    by (simp add: st2_def lru_del_def, subst f, simp)+
  show "leaf_data (leaf_at (snd st2) x) = leaf_data (leaf_at (snd st) x)" "blkid (leaf_at (snd st2) x) = blkid (leaf_at (snd st) x)" for x
    by (simp add: st2_def leaf_drop_fields, subst f, simp)+
qed

end
