(* ===== verification/Cache_Lru.thy ===== *)
theory Cache_Lru
  imports Cache_Inv
begin

text \<open>
  What every operation of a cache pool does to its content, the list of keys and user items by recency of use, and that it keeps the
  invariant.
\<close>

subsection \<open>Frame\<close>

text \<open>An operation keeps the size of the pool and does not touch the keys and items of the leaves that stay or are held.\<close>

definition cp_frame :: "nat set \<Rightarrow> cache_st \<Rightarrow> cache_st \<Rightarrow> bool" where
  "cp_frame ls st st' \<longleftrightarrow> cache_size (fst st') = cache_size (fst st) \<and>
     (\<forall>l \<in> ls. leaf_data (leaf_at (snd st') l) = leaf_data (leaf_at (snd st) l) \<and> blkid (leaf_at (snd st') l) = blkid (leaf_at (snd st) l))"

definition tree_ok :: "cache_st \<Rightarrow> bool" where
  "tree_ok st \<longleftrightarrow> rnode (tree (fst st)) \<noteq> RNull \<or> rt_height (tree (fst st)) = 0"

lemma cp_frame_refl [simp]: "cp_frame ls st st"
  by (simp add: cp_frame_def)

lemma cp_frame_trans: "cp_frame ls st st1 \<Longrightarrow> cp_frame ls st1 st2 \<Longrightarrow> cp_frame ls st st2"
  by (simp add: cp_frame_def)

lemma cp_inv_core: "cp_inv F H st \<Longrightarrow> cp_core F H (rt_map (tree (fst st))) (fst st) (snd st)"
  by (simp add: cp_inv_def)

lemmas cp_invD = cp_coreD [OF cp_inv_core]

lemma tree_ok_delete:
  assumes "cp_inv F H st" "tree_delete key st = (found, st1)" "tree_ok st"
  shows "tree_ok st1"
  using tree_delete_spec(5) [OF assms(1,2)] assms(3) by (auto simp: tree_ok_def)

lemma remove_leaf_frame:
  assumes "cp_inv F H st" "tree_delete key st = (Some l, st1)"
  shows "cp_frame UNIV st (lru_del l (fst st1), leaf_drop l (snd st1))"
    "tree_ok st \<Longrightarrow> tree_ok (lru_del l (fst st1), leaf_drop l (snd st1))"
  using remove_leaf(6-8) [OF assms] tree_ok_delete [OF assms] by (auto simp: cp_frame_def tree_ok_def lru_del_def)

lemma tree_delete_none:
  assumes "cp_inv F H st" "tree_delete key st = (None, st1)"
  shows "cp_inv F H st1" "lru_view st1 = lru_view st" "cp_frame UNIV st st1" "\<forall>e \<in> set (lru_view st). fst e \<noteq> key"
    "lru_list (fst st1) = lru_list (fst st)"
proof -
  note T = tree_delete_spec [OF assms]
  have m: "rt_map (tree (fst st1)) = rt_map (tree (fst st))" using T(1,3) by (simp add: fun_upd_idem_iff)
  have f: "fst st1 = (fst st)\<lparr>tree := tree (fst st1)\<rparr>" "snd st1 = (snd st)\<lparr>node_mem := node_mem (snd st1)\<rparr>"
    using T(4) by (metis fst_conv, metis snd_conv)
  have "cp_core F H (rt_map (tree (fst st1))) (fst st1) (snd st1)"
    unfolding m using cp_inv_core [OF assms(1)] by (subst f(1), subst f(2)) simp
  then show "cp_inv F H st1" using T(2) by (simp add: cp_inv_def)
  show "lru_view st1 = lru_view st" "cp_frame UNIV st st1" "lru_list (fst st1) = lru_list (fst st)"
    unfolding lru_view_def cp_frame_def by (subst f, subst f, simp)+
  show "\<forall>e \<in> set (lru_view st). fst e \<noteq> key"
    using T(1) cp_invD(4) [OF assms(1), of "unat key"] by (auto simp: lru_view_def)
qed

subsection \<open>Invalidation\<close>

lemma invalidate_loop_spec:
  assumes "cp_inv F H st"
  shows "cp_inv F H (invalidate_loop key n st) \<and> cp_frame UNIV st (invalidate_loop key n st) \<and>
    (tree_ok st \<longrightarrow> tree_ok (invalidate_loop key n st)) \<and>
    lru_view (invalidate_loop key n st) = filter (\<lambda>e. fst e \<notin> (\<lambda>i. key + of_nat i) ` {..<n}) (lru_view st)"
  using assms
proof (induction n arbitrary: key st)
  case (Suc n)
  have s: "(\<lambda>i. key + of_nat i) ` {..<Suc n} = insert key ((\<lambda>i. key + 1 + of_nat i) ` {..<n})"
    by (auto simp: lessThan_Suc_eq_insert_0 image_image add.assoc)
  obtain found st1 where d: "tree_delete key st = (found, st1)" by (metis prod.exhaust)
  show ?case
  proof (cases found)
    case None
    note N = tree_delete_none [OF Suc.prems d [unfolded None]]
    have "filter (\<lambda>e. fst e \<notin> insert key K) (lru_view st) = filter (\<lambda>e. fst e \<notin> K) (lru_view st)" for K
      using N(4) by (intro filter_cong) auto
    then show ?thesis
      using Suc.IH [OF N(1), of "key + 1"] N(2,3) tree_ok_delete [OF Suc.prems d] d None unfolding s
      by (auto intro: cp_frame_trans)
  next
    case (Some l)
    note R = remove_leaf [OF Suc.prems d [unfolded Some]] and Fr = remove_leaf_frame [OF Suc.prems d [unfolded Some]]
    show ?thesis
      using Suc.IH [OF R(1), of "key + 1"] R(4) Fr d Some unfolding s
      by (auto intro: cp_frame_trans simp: conj_commute)
  qed
qed (simp add: filter_True)

subsection \<open>Kicking out\<close>

definition kick_match :: "(nat \<Rightarrow> bool) option \<Rightarrow> cache_st \<Rightarrow> nat \<Rightarrow> bool" where
  "kick_match cmp st l = (case cmp of None \<Rightarrow> True | Some f \<Rightarrow> f (leaf_data (leaf_at (snd st) l)))"

definition kicked :: "(nat \<Rightarrow> bool) option \<Rightarrow> int \<Rightarrow> int \<Rightarrow> nat list \<Rightarrow> cache_st \<Rightarrow> nat list" where
  "kicked cmp count n xs st =
     (if count = -1 then filter (kick_match cmp st) xs else take (nat n) (filter (kick_match cmp st) xs))"

lemma kick_loop_spec:
  assumes "cp_inv F H st" "set xs \<subseteq> set (lru_list (fst st))" "distinct xs" "count \<noteq> -1 \<longrightarrow> nr < tot"
    and "kick_loop cmp count tot xs nr fl st = (fl', st')"
  shows "cp_inv F H st' \<and> cp_frame UNIV st st' \<and> (tree_ok st \<longrightarrow> tree_ok st') \<and>
    lru_list (fst st') = filter (\<lambda>l. l \<notin> set (kicked cmp count (tot - nr) xs st)) (lru_list (fst st)) \<and>
    (fl' \<longleftrightarrow> fl \<or> count = -1 \<and> (\<exists>l \<in> set (kicked cmp count (tot - nr) xs st). l \<in> set H))"
  using assms
proof (induction xs arbitrary: nr fl st)
  case (Cons l xs)
  note inv = Cons.prems(1)
  have l: "l \<in> set (lru_list (fst st))" "l \<notin> set xs" using Cons.prems(2,3) by auto
  show ?case
  proof (cases "kick_match cmp st l")
    case False
    then have "kick_loop cmp count tot xs nr fl st = (fl', st')"
      using Cons.prems(5) by (cases cmp) (auto simp: kick_match_def)
    then show ?thesis using Cons.IH [OF inv, of nr fl] Cons.prems(2-4) False by (simp add: kicked_def)
  next
    case True
    let ?k = "blkid (leaf_at (snd st) l)"
    have "rt_map (tree (fst st)) (unat ?k) = Some l" using cp_invD(4) [OF inv] l(1) by blast
    then obtain st1 where d: "tree_delete ?k st = (Some l, st1)"
      using tree_delete_spec(1) [OF inv] by (metis prod.exhaust)
    define st2 where "st2 = (lru_del l (fst st1), leaf_drop l (snd st1))"
    note R = remove_leaf [OF inv d, folded st2_def] and Fr = remove_leaf_frame [OF inv d, folded st2_def]
    have busy: "0 < tree_leaf_ref_count (leaf_at (snd st1) l) \<longleftrightarrow> l \<in> set H"
    proof -
      have "leaf_at (snd st1) l = leaf_at (snd st) l" using tree_delete_spec(4) [OF inv d] by (metis cache_mem.select_convs(1) cache_mem.surjective cache_mem.update_convs(5) snd_conv)
      moreover have "flag_refcnt (leaf_at (snd st) l) = ref_word (count_list H l) False" using cp_invD(5) [OF inv, of l] l(1) by simp
      ultimately show ?thesis using leaf_count_pos [OF _ cp_invD(10) [OF inv, of l]]
        by (simp only: neq0_conv [symmetric] count_list_0_iff not_not)
    qed
    have m: "kick_match cmp st2 = kick_match cmp st" using R(6) by (simp add: kick_match_def fun_eq_iff split: option.splits)
    let ?fl = "fl \<or> l \<in> set H \<and> count = -1"
    have step: "kick_loop cmp count tot (l # xs) nr fl st =
        (if count \<noteq> -1 \<and> nr + 1 \<ge> tot then (?fl, st2) else kick_loop cmp count tot xs (nr + 1) ?fl st2)"
      using True d busy by (cases cmp) (simp_all add: kick_match_def st2_def Let_def)
    have xs: "set xs \<subseteq> set (lru_list (fst st2))" "distinct xs" using Cons.prems(2,3) R(5) cp_invD(1) [OF inv] l(2) by auto
    have rm: "lru_list (fst st2) = filter (\<lambda>x. x \<noteq> l) (lru_list (fst st))"
      using R(5) distinct_remove1_removeAll [OF cp_invD(1) [OF inv], of l] by (simp add: removeAll_filter_not_eq eq_commute)
    show ?thesis
    proof (cases "count \<noteq> -1 \<and> nr + 1 \<ge> tot")
      case True
      then have "tot - nr = 1" using Cons.prems(4) by simp
      then have "kicked cmp count (tot - nr) (l # xs) st = [l]" using True \<open>kick_match cmp st l\<close> by (simp add: kicked_def)
      moreover have "fl' = fl" "st' = st2" using Cons.prems(5) [unfolded step] True by auto
      ultimately show ?thesis using True R(1) Fr rm by auto
    next
      case False
      have k: "kicked cmp count (tot - nr) (l # xs) st = l # kicked cmp count (tot - (nr + 1)) xs st2"
      proof -
        have "nat (tot - nr) = Suc (nat (tot - (nr + 1)))" if "count \<noteq> -1" using False that by linarith
        then show ?thesis using \<open>kick_match cmp st l\<close> by (simp add: kicked_def m)
      qed
      have "kick_loop cmp count tot xs (nr + 1) ?fl st2 = (fl', st')" using Cons.prems(5) [unfolded step] False by (simp only: if_False)
      from Cons.IH [OF R(1) xs _ this] False have ih: "cp_inv F H st'" "cp_frame UNIV st2 st'" "tree_ok st2 \<longrightarrow> tree_ok st'"
          "lru_list (fst st') = filter (\<lambda>x. x \<notin> set (kicked cmp count (tot - (nr + 1)) xs st2)) (lru_list (fst st2))"
          "fl' \<longleftrightarrow> ?fl \<or> count = -1 \<and> (\<exists>x \<in> set (kicked cmp count (tot - (nr + 1)) xs st2). x \<in> set H)"
        by auto
      show ?thesis unfolding k using ih Fr rm by (auto intro: cp_frame_trans filter_cong)
    qed
  qed
qed (simp add: kicked_def)

lemma kick_all_spec:
  assumes "cp_inv F H st" "kick_meta_cache_pool (-1) cmp st = (fl, st')"
  shows "cp_inv F H st'" "cp_frame UNIV st st'" "tree_ok st \<Longrightarrow> tree_ok st'"
    "lru_list (fst st') = filter (\<lambda>l. \<not> kick_match cmp st l) (lru_list (fst st))"
    "fl \<longleftrightarrow> (\<exists>l \<in> set (lru_list (fst st)). kick_match cmp st l \<and> l \<in> set H)"
proof -
  have "kick_loop cmp (-1) (cache_num (fst st)) (rev (lru_list (fst st))) 0 False st = (fl, st')"
    using assms(2) by (simp add: kick_meta_cache_pool_def)
  from kick_loop_spec [OF assms(1) _ _ _ this] cp_invD(1) [OF assms(1)]
  show "cp_inv F H st'" "cp_frame UNIV st st'" "tree_ok st \<Longrightarrow> tree_ok st'"
    "lru_list (fst st') = filter (\<lambda>l. \<not> kick_match cmp st l) (lru_list (fst st))"
    "fl \<longleftrightarrow> (\<exists>l \<in> set (lru_list (fst st)). kick_match cmp st l \<and> l \<in> set H)"
    by (auto simp: kicked_def intro: filter_cong)
qed

lemma filter_not_last: "distinct xs \<Longrightarrow> filter (\<lambda>x. x \<notin> set (take n (rev xs))) xs = take (length xs - n) xs"
proof -
  assume d: "distinct xs"
  have "take n (rev xs) = rev (drop (length xs - n) xs)" by (simp add: take_rev)
  moreover have "filter (\<lambda>x. x \<notin> set (drop m xs)) xs = take m xs" for m
  proof -
    have "filter (\<lambda>x. x \<notin> set (drop m xs)) (take m xs) = take m xs" "filter (\<lambda>x. x \<notin> set (drop m xs)) (drop m xs) = []"
      using set_take_disj_set_drop_if_distinct [OF d order_refl, of m] by (auto simp: filter_empty_conv intro!: filter_True)
    then show ?thesis using filter_append [of "\<lambda>x. x \<notin> set (drop m xs)" "take m xs" "drop m xs"] by (simp only: append_take_drop_id append_Nil2)
  qed
  ultimately show ?thesis by simp
qed

lemma kick_lru_spec:
  assumes "cp_inv F H st" "0 < c"
  shows "cp_inv F H (snd (kick_meta_cache_pool c None st)) \<and> cp_frame UNIV st (snd (kick_meta_cache_pool c None st)) \<and>
    (tree_ok st \<longrightarrow> tree_ok (snd (kick_meta_cache_pool c None st))) \<and>
    lru_list (fst (snd (kick_meta_cache_pool c None st))) = take (length (lru_list (fst st)) - nat c) (lru_list (fst st))"
proof (cases "lru_list (fst st)")
  case Nil
  then have "cache_num (fst st) = 0" using cp_invD(2) [OF assms(1)] by simp
  then show ?thesis using assms Nil by (simp add: kick_meta_cache_pool_def)
next
  case (Cons a r)
  let ?xs = "lru_list (fst st)" and ?t = "if c > cache_num (fst st) then cache_num (fst st) else c"
  obtain fl st' where k: "kick_loop None c ?t (rev ?xs) 0 False st = (fl, st')" by (metis prod.exhaust)
  have n: "cache_num (fst st) = int (length ?xs)" "0 < length ?xs" using cp_invD(2) [OF assms(1)] Cons by simp_all
  have e: "snd (kick_meta_cache_pool c None st) = st'" using k assms(2) by (auto simp: kick_meta_cache_pool_def split: if_splits)
  have "take (nat ?t) (rev ?xs) = take (nat c) (rev ?xs)" using n by auto
  moreover have "cp_inv F H st' \<and> cp_frame UNIV st st' \<and> (tree_ok st \<longrightarrow> tree_ok st') \<and>
      lru_list (fst st') = filter (\<lambda>l. l \<notin> set (take (nat ?t) (rev ?xs))) ?xs"
    using kick_loop_spec [OF assms(1) _ _ _ k] n assms(2) cp_invD(1) [OF assms(1)] by (auto simp: kicked_def kick_match_def)
  ultimately show ?thesis unfolding e using filter_not_last [OF cp_invD(1) [OF assms(1)]] by simp
qed

lemma lru_view_frame:
  assumes "cp_frame UNIV st st'" "lru_list (fst st') = g (lru_list (fst st))" "\<And>f. map f (g (lru_list (fst st))) = h (map f (lru_list (fst st)))"
  shows "lru_view st' = h (lru_view st)"
  using assms(1) unfolding lru_view_def assms(2) assms(3) [symmetric] by (intro map_cong) (auto simp: cp_frame_def)

text \<open>The reclaim of \<^verbatim>\<open>cache_update\<close> leaves room for the new items, whatever the 32-bit arithmetic.\<close>

lemma cache_reclaim_spec:
  assumes inv: "cp_inv F H st" and sz: "unat (cache_size (fst st)) < 2 ^ 31" "length (lru_list (fst st)) \<le> unat (cache_size (fst st))"
    and n: "n \<le> unat (cache_size (fst st))"
  shows "cp_inv F H (cache_reclaim (of_nat n) st) \<and> cp_frame UNIV st (cache_reclaim (of_nat n) st) \<and>
    (tree_ok st \<longrightarrow> tree_ok (cache_reclaim (of_nat n) st)) \<and>
    lru_list (fst (cache_reclaim (of_nat n) st)) = take (unat (cache_size (fst st)) - n) (lru_list (fst st))"
proof -
  let ?s = "unat (cache_size (fst st))" and ?m = "length (lru_list (fst st))"
  have num: "cache_num (fst st) = int ?m" by (rule cp_invD(2) [OF inv])
  have si: "sint (of_int i :: u32) = i" if "- (2 ^ 31) \<le> i" "i < 2 ^ 31" for i
    using that by (simp add: signed_of_int signed_take_bit_int_eq_self)
  have s: "cache_size (fst st) = of_int (int ?s)" by simp
  have i0: "sint (of_int (cache_num (fst st)) + of_nat n - cache_size (fst st) :: u32) = int ?m + int n - int ?s"
  proof -
    have "of_int (cache_num (fst st)) + of_nat n - cache_size (fst st) = (of_int (int ?m + int n - int ?s) :: u32)"
      unfolding num by simp
    moreover have "int ?s < 2 ^ 31" "int ?m \<le> int ?s" "int n \<le> int ?s" using sz n by (simp_all only: of_nat_le_iff of_nat_less_numeral_power_cancel_iff)
    then have "- (2 ^ 31) \<le> int ?m + int n - int ?s" "int ?m + int n - int ?s < 2 ^ 31" by linarith+
    ultimately show ?thesis by (simp only: si)
  qed
  have ss: "sint (cache_size (fst st)) = int ?s"
  proof -
    have "int ?s < 2 ^ 31" using sz(1) by (simp only: of_nat_less_numeral_power_cancel_iff)
    moreover have "- (2 ^ 31) \<le> int ?s" by (rule order_trans [of _ 0]) (simp, rule of_nat_0_le_iff)
    ultimately have "sint (of_int (int ?s) :: u32) = int ?s" by (intro si)
    then show ?thesis by (simp only: s [symmetric])
  qed
  have le: "int ?m + int n - int ?s \<le> int ?s" using sz(2) n by linarith
  have r: "cache_reclaim (of_nat n) st = (if int ?m + int n - int ?s > 0
      then snd (kick_meta_cache_pool (int ?m + int n - int ?s) None st) else st)"
    unfolding cache_reclaim_def i0 ss Let_def using le by simp
  show ?thesis
  proof (cases "int ?m + int n - int ?s > 0")
    case True
    then have "?m - nat (int ?m + int n - int ?s) = ?s - n" using n sz(2) by linarith
    then show ?thesis using kick_lru_spec [OF inv True] True unfolding r by simp
  next
    case False
    then have "?m \<le> ?s - n" using n by linarith
    then show ?thesis unfolding r using inv False by simp
  qed
qed

subsection \<open>Updating\<close>

definition lru_insert :: "u64 \<Rightarrow> nat \<Rightarrow> (u64 \<times> nat) list \<Rightarrow> (u64 \<times> nat) list" where
  "lru_insert k d L = (k, d) # filter (\<lambda>e. fst e \<noteq> k) L"

lemma lru_view_none:
  assumes "cp_inv F H st" "rt_map (tree (fst st)) (unat key) = None"
  shows "filter (\<lambda>e. fst e \<noteq> key) (lru_view st) = lru_view st"
  using assms(2) cp_invD(4) [OF assms(1), of "unat key"] by (auto simp: lru_view_def filter_id_conv)

text \<open>Taking the old leaf out after the new one went in is the same as taking it out before.\<close>

lemma replace_commute:
  assumes "l \<noteq> old" "mem' = mem\<lparr>leaf_at := (leaf_at mem)(l := x), leaf_live := (leaf_live mem)(l := True), tree_leaf_cnt := tree_leaf_cnt mem + 1\<rparr>"
  shows "lru_del old (p\<lparr>lru_list := l # lru_list p, cache_num := cache_num p + 1\<rparr>) =
      (lru_del old p)\<lparr>lru_list := l # lru_list (lru_del old p), cache_num := cache_num (lru_del old p) + 1\<rparr>"
    "leaf_drop old mem' = (leaf_drop old mem)\<lparr>leaf_at := (leaf_at (leaf_drop old mem))(l := x),
      leaf_live := (leaf_live (leaf_drop old mem))(l := True), tree_leaf_cnt := tree_leaf_cnt (leaf_drop old mem) + 1\<rparr>"
  using assms by (auto simp: lru_del_def leaf_drop_def release_tree_leaf_def upd_leaf_def fun_upd_twist)

lemma core_put:
  fixes key :: u64 and d :: nat
  assumes core: "cp_core F H M p mem" and l: "\<not> leaf_live mem l"
  defines "mem' \<equiv> mem\<lparr>leaf_at := (leaf_at mem)(l := \<lparr>leaf_data = d, blkid = key, flag_refcnt = 0\<rparr>),
       leaf_live := (leaf_live mem)(l := True), tree_leaf_cnt := tree_leaf_cnt mem + 1\<rparr>"
    and "p' \<equiv> p\<lparr>lru_list := l # lru_list p, cache_num := cache_num p + 1\<rparr>"
  shows "case M (unat key) of
      None \<Rightarrow> cp_core F H (M(unat key \<mapsto> l)) p' mem'
    | Some old \<Rightarrow> old \<noteq> l \<and> old \<in> set (lru_list p) \<and> blkid (leaf_at mem old) = key \<and> cp_core F H (M(unat key \<mapsto> l)) (lru_del old p') (leaf_drop old mem')"
proof (cases "M (unat key)")
  case None
  then show ?thesis using core_new [OF core l None] by (simp add: mem'_def p'_def)
next
  case (Some old)
  have old: "old \<in> set (lru_list p)" "unat (blkid (leaf_at mem old)) = unat key" using cp_coreD(4) [OF core, of "unat key" old] Some by auto
  then have ne: "l \<noteq> old" using cp_coreD(8) [OF core, of l] l by auto
  have "\<not> leaf_live (leaf_drop old mem) l"
    using l ne by (auto simp: leaf_drop_def release_tree_leaf_def upd_leaf_def)
  note new = core_new [OF core_drop [OF core old(1)] this, of key d]
  have "lru_del old p' = (lru_del old p)\<lparr>lru_list := l # lru_list (lru_del old p), cache_num := cache_num (lru_del old p) + 1\<rparr>"
    unfolding p'_def by (rule replace_commute(1) [OF ne refl])
  moreover have "leaf_drop old mem' = (leaf_drop old mem)\<lparr>leaf_at := (leaf_at (leaf_drop old mem))(l := \<lparr>leaf_data = d, blkid = key, flag_refcnt = 0\<rparr>),
      leaf_live := (leaf_live (leaf_drop old mem))(l := True), tree_leaf_cnt := tree_leaf_cnt (leaf_drop old mem) + 1\<rparr>"
    by (rule replace_commute(2) [OF ne]) (simp add: mem'_def)
  ultimately show ?thesis using old ne new by (simp add: Some unat_key_eq)
qed

lemma update_one_spec:
  assumes inv: "cp_inv F H st" and fresh: "\<And>l. alloc = Some l \<Longrightarrow> \<not> leaf_live (snd st) l"
    and r: "update_one alloc key d st = (ret, st')"
  shows "cp_inv F H st' \<and> cp_frame (F \<union> set (lru_list (fst st)) \<union> set H) st st' \<and>
    (ret = 0 \<and> lru_view st' = lru_insert key d (lru_view st) \<and> tree_ok st'
     \<or> ret = - ENOMEM \<and> lru_view st' = lru_view st \<and> lru_list (fst st') = lru_list (fst st))"
proof (cases alloc)
  case None
  then have "ret = - ENOMEM" "fst st' = fst st" "snd st' = (snd st)\<lparr>citem_freed := d # citem_freed (snd st)\<rparr>" using r by (auto simp: update_one_def)
  then show ?thesis using inv by (auto simp: cp_inv_def cp_core_def lru_view_def cp_frame_def)
next
  case (Some l)
  have core: "cp_core F H (rt_map (tree (fst st))) (fst st) (snd st)" using inv by (rule cp_inv_core)
  have nl: "\<not> leaf_live (snd st) l" by (rule fresh [OF Some])
  then have n: "l \<notin> F \<union> set (lru_list (fst st)) \<union> set H" using cp_coreD(8) [OF core, of l] by blast
  define mem1 where "mem1 = (snd st)\<lparr>leaf_at := (leaf_at (snd st))(l := \<lparr>leaf_data = d, blkid = key, flag_refcnt = 0\<rparr>),
       leaf_live := (leaf_live (snd st))(l := True), tree_leaf_cnt := tree_leaf_cnt (snd st) + 1\<rparr>"
  obtain err old t nm where i: "dms_radix_tree_insert key l (tree (fst st)) (node_mem mem1) = (err, old, t, nm)" by (metis prod_cases4)
  have rt: "rt_inv (tree (fst st))" using inv by (simp add: cp_inv_def)
  note sp = dms_radix_tree_insert_spec [OF rt i]
  show ?thesis
  proof (cases "err = 0")
    case True
    then have s: "rt_inv t" "rnode t \<noteq> RNull" "old = rt_map (tree (fst st)) (unat key)" "rt_map t = (rt_map (tree (fst st)))(unat key \<mapsto> l)"
      using sp by (auto simp: ENOMEM_def)
    let ?p = "(fst st)\<lparr>lru_list := l # lru_list (fst st), cache_num := cache_num (fst st) + 1\<rparr>"
    have put: "case old of None \<Rightarrow> cp_core F H (rt_map t) ?p mem1
      | Some o' \<Rightarrow> o' \<noteq> l \<and> o' \<in> set (lru_list (fst st)) \<and> blkid (leaf_at (snd st) o') = key \<and> cp_core F H (rt_map t) (lru_del o' ?p) (leaf_drop o' mem1)"
      using core_put [OF core nl, of key d] unfolding s(3,4) mem1_def by (simp split: option.splits)
    show ?thesis
    proof (cases old)
      case None
      then have st': "ret = 0" "st' = (?p\<lparr>tree := t\<rparr>, mem1\<lparr>node_mem := nm\<rparr>)"
        using r i True Some by (auto simp: update_one_def mem1_def Let_def)
      have "cp_core F H (rt_map t) ?p mem1" using put None by simp
      then have "cp_inv F H st'" using s(1) by (simp add: st' cp_inv_def)
      moreover have "lru_view st' = (key, d) # lru_view st" using n by (auto simp: st' lru_view_def mem1_def)
      then have "lru_view st' = lru_insert key d (lru_view st)" using lru_view_none [OF inv, of key] s(3) None by (simp add: lru_insert_def)
      ultimately show ?thesis using st' n s(2) by (auto simp: cp_frame_def mem1_def tree_ok_def)
    next
      case (Some o')
      then have st': "ret = 0" "st' = ((lru_del o' ?p)\<lparr>tree := t\<rparr>, (leaf_drop o' mem1)\<lparr>node_mem := nm\<rparr>)"
        using r i True \<open>alloc = Some l\<close>
        by (auto simp: update_one_def mem1_def Let_def lru_del_def leaf_drop_def release_tree_leaf_def upd_leaf_def)
      have o': "o' \<noteq> l" "o' \<in> set (lru_list (fst st))" "blkid (leaf_at (snd st) o') = key" "cp_core F H (rt_map t) (lru_del o' ?p) (leaf_drop o' mem1)"
        using put Some by auto
      then have "cp_inv F H st'" using s(1) by (simp add: st' cp_inv_def)
      moreover have "lru_view st' = (key, d) # map (\<lambda>l. (blkid (leaf_at (snd st) l), leaf_data (leaf_at (snd st) l))) (remove1 o' (lru_list (fst st)))"
        using n o'(1) by (auto simp: st' lru_view_def lru_del_def leaf_drop_fields mem1_def dest: set_remove1_subset [THEN subsetD])
      moreover have "map (\<lambda>l. (blkid (leaf_at (snd st) l), leaf_data (leaf_at (snd st) l))) (remove1 o' (lru_list (fst st))) = filter (\<lambda>e. fst e \<noteq> key) (lru_view st)"
        using lru_view_del [OF inv o'(2), of "(fst st, snd st)" "tree (fst st)" "node_mem (snd st)"] o'(3)
        by (simp add: lru_view_def lru_del_def leaf_drop_fields)
      ultimately show ?thesis using st' n s(2) by (auto simp: cp_frame_def mem1_def tree_ok_def lru_insert_def leaf_drop_fields lru_del_def)
    qed
  next
    case False
    then have s: "err = - ENOMEM" "rt_inv t" "rt_map t = rt_map (tree (fst st))" using sp by auto
    then have st': "ret = - ENOMEM" "st' = ((fst st)\<lparr>tree := t\<rparr>, release_tree_leaf l (mem1\<lparr>node_mem := nm\<rparr>))"
      using r i Some by (auto simp: update_one_def mem1_def Let_def ENOMEM_def)
    have rel: "release_tree_leaf l (mem1\<lparr>node_mem := nm\<rparr>) = mem1\<lparr>node_mem := nm, citem_freed := d # citem_freed mem1,
        leaf_live := (leaf_live mem1)(l := False), tree_leaf_cnt := tree_leaf_cnt mem1 - 1\<rparr>"
      by (simp add: release_tree_leaf_def mem1_def tree_leaf_ref_count_def)
    have "cp_core F H (rt_map t) (fst st) (release_tree_leaf l (mem1\<lparr>node_mem := nm\<rparr>))"
      unfolding s(3) rel using core n nl unfolding cp_core_def by (auto simp: mem1_def)
    then have "cp_inv F H st'" using s(2) by (simp add: st' cp_inv_def)
    moreover have "lru_view st' = lru_view st" unfolding st' rel using n by (auto simp: lru_view_def mem1_def)
    ultimately show ?thesis unfolding st' rel using n by (auto simp: cp_frame_def mem1_def)
  qed
qed

fun lru_fill :: "bool list \<Rightarrow> u64 \<Rightarrow> nat list \<Rightarrow> (u64 \<times> nat) list \<Rightarrow> (u64 \<times> nat) list" where
  "lru_fill (ok # oks) k (d # ds) L = lru_fill oks (k + 1) ds (if ok then lru_insert k d L else L)"
| "lru_fill _ k _ L = L"

text \<open>The allocator never hands out a leaf that is in use.\<close>

fun allocs_fresh :: "nat option list \<Rightarrow> u64 \<Rightarrow> nat list \<Rightarrow> cache_st \<Rightarrow> bool" where
  "allocs_fresh (alloc # allocs) k (d # ds) st \<longleftrightarrow>
     (case alloc of None \<Rightarrow> True | Some l \<Rightarrow> \<not> leaf_live (snd st) l) \<and> allocs_fresh allocs (k + 1) ds (snd (update_one alloc k d st))"
| "allocs_fresh allocs k ds st \<longleftrightarrow> length allocs = length ds"

lemma length_lru_insert: "length (lru_insert k d L) \<le> Suc (length L)"
  by (simp add: lru_insert_def)

lemma length_lru_fill: "length (lru_fill oks k ds L) \<le> length L + length ds"
proof (induction oks k ds L rule: lru_fill.induct)
  case (1 ok oks k d ds L)
  then show ?case using length_lru_insert [of k d L] by (cases ok) auto
qed auto

definition update_ret :: "bool list \<Rightarrow> int \<Rightarrow> int" where
  "update_ret oks r = (if oks = [] then r else if last oks then 0 else - ENOMEM)"

lemma update_loop_spec:
  assumes "cp_inv F H st" "allocs_fresh allocs key ds st" "update_loop allocs key ds r st = (ret, st')"
  shows "\<exists>oks. length oks = length ds \<and> lru_view st' = lru_fill oks key ds (lru_view st) \<and> ret = update_ret oks r \<and>
    cp_inv F H st' \<and> cp_frame (F \<union> set H) st st' \<and> (tree_ok st \<and> False \<notin> set oks \<longrightarrow> tree_ok st')"
  using assms
proof (induction allocs key ds r st rule: update_loop.induct)
  case (3 alloc allocs key d ds r st)
  obtain r1 st1 where u: "update_one alloc key d st = (r1, st1)" by (metis prod.exhaust)
  have fresh: "\<not> leaf_live (snd st) l" if "alloc = Some l" for l using "3.prems"(2) that by simp
  note U = update_one_spec [OF "3.prems"(1) fresh u]
  have st1: "cp_inv F H st1" "allocs_fresh allocs (key + 1) ds st1" "update_loop allocs (key + 1) ds r1 st1 = (ret, st')"
    using U "3.prems"(2,3) u by auto
  from "3.IH" [OF u [symmetric] refl st1] obtain oks where ih: "length oks = length ds" "lru_view st' = lru_fill oks (key + 1) ds (lru_view st1)"
      "ret = update_ret oks r1" "cp_inv F H st'" "cp_frame (F \<union> set H) st1 st'" "tree_ok st1 \<and> False \<notin> set oks \<longrightarrow> tree_ok st'" by blast
  have "cp_frame (F \<union> set H) st st1" using U by (auto simp: cp_frame_def)
  then have fr: "cp_frame (F \<union> set H) st st'" using ih(5) by (rule cp_frame_trans)
  show ?case
  proof (cases "r1 = 0")
    case True
    then show ?thesis using U ih fr by (intro exI [of _ "True # oks"]) (auto simp: update_ret_def ENOMEM_def)
  next
    case False
    then show ?thesis using U ih fr by (intro exI [of _ "False # oks"]) (auto simp: update_ret_def)
  qed
qed (auto simp: update_ret_def)

lemma cache_update_spec:
  assumes inv: "cp_inv F H st" and sz: "unat (cache_size (fst st)) < 2 ^ 31" "length (lru_list (fst st)) \<le> unat (cache_size (fst st))"
    and n: "length ds < 2 ^ 32" and r: "cache_update_pool allocs start ds st = (ret, st')"
    and fresh: "allocs_fresh allocs start ds (cache_reclaim (of_nat (length ds)) st)"
  shows "if length ds > unat (cache_size (fst st)) \<or> cache_size (fst st) = 0 then ret = - E2BIG \<and> st' = st
    else \<exists>oks. length oks = length ds \<and> ret = update_ret oks 0 \<and> cp_inv F H st' \<and> cp_frame (F \<union> set H) st st' \<and>
      (tree_ok st \<and> False \<notin> set oks \<longrightarrow> tree_ok st') \<and>
      lru_view st' = lru_fill oks start ds (take (unat (cache_size (fst st)) - length ds) (lru_view st)) \<and>
      length (lru_list (fst st')) \<le> unat (cache_size (fst st))"
proof -
  let ?s = "unat (cache_size (fst st))"
  have c: "(of_nat (length ds) :: u32) > cache_size (fst st) \<longleftrightarrow> length ds > ?s"
  proof -
    have "unat (of_nat (length ds) :: u32) = length ds" using n by (simp add: unsigned_of_nat take_bit_nat_eq_self)
    then show ?thesis by (simp add: word_less_nat_alt)
  qed
  show ?thesis
  proof (cases "length ds > ?s \<or> cache_size (fst st) = 0")
    case True
    then show ?thesis using r by (auto simp: cache_update_pool_def c Let_def)
  next
    case False
    let ?st = "cache_reclaim (of_nat (length ds)) st"
    have R: "cp_inv F H ?st" "cp_frame UNIV st ?st" "tree_ok st \<longrightarrow> tree_ok ?st"
        "lru_list (fst ?st) = take (?s - length ds) (lru_list (fst st))"
      using cache_reclaim_spec [OF inv sz, of "length ds"] False by auto
    have "update_loop allocs start ds 0 ?st = (ret, st')" using r False by (auto simp: cache_update_pool_def c Let_def)
    from update_loop_spec [OF R(1) fresh this] obtain oks where U: "length oks = length ds" "lru_view st' = lru_fill oks start ds (lru_view ?st)"
        "ret = update_ret oks 0" "cp_inv F H st'" "cp_frame (F \<union> set H) ?st st'" "tree_ok ?st \<and> False \<notin> set oks \<longrightarrow> tree_ok st'" by blast
    have v: "lru_view ?st = take (?s - length ds) (lru_view st)"
      using R(2,4) by (intro lru_view_frame [where g = "take (?s - length ds)"]) (simp_all add: take_map)
    have "length (lru_list (fst st')) = length (lru_view st')" by (simp add: lru_view_def)
    also have "\<dots> \<le> length (lru_view ?st) + length ds" unfolding U(2) by (rule length_lru_fill)
    also have "\<dots> \<le> ?s" using False unfolding v length_take min_def by auto
    finally have "length (lru_list (fst st')) \<le> ?s" .
    moreover have "cp_frame (F \<union> set H) st st'" using R(2) U(5) by (auto simp: cp_frame_def)
    ultimately show ?thesis using False U R(3) v by (intro if_not_P [THEN iffD2] exI [of _ oks]) auto
  qed
qed

subsection \<open>Finding\<close>

lemma filter_upt_snoc:
  "filter P [a..<b] = ks @ [k] \<Longrightarrow> ks = filter P [a..<k] \<and> P k \<and> a \<le> k \<and> k < b \<and> (\<forall>j. k < j \<and> j < b \<longrightarrow> \<not> P j)"
proof (induction b)
  case (Suc b)
  show ?case
  proof (cases "a \<le> b \<and> P b")
    case True
    then show ?thesis using Suc.prems by auto
  next
    case False
    then have "filter P [a..<b] = ks @ [k]" using Suc.prems by (simp split: if_splits)
    note ih = Suc.IH [OF this]
    then have "\<not> P b" using False by linarith
    then show ?thesis using ih by (simp add: less_Suc_eq) blast
  qed
qed simp

lemma length_filter_upt: "length (filter P [a..<b]) \<le> b - a"
  by (rule order_trans [OF length_filter_le]) simp

text \<open>
  The basket while the leaves are spread: the first \<open>n\<close> entries are still as the scan left them, the entries from
  \<open>off - start\<close> on are final, and there is nothing in between.
\<close>

definition basket_at :: "(nat \<rightharpoonup> nat) \<Rightarrow> nat \<Rightarrow> nat list \<Rightarrow> nat \<Rightarrow> nat \<Rightarrow> nat option list" where
  "basket_at M a ls off count =
     map (\<lambda>i. if i < length ls then Some (ls ! i) else if off \<le> a + i then M (a + i) else None) [0..<count]"

lemma basket_at_step:
  assumes "filter (\<lambda>k. M k \<noteq> None) [a..<off] = ks @ [k]" "off \<le> a + count" "ls = map (\<lambda>k. the (M k)) ks" "M k = Some l"
  shows "((basket_at M a (ls @ [l]) off count)[length ls := None])[k - a := Some l] = basket_at M a ls k count"
proof (rule nth_equalityI)
  note K = filter_upt_snoc [OF assms(1)]
  have len: "length ls \<le> k - a" "length ls < count" "k - a < count" "a \<le> k"
    using K length_filter_upt [of "\<lambda>k. M k \<noteq> None" a k] assms(2,3) by (auto simp: less_diff_conv2)
  fix i
  assume "i < length (((basket_at M a (ls @ [l]) off count)[length ls := None])[k - a := Some l])"
  then have i: "i < count" by (simp add: basket_at_def)
  consider "i = k - a" | "i \<noteq> k - a" "i < length ls" | "i \<noteq> k - a" "i \<ge> length ls" "k \<le> a + i" | "i \<noteq> k - a" "i \<ge> length ls" "\<not> k \<le> a + i" by linarith
  then show "((basket_at M a (ls @ [l]) off count)[length ls := None])[k - a := Some l] ! i = basket_at M a ls k count ! i"
  proof cases
    case 1
    then show ?thesis using len i assms(4) by (simp add: basket_at_def nth_append)
  next
    case 2
    then show ?thesis using len i by (simp add: basket_at_def nth_append)
  next
    case 3
    then have "i \<noteq> length ls" "\<not> off \<le> a + i \<Longrightarrow> M (a + i) = None" using len K by auto
    then show ?thesis using 3 len i by (auto simp: basket_at_def nth_append)
  next
    case 4
    then have "\<not> off \<le> a + i" using K by linarith
    then show ?thesis using 4 len i by (cases "i = length ls") (auto simp: basket_at_def nth_append)
  qed
qed (simp add: basket_at_def)

lemma hold_leaf:
  assumes inv: "cp_inv F H st" and l: "l \<in> set (lru_list (fst st))" and H: "Suc (length H) < 2 ^ 31"
  defines "st' \<equiv> ((fst st)\<lparr>lru_list := l # remove1 l (lru_list (fst st))\<rparr>, upd_leaf l (\<lambda>x. x\<lparr>flag_refcnt := flag_refcnt x + 1\<rparr>) (snd st))"
  shows "cp_inv F (l # H) st'" "cp_frame UNIV st st'" "tree (fst st') = tree (fst st)"
    "lru_list (fst st') = l # filter (\<lambda>x. x \<noteq> l) (lru_list (fst st))"
proof -
  show "cp_inv F (l # H) st'" using core_hold [OF cp_inv_core [OF inv] l H] inv by (simp add: cp_inv_def st'_def)
  show "cp_frame UNIV st st'" "tree (fst st') = tree (fst st)" by (auto simp: st'_def cp_frame_def upd_leaf_def)
  show "lru_list (fst st') = l # filter (\<lambda>x. x \<noteq> l) (lru_list (fst st))"
    using distinct_remove1_removeAll [OF cp_invD(1) [OF inv], of l] by (simp add: st'_def removeAll_filter_not_eq eq_commute)
qed

lemma find_loop_hits:
  assumes "cp_inv F H st" "rt_map (tree (fst st)) = M" "filter (\<lambda>k. M k \<noteq> None) [unat start..<unat off] = ks"
    and "unat off \<le> unat start + count" "length H + length ks < 2 ^ 31"
    and "find_loop (length ks) start off (basket_at M (unat start) (map (\<lambda>k. the (M k)) ks) (unat off) count) r st = (rret, basket, st')"
  shows "rret = r + int (length ks) \<and> basket = map (\<lambda>i. M (unat start + i)) [0..<count] \<and>
    cp_inv F (map (\<lambda>k. the (M k)) ks @ H) st' \<and> cp_frame UNIV st st' \<and> tree (fst st') = tree (fst st) \<and>
    lru_list (fst st') = map (\<lambda>k. the (M k)) ks @ filter (\<lambda>l. l \<notin> set (map (\<lambda>k. the (M k)) ks)) (lru_list (fst st))"
  using assms
proof (induction ks arbitrary: off st H r rule: rev_induct)
  case Nil
  have "M (unat start + i) = (if unat off \<le> unat start + i then M (unat start + i) else None)" for i
    using Nil.prems(3) by (auto simp: filter_empty_conv not_le)
  then have "basket_at M (unat start) [] (unat off) count = map (\<lambda>i. M (unat start + i)) [0..<count]" by (auto simp: basket_at_def)
  then show ?case using Nil.prems by simp
next
  case (snoc k ks)
  let ?ls = "map (\<lambda>k. the (M k)) ks" and ?a = "unat start"
  note K = filter_upt_snoc [OF snoc.prems(3)]
  then obtain l where l: "M k = Some l" by auto
  have lru: "l \<in> set (lru_list (fst st))" "unat (blkid (leaf_at (snd st) l)) = k"
    using cp_invD(4) [OF snoc.prems(1), of k l] l snoc.prems(2) by simp_all
  let ?j = "blkid (leaf_at (snd st) l)"
  have j: "start \<le> ?j" "?j < off" "unat (?j - start) = k - ?a"
    using K lru(2) by (simp_all add: word_le_nat_alt word_less_nat_alt unat_sub)
  have nd: "\<not> tree_leaf_is_delete (leaf_at (snd st) l)"
    using leaf_deleted [OF _ cp_invD(10) [OF snoc.prems(1), of l]] cp_invD(5) [OF snoc.prems(1), of l] lru(1) by auto
  define st1 where "st1 = ((fst st)\<lparr>lru_list := l # remove1 l (lru_list (fst st))\<rparr>, upd_leaf l (\<lambda>x. x\<lparr>flag_refcnt := flag_refcnt x + 1\<rparr>) (snd st))"
  have len: "Suc (length H) < 2 ^ 31" using snoc.prems(5) by simp
  note Ho = hold_leaf [OF snoc.prems(1) lru(1) len, folded st1_def]
  have k: "length ks < count" using K length_filter_upt [of "\<lambda>k. M k \<noteq> None" ?a k] snoc.prems(4) by auto
  then have b: "basket_at M ?a (?ls @ [l]) (unat off) count ! length ks = Some l" by (simp add: basket_at_def nth_append)
  have "find_loop (length ks) start ?j (basket_at M ?a ?ls (unat ?j) count) (r + 1) st1 = (rret, basket, st')"
    using snoc.prems(6) b j nd basket_at_step [OF snoc.prems(3,4) refl l] by (simp add: l lru(2) st1_def Let_def)
  from snoc.IH [OF Ho(1) _ _ _ _ this] have ih: "rret = r + 1 + int (length ks)" "basket = map (\<lambda>i. M (?a + i)) [0..<count]"
      "cp_inv F (?ls @ l # H) st'" "cp_frame UNIV st1 st'" "tree (fst st') = tree (fst st1)"
      "lru_list (fst st') = ?ls @ filter (\<lambda>x. x \<notin> set ?ls) (lru_list (fst st1))"
    using snoc.prems(2,4,5) K Ho(3) lru(2) by auto
  have "l \<notin> set ?ls"
  proof
    assume "l \<in> set ?ls"
    then obtain k' where k': "k' \<in> set ks" "the (M k') = l" by auto
    then have "k' < k" "M k' = Some l" using K by auto
    then show False using cp_invD(4) [OF snoc.prems(1), of k' l] lru(2) snoc.prems(2) by simp
  qed
  then have "lru_list (fst st') = (?ls @ [l]) @ filter (\<lambda>x. x \<notin> set (?ls @ [l])) (lru_list (fst st))"
    unfolding ih(6) Ho(4) by (auto intro: filter_cong)
  moreover have "cp_frame UNIV st st'" using Ho(2) ih(4) by (rule cp_frame_trans)
  ultimately show ?case using ih(1-3,5) Ho(3) by (simp add: l)
qed

lemma find_loop_misses:
  assumes "\<And>l. l \<in> set ls \<Longrightarrow> \<not> blkid (leaf_at (snd st) l) < off"
  shows "find_loop (length xs + length ls) start off (xs @ map Some ls @ replicate c None) r st =
    find_loop (length xs) start off (xs @ replicate (length ls + c) None) r st"
  using assms
proof (induction ls arbitrary: c rule: rev_induct)
  case (snoc l ls)
  have "(xs @ map Some (ls @ [l]) @ replicate c None) ! (length xs + length ls) = Some l" by (simp add: nth_append)
  moreover have "(xs @ map Some (ls @ [l]) @ replicate c None)[length xs + length ls := None] = xs @ map Some ls @ replicate (Suc c) None"
    by (simp add: list_update_append replicate_app_Cons_same)
  ultimately show ?case using snoc.IH [of "Suc c"] snoc.prems by (simp add: Let_def)
qed simp

lemma rt_range_keys:
  "l \<in> set (rt_range M a b) \<Longrightarrow> \<exists>k. a \<le> k \<and> k < b \<and> M k = Some l"
  by (auto simp: rt_range_def)

lemma length_rt_range: "length (rt_range M a b) \<le> b - a"
  by (simp add: rt_range_def length_filter_upt)

lemma stat_fields:
  "cp_inv F H (p\<lparr>m_hit := x, m_miss := y\<rparr>, mem) = cp_inv F H (p, mem)" "cp_frame ls st (p\<lparr>m_hit := x, m_miss := y\<rparr>, mem) = cp_frame ls st (p, mem)"
  by (simp_all add: cp_inv_def cp_core_def cp_frame_def)

text \<open>
  What \<^verbatim>\<open>cache_find\<close> returns and does: the leaf of every key of the range in its place in the basket, one reference for each of them, and
  the leaves found are now the most recently used ones.
\<close>

lemma cache_find_spec:
  fixes start :: u64
  assumes inv: "cp_inv F H st" "tree_ok st" and M: "rt_map (tree (fst st)) = M"
    and n: "unat start + count < 2 ^ 64" and H: "length H + count < 2 ^ 31"
  defines "hits \<equiv> rt_range M (unat start) (unat start + count)"
  shows "\<exists>st'. cache_find_pool start count st = Some (int (length hits), map (\<lambda>i. M (unat start + i)) [0..<count], st') \<and>
    cp_inv F (hits @ H) st' \<and> cp_frame UNIV st st' \<and> tree (fst st') = tree (fst st) \<and>
    lru_list (fst st') = hits @ filter (\<lambda>l. l \<notin> set hits) (lru_list (fst st))"
proof -
  let ?a = "unat start" and ?off = "start + of_nat count" and ?ks = "filter (\<lambda>k. M k \<noteq> None) [unat start..<unat start + count]"
  have off: "unat ?off = ?a + count"
  proof -
    have "unat (of_nat count :: u64) = count" using n by (simp add: unsigned_of_nat take_bit_nat_eq_self)
    then show ?thesis using n unat_add_lem [of start "of_nat count"] by simp
  qed
  define rest where "rest = take (count - length hits) (rt_range M (?a + count) (2 ^ 64))"
  have le: "length hits \<le> count" using length_rt_range [of M ?a "?a + count"] by (simp add: hits_def)
  have gang: "dms_radix_tree_gang_lookup (tree (fst st)) start count = Some (hits @ rest)"
    using gang_lookup_spec [of "tree (fst st)" start count] inv n le rt_range_append [of ?a "?a + count" "2 ^ 64" M]
    by (simp add: cp_inv_def tree_ok_def M rest_def hits_def)
  have hits: "hits = map (\<lambda>k. the (M k)) ?ks" by (simp add: hits_def rt_range_def)
  have nr: "\<not> blkid (leaf_at (snd st) l) < ?off" if l: "l \<in> set rest" for l
  proof -
    obtain k where "?a + count \<le> k" "M k = Some l" using l rt_range_keys [of l M "?a + count" "2 ^ 64"] by (auto simp: rest_def dest: in_set_takeD)
    then show ?thesis using cp_invD(4) [OF inv(1), of k l] M off by (simp add: word_less_nat_alt)
  qed
  have lr: "length (hits @ rest) \<le> count" using le by (simp add: rest_def)
  have b: "map Some hits @ replicate (count - length hits) None = basket_at M ?a (map (\<lambda>k. the (M k)) ?ks) (unat ?off) count"
    unfolding hits [symmetric] off using le by (intro nth_equalityI) (auto simp: basket_at_def nth_append)
  let ?B = "map Some (hits @ rest) @ replicate (count - length (hits @ rest)) None"
  have fl: "find_loop (length (hits @ rest)) start ?off ?B 0 st = find_loop (length ?ks) start ?off (basket_at M ?a (map (\<lambda>k. the (M k)) ?ks) (unat ?off) count) 0 st"
  proof -
    have "find_loop (length (map Some hits) + length rest) start ?off (map Some hits @ map Some rest @ replicate (count - length (hits @ rest)) None) 0 st =
        find_loop (length (map Some hits)) start ?off (map Some hits @ replicate (length rest + (count - length (hits @ rest))) None) 0 st"
      by (rule find_loop_misses) (rule nr)
    moreover have "length rest + (count - length (hits @ rest)) = count - length hits" using lr by simp
    ultimately show ?thesis unfolding b [symmetric] by (simp add: hits)
  qed
  obtain rret basket st' where f: "find_loop (length (hits @ rest)) start ?off ?B 0 st = (rret, basket, st')" by (metis prod_cases3)
  have "length H + length ?ks < 2 ^ 31" using H le by (simp add: hits)
  note Hi = find_loop_hits [OF inv(1) M, of start ?off, unfolded off, OF refl order_refl this f [unfolded fl off], folded hits]
  show ?thesis
  proof (cases "hits @ rest = []")
    case True
    then have "hits = []" by simp
    then have "M (?a + i) = None" if "i < count" for i using that by (auto simp: hits filter_empty_conv)
    then have "map (\<lambda>i. M (?a + i)) [0..<count] = replicate count None" by (auto simp: list_eq_iff_nth_eq)
    then show ?thesis using gang True inv(1) by (auto simp: cache_find_pool_def \<open>hits = []\<close>)
  next
    case False
    obtain p mem where st': "st' = (p, mem)" by (cases st')
    have rr: "rret = int (length hits)" using Hi by (simp add: hits)
    let ?st = "(p\<lparr>m_hit := m_hit p + of_nat (length (hits @ rest)), m_miss := m_miss p + of_nat (count - length (hits @ rest))\<rparr>, mem)"
    have "cache_find_pool start count st = Some (rret, basket, ?st)"
      using gang False f unfolding cache_find_pool_def st' by (simp add: Let_def)
    moreover have "cp_inv F (hits @ H) ?st \<and> cp_frame UNIV st ?st \<and> tree (fst ?st) = tree (fst st) \<and>
        lru_list (fst ?st) = hits @ filter (\<lambda>l. l \<notin> set hits) (lru_list (fst st))"
      using Hi unfolding st' stat_fields by simp
    ultimately show ?thesis using rr Hi by (intro exI [of _ ?st]) simp
  qed
qed

subsection \<open>Giving back\<close>

fun remove_all1 :: "nat list \<Rightarrow> nat list \<Rightarrow> nat list" where
  "remove_all1 [] H = H"
| "remove_all1 (l # ls) H = remove_all1 ls (remove1 l H)"

fun holds_all :: "nat list \<Rightarrow> nat list \<Rightarrow> bool" where
  "holds_all [] H \<longleftrightarrow> True"
| "holds_all (l # ls) H \<longleftrightarrow> l \<in> set H \<and> holds_all ls (remove1 l H)"

definition basket_leaves :: "nat option list \<Rightarrow> nat list" where
  "basket_leaves basket = map the (filter (\<lambda>x. x \<noteq> None) basket)"

lemma put_loop_spec:
  assumes "cp_inv F H (p, mem)" "holds_all (basket_leaves basket) H"
  shows "cp_inv F (remove_all1 (basket_leaves basket) H) (p, put_loop basket mem) \<and> cp_frame UNIV (p, mem) (p, put_loop basket mem)"
  using assms
proof (induction basket mem arbitrary: H rule: put_loop.induct)
  case (3 l basket mem)
  define mem1 where "mem1 = upd_leaf l (\<lambda>x. x\<lparr>flag_refcnt := flag_refcnt x - 1\<rparr>) mem"
  define mem2 where "mem2 = (if tree_leaf_is_delete (leaf_at mem1 l) \<and> \<not> tree_leaf_ref_count (leaf_at mem1 l) > 0 then release_tree_leaf l mem1 else mem1)"
  have h: "l \<in> set H" "holds_all (basket_leaves basket) (remove1 l H)" using "3.prems"(2) by (simp_all add: basket_leaves_def)
  have "cp_core F (remove1 l H) (rt_map (tree p)) p mem2"
    using core_unhold [OF cp_inv_core [OF "3.prems"(1), simplified] h(1)] unfolding mem1_def mem2_def by (simp only: fst_conv snd_conv)
  then have inv: "cp_inv F (remove1 l H) (p, mem2)" using "3.prems"(1) by (simp add: cp_inv_def)
  have fr: "cp_frame UNIV (p, mem) (p, mem2)" by (auto simp: cp_frame_def mem2_def mem1_def upd_leaf_def release_tree_leaf_def)
  have e: "put_loop (Some l # basket) mem = put_loop basket mem2" by (simp add: mem1_def mem2_def Let_def)
  have "cp_inv F (remove_all1 (basket_leaves basket) (remove1 l H)) (p, put_loop basket mem2) \<and> cp_frame UNIV (p, mem2) (p, put_loop basket mem2)"
    using "3.IH" inv h(2) by (auto simp: mem1_def [symmetric] mem2_def split: if_splits)
  then show ?case unfolding e using fr cp_frame_trans by (auto simp: basket_leaves_def)
qed (auto simp: basket_leaves_def)

end
