(* ===== verification/Cache_Props.thy ===== *)
theory Cache_Props
  imports Cache_Lru
begin

text \<open>
  What a pool of the metadata cache promises: for every interleaving of readers, updates, invalidations and kicks no reader ever
  looks at a freed or reused leaf, no leaf is leaked and the pool never holds more items than its size; and the pool is an LRU
  cache, operation by operation.
\<close>

subsection \<open>Interleavings of the operations\<close>

definition cache_pool_new :: "u64 \<Rightarrow> u64 \<Rightarrow> u32 \<Rightarrow> cache_pool_t" where
  "cache_pool_new v cap sz = \<lparr>volid = v, capacity = cap, cache_num = 0, cache_size = sz, tree = DMS_INIT_RADIX_TREE,
     lru_list = [], cp_ref_cnt = 0, m_hit = 0, m_miss = 0\<rparr>"

text \<open>
  \<open>G\<close> are the references of the readers: the leaf, and the key and item it had when it was found.  A reader gives its
  references back one by one, in any order.
\<close>

inductive cp_reach :: "cache_st \<Rightarrow> (nat \<times> u64 \<times> nat) list \<Rightarrow> bool" where
  start: "unat sz < 2 ^ 31 \<Longrightarrow> (\<And>l. \<not> leaf_live mem l) \<Longrightarrow> tree_leaf_cnt mem = 0 \<Longrightarrow> cp_reach (cache_pool_new v cap sz, mem) []"
| find: "cp_reach st G \<Longrightarrow> unat first + count < 2 ^ 64 \<Longrightarrow> length G + count < 2 ^ 31 \<Longrightarrow>
    cache_find_pool first count st = Some (r, basket, st') \<Longrightarrow>
    cp_reach st' (map (\<lambda>l. (l, blkid (leaf_at (snd st') l), leaf_data (leaf_at (snd st') l))) (basket_leaves basket) @ G)"
| put: "cp_reach (p, mem) (G @ (l, k, d) # G') \<Longrightarrow> cp_reach (p, put_loop [Some l] mem) (G @ G')"
| update: "cp_reach st G \<Longrightarrow> length ds < 2 ^ 32 \<Longrightarrow> allocs_fresh allocs first ds (cache_reclaim (of_nat (length ds)) st) \<Longrightarrow>
    cp_reach (snd (cache_update_pool allocs first ds st)) G"
| invalidate: "cp_reach st G \<Longrightarrow> cp_reach (invalidate_loop first count st) G"
| kick: "cp_reach st G \<Longrightarrow> cp_reach (snd (kick_meta_cache_pool c cmp st)) G"

definition cp_ok :: "cache_st \<Rightarrow> (nat \<times> u64 \<times> nat) list \<Rightarrow> bool" where
  "cp_ok st G \<longleftrightarrow> cp_inv {} (map fst G) st \<and> unat (cache_size (fst st)) < 2 ^ 31 \<and>
     length (lru_list (fst st)) \<le> unat (cache_size (fst st)) \<and>
     (\<forall>(l, k, d) \<in> set G. blkid (leaf_at (snd st) l) = k \<and> leaf_data (leaf_at (snd st) l) = d)"

lemma kick_any_spec:
  assumes "cp_inv F H st"
  shows "cp_inv F H (snd (kick_meta_cache_pool c cmp st)) \<and> cp_frame UNIV st (snd (kick_meta_cache_pool c cmp st)) \<and>
    set (lru_list (fst (snd (kick_meta_cache_pool c cmp st)))) \<subseteq> set (lru_list (fst st)) \<and>
    length (lru_list (fst (snd (kick_meta_cache_pool c cmp st)))) \<le> length (lru_list (fst st))"
proof -
  let ?xs = "rev (lru_list (fst st))"
  have "cp_inv F H st' \<and> cp_frame UNIV st st' \<and> set (lru_list (fst st')) \<subseteq> set (lru_list (fst st)) \<and>
      length (lru_list (fst st')) \<le> length (lru_list (fst st))"
    if "kick_loop cmp c tot ?xs 0 False st = (fl, st')" "c \<noteq> -1 \<longrightarrow> 0 < tot \<or> lru_list (fst st) = []" for tot fl st'
  proof (cases "lru_list (fst st) = []")
    case True
    then show ?thesis using that(1) assms by simp
  next
    case False
    then show ?thesis using kick_loop_spec [OF assms _ _ _ that(1)] that(2) cp_invD(1) [OF assms] by auto
  qed
  moreover obtain fl st' where "kick_meta_cache_pool c cmp st = (fl, st')" by (metis prod.exhaust)
  moreover have "0 < cache_num (fst st) \<or> lru_list (fst st) = []" using cp_invD(2) [OF assms] by auto
  ultimately show ?thesis using assms by (auto simp: kick_meta_cache_pool_def split: if_splits)
qed

lemma cp_ok_frame:
  assumes "cp_ok st G" "cp_inv {} (map fst G) st'" "cp_frame (set (map fst G)) st st'" "length (lru_list (fst st')) \<le> unat (cache_size (fst st))"
  shows "cp_ok st' G"
  using assms by (force simp: cp_ok_def cp_frame_def)

lemma cp_frame_UNIV: "cp_frame UNIV st st' \<Longrightarrow> cp_frame ls st st'"
  by (simp add: cp_frame_def)

text \<open>The order of the references does not matter.\<close>

lemma cp_inv_reorder:
  assumes "cp_inv F H st" "\<And>x. count_list H x = count_list H' x" "length H = length H'"
  shows "cp_inv F H' st"
proof -
  have "x \<in> set H \<longleftrightarrow> x \<in> set H'" for x
    using count_list_0_iff [of H x] count_list_0_iff [of H' x] unfolding assms(2) [of x] by argo
  then have "set H = set H'" by blast
  then show ?thesis using assms unfolding cp_inv_def cp_core_def by simp
qed

lemma count_list_remove1: "count_list (remove1 l H) x = (if x = l then count_list H x - 1 else count_list H x)"
  by (induction H) auto

lemma put_one:
  assumes "cp_inv F (H @ l # H') (p, mem)"
  shows "cp_inv F (H @ H') (p, put_loop [Some l] mem)"
proof -
  have "cp_inv F (remove1 l (H @ l # H')) (p, put_loop [Some l] mem)"
    using put_loop_spec [OF assms, of "[Some l]"] by (simp add: basket_leaves_def)
  then show ?thesis by (rule cp_inv_reorder) (auto simp: count_list_remove1 length_remove1)
qed

lemma basket_leaves_range: "basket_leaves (map (\<lambda>i. M (a + i)) [0..<n]) = rt_range M a (a + n)"
proof (induction n)
  case (Suc n)
  then show ?case by (auto simp: basket_leaves_def rt_range_def)
qed (simp add: basket_leaves_def)

lemma length_basket_leaves: "length (rt_range M a (a + n)) \<le> n"
  using length_rt_range [of M a "a + n"] by simp

lemma cache_find_inv:
  assumes inv: "cp_inv F H st" and n: "unat first + count < 2 ^ 64" "length H + count < 2 ^ 31"
    and f: "cache_find_pool first count st = Some (r, basket, st')"
  shows "cp_inv F (basket_leaves basket @ H) st' \<and> cp_frame UNIV st st' \<and> length (basket_leaves basket) \<le> count \<and>
    length (lru_list (fst st')) = length (lru_list (fst st))"
proof (cases "tree_ok st")
  case True
  let ?hits = "rt_range (rt_map (tree (fst st))) (unat first) (unat first + count)"
  from cache_find_spec [OF inv True refl n] f
  have b: "basket = map (\<lambda>i. rt_map (tree (fst st)) (unat first + i)) [0..<count]" and r: "cp_inv F (?hits @ H) st'"
      "cp_frame UNIV st st'" "lru_list (fst st') = ?hits @ filter (\<lambda>l. l \<notin> set ?hits) (lru_list (fst st))" by auto
  have "set ?hits \<subseteq> set (lru_list (fst st))" using rt_range_keys [of _ "rt_map (tree (fst st))"] cp_invD(4) [OF inv] by blast
  then have "set (lru_list (fst st')) = set (lru_list (fst st))" unfolding r(3) by auto
  then have "length (lru_list (fst st')) = length (lru_list (fst st))"
    using cp_invD(1) [OF inv] cp_invD(1) [OF r(1)] by (metis distinct_card)
  then show ?thesis unfolding b basket_leaves_range using r(1,2) length_basket_leaves by blast
next
  case False
  then have t: "rnode (tree (fst st)) = RNull" "0 < rt_height (tree (fst st))" by (auto simp: tree_ok_def)
  have "dms_radix_tree_gang_lookup (tree (fst st)) first count \<noteq> None" using f by (auto simp: cache_find_pool_def split: option.splits)
  then have "\<not> (unat first \<le> maxindex (rt_height (tree (fst st))) \<and> 0 < count)" using gang_lookup_null [OF t, of first count] by (cases "count = 0") auto
  then have "dms_radix_tree_gang_lookup (tree (fst st)) first count = Some []"
    by (auto simp: dms_radix_tree_gang_lookup_def gang_loop.simps)
  then have "basket = replicate count None" "st' = st" using f by (auto simp: cache_find_pool_def)
  then show ?thesis using inv by (simp add: basket_leaves_def)
qed

lemma cp_ok_find:
  assumes ok: "cp_ok st G" and n: "unat first + count < 2 ^ 64" "length G + count < 2 ^ 31"
    and f: "cache_find_pool first count st = Some (r, basket, st')"
  shows "cp_ok st' (map (\<lambda>l. (l, blkid (leaf_at (snd st') l), leaf_data (leaf_at (snd st') l))) (basket_leaves basket) @ G)"
  using cache_find_inv [of "{}" "map fst G" st, OF _ n(1) _ f] ok n(2) by (auto simp: cp_ok_def cp_frame_def comp_def)

lemma cp_reach_ok: "cp_reach st G \<Longrightarrow> cp_ok st G"
proof (induction rule: cp_reach.induct)
  case (start sz mem v cap)
  then show ?case by (simp add: cp_ok_def cp_inv_def cp_core_def cache_pool_new_def rt_inv_def DMS_INIT_RADIX_TREE_def rt_map_empty)
next
  case (find st G first count r basket st')
  then show ?case by (intro cp_ok_find)
next
  case (put p mem G l k d G')
  have inv: "cp_inv {} (map fst G @ l # map fst G') (p, mem)" using put.IH by (simp add: cp_ok_def)
  have "cp_frame UNIV (p, mem) (p, put_loop [Some l] mem)"
    using put_loop_spec [OF inv, of "[Some l]"] by (simp add: basket_leaves_def)
  then show ?case using put_one [OF inv] put.IH by (auto simp: cp_ok_def cp_frame_def)
next
  case (update st G ds allocs first)
  obtain ret st' where u: "cache_update_pool allocs first ds st = (ret, st')" by (metis prod.exhaust)
  have ok: "cp_inv {} (map fst G) st" "unat (cache_size (fst st)) < 2 ^ 31" "length (lru_list (fst st)) \<le> unat (cache_size (fst st))"
    using update.IH by (simp_all add: cp_ok_def)
  from cache_update_spec [OF ok update.hyps(2) u update.hyps(3)]
  show ?case using update.IH by (auto simp: u split: if_splits intro: cp_ok_frame)
next
  case (invalidate st G first count)
  have inv: "cp_inv {} (map fst G) st" using invalidate.IH by (simp add: cp_ok_def)
  note I = invalidate_loop_spec [OF inv, of first count]
  have "length (lru_view (invalidate_loop first count st)) \<le> length (lru_view st)" using I by simp
  then have "length (lru_list (fst (invalidate_loop first count st))) \<le> length (lru_list (fst st))" by (simp add: lru_view_def)
  then have "length (lru_list (fst (invalidate_loop first count st))) \<le> unat (cache_size (fst st))" using invalidate.IH by (simp add: cp_ok_def)
  with I show ?case by (blast intro: cp_ok_frame [OF invalidate.IH] cp_frame_UNIV)
next
  case (kick st G c cmp)
  have inv: "cp_inv {} (map fst G) st" using kick.IH by (simp add: cp_ok_def)
  note K = kick_any_spec [OF inv, of c cmp]
  then have "length (lru_list (fst (snd (kick_meta_cache_pool c cmp st)))) \<le> unat (cache_size (fst st))"
    using kick.IH by (simp add: cp_ok_def)
  with K show ?case by (blast intro: cp_ok_frame [OF kick.IH] cp_frame_UNIV)
qed

text \<open>
  (C7) No use after free, no leak.  In every state of a pool that readers, updates, invalidations and kicks can reach in any order:
  a leaf that a reader holds is allocated and still has the key and the item it had when it was found, also when it has left the
  cache since; a leaf is allocated exactly when it is cached or held, and \<^verbatim>\<open>tree_leaf_cnt\<close> counts the allocated leaves; tree and
  list hold the same leaves; \<^verbatim>\<open>cache_num\<close> is their number and never exceeds the size of the pool.
\<close>

theorem cache_no_use_after_free:
  assumes "cp_reach st G"
  shows "(\<forall>(l, k, d) \<in> set G. leaf_live (snd st) l \<and> blkid (leaf_at (snd st) l) = k \<and> leaf_data (leaf_at (snd st) l) = d) \<and>
    {l. leaf_live (snd st) l} = set (lru_list (fst st)) \<union> fst ` set G \<and>
    tree_leaf_cnt (snd st) = int (card {l. leaf_live (snd st) l}) \<and>
    (\<forall>k l. rt_map (tree (fst st)) k = Some l \<longleftrightarrow> l \<in> set (lru_list (fst st)) \<and> unat (blkid (leaf_at (snd st) l)) = k) \<and>
    cache_num (fst st) = int (length (lru_list (fst st))) \<and> length (lru_list (fst st)) \<le> unat (cache_size (fst st))"
proof -
  have ok: "cp_ok st G" by (rule cp_reach_ok [OF assms])
  then have inv: "cp_inv {} (map fst G) st" by (simp add: cp_ok_def)
  note D = cp_invD [OF inv]
  have live: "{l. leaf_live (snd st) l} = set (lru_list (fst st)) \<union> fst ` set G" using D(8) by auto
  moreover have "tree_leaf_cnt (snd st) = int (card {l. leaf_live (snd st) l})" unfolding live using D(9) by simp
  moreover have "\<forall>(l, k, d) \<in> set G. leaf_live (snd st) l \<and> blkid (leaf_at (snd st) l) = k \<and> leaf_data (leaf_at (snd st) l) = d"
    using ok D(8) by (force simp: cp_ok_def)
  ultimately show ?thesis using D(2,4) ok by (simp add: cp_ok_def)
qed

definition cache_mem0 :: cache_mem where
  "cache_mem0 = \<lparr>leaf_at = \<lambda>_. \<lparr>leaf_data = 0, blkid = 0, flag_refcnt = 0\<rparr>, leaf_live = \<lambda>_. False, tree_leaf_cnt = 0, citem_freed = [],
     node_mem = \<lparr>kmem_ok = \<lambda>_. True, kmem_calls = 0, dms_node_count = 0\<rparr>\<rparr>"

definition cache_sample :: cache_st where
  "cache_sample = snd (cache_update_pool [Some 7] 0 [100] (cache_pool_new 1 40960 10, cache_mem0))"

definition cache_sample_found :: cache_st where
  "cache_sample_found = snd (snd (the (cache_find_pool 0 1 cache_sample)))"

lemmas cache_eval = cache_update_pool_def cache_reclaim_def kick_meta_cache_pool_def update_one_def cache_find_pool_def
  dms_radix_tree_insert_def dms_radix_tree_gang_lookup_def gang_loop.simps lookup_def cache_pool_new_def cache_mem0_def
  DMS_INIT_RADIX_TREE_def maxindex_small upd_leaf_def tree_leaf_is_delete_def Let_def

lemma cache_sample_eq: "cache_sample = (\<lparr>volid = 1, capacity = 40960, cache_num = 1, cache_size = 10, tree = \<lparr>rt_height = 0, rnode = RItem 7\<rparr>,
     lru_list = [7], cp_ref_cnt = 0, m_hit = 0, m_miss = 0\<rparr>,
   cache_mem0\<lparr>leaf_at := (leaf_at cache_mem0)(7 := \<lparr>leaf_data = 100, blkid = 0, flag_refcnt = 0\<rparr>), leaf_live := (\<lambda>_. False)(7 := True), tree_leaf_cnt := 1\<rparr>)"
  unfolding cache_sample_def by (simp add: cache_eval)

lemma cache_sample_reach: "cp_reach cache_sample []"
  unfolding cache_sample_def
  by (rule cp_reach.update [OF cp_reach.start]) (simp_all add: cache_eval)

lemma cache_sample_find:
  "cache_find_pool 0 1 cache_sample = Some (1, [Some 7], cache_sample_found)"
  "basket_leaves [Some 7] = [7]" "blkid (leaf_at (snd cache_sample_found) 7) = 0" "leaf_data (leaf_at (snd cache_sample_found) 7) = 100"
  unfolding cache_sample_found_def cache_sample_eq by (simp_all add: cache_eval basket_leaves_def)

theorem cache_no_use_after_free_witness:
  "leaf_live (snd (snd (kick_meta_cache_pool (-1) None cache_sample_found))) 7 \<and>
   leaf_data (leaf_at (snd (snd (kick_meta_cache_pool (-1) None cache_sample_found))) 7) = 100"
proof -
  have "cp_reach cache_sample_found [(7, 0, 100)]"
    using cp_reach.find [OF cache_sample_reach _ _ cache_sample_find(1)] by (simp add: cache_sample_find)
  from cache_no_use_after_free [OF cp_reach.kick [OF this, of "-1" None]] show ?thesis by simp
qed

subsection \<open>The pool is an LRU cache\<close>

text \<open>
  The specification works on the list of keys and items, most recently used first: a lookup moves the keys it finds to the front, in
  their order; an update first forgets the least recently used items that do not fit any more, then puts its items in front.
\<close>

definition lru_keys :: "u64 \<Rightarrow> nat \<Rightarrow> u64 list" where
  "lru_keys first n = map (\<lambda>i. first + of_nat i) [0..<n]"

definition lru_hits :: "u64 \<Rightarrow> nat \<Rightarrow> (u64 \<times> nat) list \<Rightarrow> u64 list" where
  "lru_hits first n L = filter (\<lambda>k. map_of L k \<noteq> None) (lru_keys first n)"

definition lru_touch :: "u64 \<Rightarrow> nat \<Rightarrow> (u64 \<times> nat) list \<Rightarrow> (u64 \<times> nat) list" where
  "lru_touch first n L = map (\<lambda>k. (k, the (map_of L k))) (lru_hits first n L) @ filter (\<lambda>e. fst e \<notin> set (lru_hits first n L)) L"

definition leaf_item :: "cache_mem \<Rightarrow> nat \<Rightarrow> u64 \<times> nat" where
  "leaf_item mem l = (blkid (leaf_at mem l), leaf_data (leaf_at mem l))"

lemma lru_view_item: "lru_view st = map (leaf_item (snd st)) (lru_list (fst st))"
  by (simp add: lru_view_def leaf_item_def)

lemma blkid_inj:
  assumes "cp_inv F H st" "x \<in> set (lru_list (fst st))" "y \<in> set (lru_list (fst st))" "blkid (leaf_at (snd st) x) = blkid (leaf_at (snd st) y)"
  shows "x = y"
proof -
  have "rt_map (tree (fst st)) (unat (blkid (leaf_at (snd st) x))) = Some x" "rt_map (tree (fst st)) (unat (blkid (leaf_at (snd st) x))) = Some y"
    using cp_invD(4) [OF assms(1)] assms(2-4) by simp_all
  then show ?thesis by simp
qed

lemma map_of_lru_view:
  assumes "cp_inv F H st"
  shows "map_of (lru_view st) k = map_option (\<lambda>l. leaf_data (leaf_at (snd st) l)) (rt_map (tree (fst st)) (unat k))"
proof (cases "rt_map (tree (fst st)) (unat k)")
  case None
  then have "blkid (leaf_at (snd st) l) \<noteq> k" if "l \<in> set (lru_list (fst st))" for l using cp_invD(4) [OF assms, of "unat k" l] that by auto
  then have "k \<notin> fst ` set (lru_view st)" unfolding lru_view_def by fastforce
  then have "map_of (lru_view st) k = None" by (simp add: map_of_eq_None_iff)
  then show ?thesis using None by simp
next
  case (Some l)
  then have l: "l \<in> set (lru_list (fst st))" "blkid (leaf_at (snd st) l) = k"
    using cp_invD(4) [OF assms, of "unat k" l] by (simp_all add: unat_key_eq)
  have "distinct (map fst (lru_view st))"
  proof -
    have "inj_on (\<lambda>l. blkid (leaf_at (snd st) l)) (set (lru_list (fst st)))"
      by (rule inj_onI) (rule blkid_inj [OF assms])
    then show ?thesis using cp_invD(1) [OF assms] by (simp add: lru_view_def comp_def distinct_map)
  qed
  moreover have "(k, leaf_data (leaf_at (snd st) l)) \<in> set (lru_view st)" using l by (auto simp: lru_view_def)
  ultimately have "map_of (lru_view st) k = Some (leaf_data (leaf_at (snd st) l))" by (rule map_of_is_SomeI)
  then show ?thesis using Some by simp
qed

lemma unat_add_small:
  fixes first :: u64
  assumes "unat first + i < 2 ^ 64"
  shows "unat (first + of_nat i) = unat first + i"
proof -
  have "unat (of_nat i :: u64) = i" using assms by (simp add: unsigned_of_nat take_bit_nat_eq_self)
  then show ?thesis using assms unat_add_lem [of first "of_nat i"] by simp
qed

lemma find_is_lru:
  assumes inv: "cp_inv F H st" "tree_ok st" and n: "unat first + count < 2 ^ 64" "length H + count < 2 ^ 31"
  shows "\<exists>basket st'. cache_find_pool first count st = Some (int (length (lru_hits first count (lru_view st))), basket, st') \<and>
    map (map_option (\<lambda>l. leaf_data (leaf_at (snd st') l))) basket = map (map_of (lru_view st)) (lru_keys first count) \<and>
    lru_view st' = lru_touch first count (lru_view st)"
proof -
  let ?M = "rt_map (tree (fst st))" and ?a = "unat first" and ?L = "lru_view st"
  let ?hits = "rt_range ?M ?a (?a + count)"
  obtain st' where f0: "cache_find_pool first count st = Some (int (length ?hits), map (\<lambda>i. ?M (?a + i)) [0..<count], st') \<and>
      cp_inv F (?hits @ H) st' \<and> cp_frame UNIV st st' \<and> tree (fst st') = tree (fst st) \<and>
      lru_list (fst st') = ?hits @ filter (\<lambda>l. l \<notin> set ?hits) (lru_list (fst st))"
    using cache_find_spec [OF inv refl n] by (rule exE)
  note f = conjunct1 [OF f0] conjunct1 [OF conjunct2 [OF conjunct2 [OF f0]]] conjunct2 [OF conjunct2 [OF conjunct2 [OF conjunct2 [OF f0]]]]
  note mo = map_of_lru_view [OF inv(1)]
  have u: "unat (first + of_nat i) = ?a + i" if "i < count" for i using that n(1) by (intro unat_add_small) simp
  have up: "[?a..<?a + count] = map (\<lambda>i. ?a + i) [0..<count]" using map_add_upt [of ?a count] by (simp add: add.commute)
  have item: "leaf_item (snd st) (the (?M (unat k))) = (k, the (map_of ?L k))" if "map_of ?L k \<noteq> None" for k
  proof -
    obtain l where l: "?M (unat k) = Some l" using \<open>map_of ?L k \<noteq> None\<close> by (auto simp: mo)
    then show ?thesis using cp_invD(4) [OF inv(1), of "unat k" l] by (simp add: mo leaf_item_def unat_key_eq)
  qed
  have hits: "map (leaf_item (snd st)) ?hits = map (\<lambda>k. (k, the (map_of ?L k))) (lru_hits first count ?L)"
  proof -
    have fe: "filter (\<lambda>k. ?M k \<noteq> None) [?a..<?a + count] = map unat (lru_hits first count ?L)"
      unfolding up lru_hits_def lru_keys_def filter_map using u by (auto simp: comp_def mo intro!: map_cong filter_cong)
    then show ?thesis unfolding rt_range_def fe using item by (auto simp: lru_hits_def)
  qed
  have len: "length ?hits = length (lru_hits first count ?L)" using arg_cong [OF hits, of length] by simp
  have sub: "set ?hits \<subseteq> set (lru_list (fst st))"
  proof
    fix l
    assume "l \<in> set ?hits"
    then obtain k where "?M k = Some l" using rt_range_keys [of l ?M] by blast
    then show "l \<in> set (lru_list (fst st))" using cp_invD(4) [OF inv(1), of k l] by simp
  qed
  have mem: "l \<in> set ?hits \<longleftrightarrow> blkid (leaf_at (snd st) l) \<in> set (lru_hits first count ?L)" if l: "l \<in> set (lru_list (fst st))" for l
  proof
    assume "l \<in> set ?hits"
    then have "leaf_item (snd st) l \<in> set (map (leaf_item (snd st)) ?hits)" by simp
    then show "blkid (leaf_at (snd st) l) \<in> set (lru_hits first count ?L)" unfolding hits by (auto simp: leaf_item_def)
  next
    assume "blkid (leaf_at (snd st) l) \<in> set (lru_hits first count ?L)"
    then have "blkid (leaf_at (snd st) l) \<in> (\<lambda>l. blkid (leaf_at (snd st) l)) ` set ?hits"
      using arg_cong [OF hits, of "\<lambda>xs. fst ` set xs"] by (simp add: image_image leaf_item_def)
    then obtain l' where "blkid (leaf_at (snd st) l) = blkid (leaf_at (snd st) l')" "l' \<in> set ?hits" by (rule imageE)
    moreover have "l' = l" using calculation sub l by (intro blkid_inj [OF inv(1)]) auto
    ultimately show "l \<in> set ?hits" by simp
  qed
  have fr: "leaf_item (snd st') = leaf_item (snd st)" using f(2) by (simp add: cp_frame_def leaf_item_def fun_eq_iff)
  have "lru_view st' = lru_touch first count ?L"
    unfolding lru_view_item [of st'] fr f(3) lru_touch_def map_append hits
    using mem by (auto simp: lru_view_item filter_map comp_def leaf_item_def intro!: map_cong filter_cong)
  moreover have "map (map_option (\<lambda>l. leaf_data (leaf_at (snd st') l))) (map (\<lambda>i. ?M (?a + i)) [0..<count]) = map (map_of ?L) (lru_keys first count)"
    using f(2) u by (auto simp: lru_keys_def mo cp_frame_def)
  ultimately show ?thesis using f(1) len by (intro exI conjI) auto
qed



text \<open>
  The hit counter counts every leaf of the scan, also those beyond the range that was asked for: a lookup that finds nothing can
  count a hit.
\<close>

lemma miss_counted_as_hit:
  "\<exists>st. cache_find_pool 0 1 (\<lparr>volid = 1, capacity = 40960, cache_num = 1, cache_size = 10, tree = \<lparr>rt_height = 1,
       rnode = RNode 1 ((replicate 64 RNull)[1 := RItem 7])\<rparr>, lru_list = [7], cp_ref_cnt = 0, m_hit = 0, m_miss = 0\<rparr>,
     cache_mem0\<lparr>leaf_at := (leaf_at cache_mem0)(7 := \<lparr>leaf_data = 100, blkid = 1, flag_refcnt = 0\<rparr>)\<rparr>) = Some (0, [None], st) \<and> m_hit (fst st) = 1"
  by (simp add: cache_eval lookup_bottom.simps [of _ 0] lookup_bottom.simps [of _ "Suc 0"])

end
