(* ===== verification/Cache_Mgr.thy ===== *)
theory Cache_Mgr
  imports Cache_Props
begin

text \<open>
  The manager of the metadata cache in \<^verbatim>\<open>common/cache.c\<close>: a hash table of pools, one for each volume, with a reference count in
  every pool; the operations that find a pool by its volume, work on it and give it back; and the distribution of the cache items
  over the pools.  A pool is a pointer (a number) into a store of pools, the leaves of all pools share one store.  The table lock
  and the tree lock of a pool make a look at the table and an operation on a pool atomic.
\<close>

subsection \<open>The manager and its table\<close>

definition CACHE_POOL_HSIZE :: nat where
  "CACHE_POOL_HSIZE = 257"

definition MAX_FREE_VOL_RETRY :: nat where
  "MAX_FREE_VOL_RETRY = 30"

record cpool_manager_t =
  cpool_tbl :: "nat list list"
  cpool_at :: "nat \<Rightarrow> cache_pool_t"
  cpool_live :: "nat \<Rightarrow> bool"
  cpool_mem :: cache_mem

record dmsc_cache_config =
  max_meta_cache_sizes :: u64
  max_cap_cache_all_hit :: u64

definition cpool_hash :: "u64 \<Rightarrow> nat" where
  "cpool_hash vid = unat vid mod CACHE_POOL_HSIZE"

definition upd_cpool :: "nat \<Rightarrow> (cache_pool_t \<Rightarrow> cache_pool_t) \<Rightarrow> cpool_manager_t \<Rightarrow> cpool_manager_t" where
  "upd_cpool v f M = M\<lparr>cpool_at := (cpool_at M)(v := f (cpool_at M v))\<rparr>"

definition cpool_inc :: "nat \<Rightarrow> cpool_manager_t \<Rightarrow> cpool_manager_t" where
  "cpool_inc v M = upd_cpool v (\<lambda>p. p\<lparr>cp_ref_cnt := cp_ref_cnt p + 1\<rparr>) M"

definition cpool_dec :: "nat \<Rightarrow> cpool_manager_t \<Rightarrow> cpool_manager_t" where
  "cpool_dec v M = upd_cpool v (\<lambda>p. p\<lparr>cp_ref_cnt := cp_ref_cnt p - 1\<rparr>) M"

text \<open>An operation on a pool, under its tree lock.\<close>

definition on_cpool :: "nat \<Rightarrow> (cache_st \<Rightarrow> 'r \<times> cache_st) \<Rightarrow> cpool_manager_t \<Rightarrow> 'r \<times> cpool_manager_t" where
  "on_cpool v f M =
     (let (r, p, mem) = f (cpool_at M v, cpool_mem M)
      in (r, M\<lparr>cpool_at := (cpool_at M)(v := p), cpool_mem := mem\<rparr>))"

definition find_cache_pool_nolock :: "u64 \<Rightarrow> nat list \<Rightarrow> cpool_manager_t \<Rightarrow> nat option \<times> cpool_manager_t" where
  "find_cache_pool_nolock vid head M =
     (case find (\<lambda>v. volid (cpool_at M v) = vid) head of
        None \<Rightarrow> (None, M)
      | Some v \<Rightarrow> (Some v, cpool_inc v M))"

definition find_cache_pool :: "u64 \<Rightarrow> cpool_manager_t \<Rightarrow> nat option \<times> cpool_manager_t" where
  "find_cache_pool vid M = find_cache_pool_nolock vid (cpool_tbl M ! cpool_hash vid) M"

subsection \<open>Kicking and invalidating\<close>

text \<open>
  The retry loop of \<^verbatim>\<open>kick_meta_cache\<close>, \<^verbatim>\<open>_cache_kick_allpool\<close> and \<^verbatim>\<open>_rm_all_cache_pool_tbl\<close>: \<open>ret\<close> says that a reader held a
  leaf, and the retry kicks every leaf of the pool.
\<close>

fun kick_retry :: "nat \<Rightarrow> bool \<Rightarrow> nat \<Rightarrow> cpool_manager_t \<Rightarrow> cpool_manager_t" where
  "kick_retry 0 ret v M = M"
| "kick_retry (Suc j) ret v M =
     (if \<not> ret then M
      else (let (ret', M') = on_cpool v (kick_meta_cache_pool (-1) None) M in kick_retry j ret' v M'))"

fun kick_allpool_loop :: "(nat \<Rightarrow> bool) option \<Rightarrow> nat list \<Rightarrow> cpool_manager_t \<Rightarrow> cpool_manager_t" where
  "kick_allpool_loop cmp [] M = M"
| "kick_allpool_loop cmp (v # vs) M =
     (let (ret, M1) = on_cpool v (kick_meta_cache_pool (-1) cmp) (cpool_inc v M)
      in kick_allpool_loop cmp vs (cpool_dec v (kick_retry MAX_FREE_VOL_RETRY ret v M1)))"

definition cache_kick_allpool :: "(nat \<Rightarrow> bool) option \<Rightarrow> cpool_manager_t \<Rightarrow> cpool_manager_t" where
  "cache_kick_allpool cmp M = kick_allpool_loop cmp (concat (cpool_tbl M)) M"

definition kick_meta_cache :: "u64 \<Rightarrow> int \<Rightarrow> (nat \<Rightarrow> bool) option \<Rightarrow> cpool_manager_t \<Rightarrow> cpool_manager_t" where
  "kick_meta_cache vid count cmp M =
     (if vid = -1 then cache_kick_allpool cmp M
      else case find_cache_pool vid M of
             (None, M1) \<Rightarrow> M1
           | (Some v, M1) \<Rightarrow>
               (let (ret, M2) = on_cpool v (kick_meta_cache_pool count cmp) M1
                in cpool_dec v (kick_retry MAX_FREE_VOL_RETRY ret v M2)))"

definition cache_invalidate_volLB :: "u64 \<Rightarrow> u64 \<Rightarrow> u32 \<Rightarrow> cpool_manager_t \<Rightarrow> cpool_manager_t" where
  "cache_invalidate_volLB vid start count M =
     (case find_cache_pool vid M of
        (None, M1) \<Rightarrow> M1
      | (Some v, M1) \<Rightarrow> cpool_dec v (snd (on_cpool v (\<lambda>st. ((), invalidate_loop start (unat count) st)) M1)))"

datatype cache_inval_op_t = INVAL_CACHE_LB | INVAL_CACHE_VOLID | INVAL_CACHE_COND_CHK | INVAL_CACHE_HB

definition cache_invalidate ::
  "cache_inval_op_t \<Rightarrow> u64 \<Rightarrow> u64 \<Rightarrow> u32 \<Rightarrow> (nat \<Rightarrow> bool) option \<Rightarrow> cpool_manager_t \<Rightarrow> int \<times> cpool_manager_t" where
  "cache_invalidate type vid start count cmp M =
     (case type of
        INVAL_CACHE_LB \<Rightarrow> (0, cache_invalidate_volLB vid start count M)
      | INVAL_CACHE_VOLID \<Rightarrow> (0, kick_meta_cache vid (-1) None M)
      | INVAL_CACHE_COND_CHK \<Rightarrow> (0, if cmp \<noteq> None then kick_meta_cache (-1) (-1) cmp M else M)
      | INVAL_CACHE_HB \<Rightarrow> (0, M))"

subsection \<open>Finding, giving back and updating\<close>

text \<open>
  \<open>None\<close> is the dereference of \<^verbatim>\<open>NULL\<close> in the scan of the tree.  When there is no pool, the array of the caller stays as it is.
\<close>

definition cache_find :: "u64 \<Rightarrow> u64 \<Rightarrow> u32 \<Rightarrow> nat option list \<Rightarrow> cpool_manager_t \<Rightarrow> (int \<times> nat option list \<times> cpool_manager_t) option" where
  "cache_find vid start count basket M =
     (case find_cache_pool vid M of
        (None, M1) \<Rightarrow> Some (- ENOENT, basket, M1)
      | (Some v, M1) \<Rightarrow>
          (case cache_find_pool start (unat count) (cpool_at M1 v, cpool_mem M1) of
             None \<Rightarrow> None
           | Some (rret, found, p, mem) \<Rightarrow>
               Some (rret, found, cpool_dec v (M1\<lparr>cpool_at := (cpool_at M1)(v := p), cpool_mem := mem\<rparr>))))"

definition cache_put :: "u64 \<Rightarrow> nat option list \<Rightarrow> cpool_manager_t \<Rightarrow> int \<times> cpool_manager_t" where
  "cache_put vid basket M =
     (case find_cache_pool vid M of
        (None, M1) \<Rightarrow> (- ENOENT, M1)
      | (Some v, M1) \<Rightarrow> (0, cpool_dec v (snd (on_cpool v (\<lambda>(p, mem). ((), p, put_loop basket mem)) M1))))"

definition cache_update :: "nat option list \<Rightarrow> u64 \<Rightarrow> u64 \<Rightarrow> nat list \<Rightarrow> cpool_manager_t \<Rightarrow> int \<times> cpool_manager_t" where
  "cache_update allocs vid start basket M =
     (case find_cache_pool vid M of
        (None, M1) \<Rightarrow> (- ENOENT, M1)
      | (Some v, M1) \<Rightarrow>
          (let (ret, M2) = on_cpool v (cache_update_pool allocs start basket) M1 in (ret, cpool_dec v M2)))"

subsection \<open>Sharing out the cache items\<close>

text \<open>
  The quantities of \<^verbatim>\<open>int64_t\<close> and \<^verbatim>\<open>int32_t\<close> are words read with \<^const>\<open>sint\<close>; a comparison of an unsigned with a signed quantity
  of the same width is unsigned, as in C.
\<close>

definition vol_blocks :: "cache_pool_t \<Rightarrow> u64" where
  "vol_blocks p = drop_bit BIT_LEN_DMS_LB_SIZE (capacity p)"

definition shrink_smallVol :: "cache_st \<Rightarrow> unit \<times> cache_st" where
  "shrink_smallVol st =
     ((), let n = of_int (cache_num (fst st)) :: u32
          in if n > cache_size (fst st)
             then snd (kick_meta_cache_pool (sint (n - cache_size (fst st))) None st) else st)"

text \<open>A new size for a pool of the table, with the leaves beyond it kicked out.\<close>

definition resize_cpool :: "nat \<Rightarrow> u32 \<Rightarrow> (cache_st \<Rightarrow> unit \<times> cache_st) \<Rightarrow> cpool_manager_t \<Rightarrow> cpool_manager_t" where
  "resize_cpool v sz shrink M =
     cpool_dec v (snd (on_cpool v shrink (upd_cpool v (\<lambda>p. p\<lparr>cache_size := sz\<rparr>) (cpool_inc v M))))"

definition smallVol_size :: "u64 \<Rightarrow> cache_pool_t \<Rightarrow> u32 \<times> u64" where
  "smallVol_size cache_left p =
     (if sint cache_left \<ge> uint (cache_size p)
      then (let sz = ucast (vol_blocks p) in (sz, cache_left - ucast sz))
      else (ucast cache_left, 0))"

fun alloc_smallVol_loop :: "u64 \<Rightarrow> nat list \<Rightarrow> u64 \<Rightarrow> u64 \<Rightarrow> cpool_manager_t \<Rightarrow> u64 \<times> u64 \<times> cpool_manager_t" where
  "alloc_smallVol_loop small [] cache_left tot_need M = (cache_left, tot_need, M)"
| "alloc_smallVol_loop small (v # vs) cache_left tot_need M =
     (if capacity (cpool_at M v) > small
      then alloc_smallVol_loop small vs cache_left (tot_need + vol_blocks (cpool_at M v)) (cpool_dec v (cpool_inc v M))
      else (case smallVol_size cache_left (cpool_at M v) of
              (sz, left') \<Rightarrow> alloc_smallVol_loop small vs left' tot_need (resize_cpool v sz shrink_smallVol M)))"

definition alloc_cachePoolSize_smallVol :: "u64 \<Rightarrow> u64 \<Rightarrow> cpool_manager_t \<Rightarrow> u64 \<times> u64 \<times> cpool_manager_t" where
  "alloc_cachePoolSize_smallVol max_citems small_volSize M =
     alloc_smallVol_loop small_volSize (concat (cpool_tbl M)) max_citems 0 M"

definition shrink_largeVol :: "u32 \<Rightarrow> cache_st \<Rightarrow> unit \<times> cache_st" where
  "shrink_largeVol cached_need st =
     ((), if cache_num (fst st) > sint cached_need
          then snd (kick_meta_cache_pool (cache_num (fst st) - sint cached_need) None st) else st)"

definition largeVol_size :: "u64 \<Rightarrow> u64 \<Rightarrow> u32 \<Rightarrow> cache_pool_t \<Rightarrow> u32 \<times> u32" where
  "largeVol_size max_citems tot_need cache_left p =
     (let share = (if sint max_citems \<ge> sint tot_need then ucast (vol_blocks p)
                   else ucast ((max_citems * vol_blocks p) div tot_need))
      in if sint cache_left \<ge> sint share then (share, cache_left - share) else (cache_left, 0))"

fun alloc_largeVol_loop :: "u64 \<Rightarrow> u64 \<Rightarrow> u64 \<Rightarrow> nat list \<Rightarrow> u32 \<Rightarrow> cpool_manager_t \<Rightarrow> cpool_manager_t" where
  "alloc_largeVol_loop max_citems small tot_need [] cache_left M = M"
| "alloc_largeVol_loop max_citems small tot_need (v # vs) cache_left M =
     (if capacity (cpool_at M v) \<le> small
      then alloc_largeVol_loop max_citems small tot_need vs cache_left (cpool_dec v (cpool_inc v M))
      else (case largeVol_size max_citems tot_need cache_left (cpool_at M v) of
              (cached_need, left') \<Rightarrow>
                alloc_largeVol_loop max_citems small tot_need vs left' (resize_cpool v cached_need (shrink_largeVol cached_need) M)))"

definition alloc_cachePoolSize_largeVol :: "u64 \<Rightarrow> u64 \<Rightarrow> u64 \<Rightarrow> cpool_manager_t \<Rightarrow> cpool_manager_t" where
  "alloc_cachePoolSize_largeVol max_citems small_volSize tot_need M =
     alloc_largeVol_loop max_citems small_volSize tot_need (concat (cpool_tbl M)) (ucast max_citems) M"

definition update_cache_pool_size :: "dmsc_cache_config \<Rightarrow> cpool_manager_t \<Rightarrow> cpool_manager_t" where
  "update_cache_pool_size cfg M =
     (let (cache_left, tot_need, M1) = alloc_cachePoolSize_smallVol (max_meta_cache_sizes cfg) (max_cap_cache_all_hit cfg) M
      in alloc_cachePoolSize_largeVol cache_left (max_cap_cache_all_hit cfg) tot_need M1)"

subsection \<open>Pools come and go\<close>

definition add_to_tbl :: "nat \<Rightarrow> cpool_manager_t \<Rightarrow> int \<times> cpool_manager_t" where
  "add_to_tbl v M =
     (let h = cpool_hash (volid (cpool_at M v))
      in case find_cache_pool_nolock (volid (cpool_at M v)) (cpool_tbl M ! h) M of
           (None, M1) \<Rightarrow> (0, M1\<lparr>cpool_tbl := (cpool_tbl M1)[h := v # cpool_tbl M1 ! h]\<rparr>)
         | (Some _, M1) \<Rightarrow> (- EEXIST, M1))"

definition add_cache_pool_tbl :: "dmsc_cache_config \<Rightarrow> nat \<Rightarrow> cpool_manager_t \<Rightarrow> int \<times> cpool_manager_t" where
  "add_cache_pool_tbl cfg v M = (let (ret, M1) = add_to_tbl v M in (ret, update_cache_pool_size cfg M1))"

definition hlist_del :: "nat \<Rightarrow> nat \<Rightarrow> cpool_manager_t \<Rightarrow> cpool_manager_t" where
  "hlist_del h v M = M\<lparr>cpool_tbl := (cpool_tbl M)[h := remove1 v (cpool_tbl M ! h)]\<rparr>"

definition rm_cache_pool_tbl :: "u64 \<Rightarrow> cpool_manager_t \<Rightarrow> nat option \<times> cpool_manager_t" where
  "rm_cache_pool_tbl vid M =
     (case find_cache_pool_nolock vid (cpool_tbl M ! cpool_hash vid) M of
        (None, M1) \<Rightarrow> (None, M1)
      | (Some v, M1) \<Rightarrow> (Some v, cpool_dec v (hlist_del (cpool_hash vid) v M1)))"

text \<open>
  One look of \<^verbatim>\<open>_free_cache_pool\<close> at the reference count.  The source looks again up to thirty times, sleeping in between, and then
  leaves the pool allocated for ever.
\<close>

definition free_cache_pool :: "nat \<Rightarrow> cpool_manager_t \<Rightarrow> cpool_manager_t" where
  "free_cache_pool v M = (if cp_ref_cnt (cpool_at M v) = 0 then M\<lparr>cpool_live := (cpool_live M)(v := False)\<rparr> else M)"

text \<open>\<open>alloc\<close> is the answer of the allocator for the pool.\<close>

definition cpool_new :: "nat \<Rightarrow> u64 \<Rightarrow> u64 \<Rightarrow> cpool_manager_t \<Rightarrow> cpool_manager_t" where
  "cpool_new v vid cap M = M\<lparr>cpool_at := (cpool_at M)(v := cache_pool_new vid cap (ucast (drop_bit BIT_LEN_DMS_LB_SIZE cap))),
                             cpool_live := (cpool_live M)(v := True)\<rparr>"

definition cacheMgr_create_pool :: "dmsc_cache_config \<Rightarrow> nat option \<Rightarrow> u64 \<Rightarrow> u64 \<Rightarrow> cpool_manager_t \<Rightarrow> int \<times> cpool_manager_t" where
  "cacheMgr_create_pool cfg alloc vid cap M =
     (case alloc of
        None \<Rightarrow> (- ENOMEM, M)
      | Some v \<Rightarrow>
          (let (ret, M1) = add_cache_pool_tbl cfg v (cpool_new v vid cap M)
           in (0, if ret \<noteq> 0 then free_cache_pool v M1 else M1)))"

definition cacheMgr_rel_pool :: "dmsc_cache_config \<Rightarrow> u64 \<Rightarrow> cpool_manager_t \<Rightarrow> int \<times> cpool_manager_t" where
  "cacheMgr_rel_pool cfg vid M =
     (case rm_cache_pool_tbl vid (kick_meta_cache vid (-1) None M) of
        (None, M1) \<Rightarrow> (0, M1)
      | (Some v, M1) \<Rightarrow> (0, update_cache_pool_size cfg (free_cache_pool v M1)))"

text \<open>One round of the loop of \<^verbatim>\<open>_rm_all_cache_pool_tbl\<close> on the first pool of the first bucket that is not empty.\<close>

definition rm_first_pool :: "nat \<Rightarrow> nat \<Rightarrow> cpool_manager_t \<Rightarrow> cpool_manager_t" where
  "rm_first_pool h v M =
     (let M1 = cpool_inc v (hlist_del h v M);
          (ret, M2) = on_cpool v (kick_meta_cache_pool (-1) None) M1
      in free_cache_pool v (cpool_dec v (kick_retry MAX_FREE_VOL_RETRY ret v M2)))"

fun first_pool :: "nat \<Rightarrow> nat list list \<Rightarrow> (nat \<times> nat) option" where
  "first_pool h [] = None"
| "first_pool h ([] # bs) = first_pool (h + 1) bs"
| "first_pool h ((v # _) # bs) = Some (h, v)"

definition init_cacheMgr :: "bool \<Rightarrow> cache_mem \<Rightarrow> int \<times> cpool_manager_t" where
  "init_cacheMgr slab_ok mem =
     (if slab_ok then 0 else - ENOMEM,
      \<lparr>cpool_tbl = replicate CACHE_POOL_HSIZE [], cpool_at = \<lambda>_. cache_pool_new 0 0 0, cpool_live = \<lambda>_. False,
       cpool_mem = (if slab_ok then mem\<lparr>tree_leaf_cnt := 0\<rparr> else mem)\<rparr>)"

definition cacheMgr_get_num_treeleaf :: "cpool_manager_t \<Rightarrow> int" where
  "cacheMgr_get_num_treeleaf M = tree_leaf_cnt (cpool_mem M)"

definition cacheMgr_get_cachePool_size :: "u64 \<Rightarrow> cpool_manager_t \<Rightarrow> (u32 \<times> u32) \<times> cpool_manager_t" where
  "cacheMgr_get_cachePool_size vid M =
     (case find_cache_pool vid M of
        (None, M1) \<Rightarrow> ((0, 0), M1)
      | (Some v, M1) \<Rightarrow> ((cache_size (cpool_at M1 v), of_int (cache_num (cpool_at M1 v))), cpool_dec v M1))"

end
