(* ===== verification/Cache_Frame.thy ===== *)
theory Cache_Frame
  imports Cache_Props
begin

text \<open>
  What the operations on one pool leave alone: the identity and the reference count of the pool, and the leaves of the other pools.
\<close>

definition op_frame :: "nat set \<Rightarrow> cache_st \<Rightarrow> cache_st \<Rightarrow> bool" where
  "op_frame F st st' \<longleftrightarrow> volid (fst st') = volid (fst st) \<and> capacity (fst st') = capacity (fst st) \<and>
     cp_ref_cnt (fst st') = cp_ref_cnt (fst st) \<and> (\<forall>l \<in> F. leaf_at (snd st') l = leaf_at (snd st) l)"

lemma op_frame_refl [simp]: "op_frame F st st"
  by (simp add: op_frame_def)

lemma op_frame_trans: "op_frame F st st1 \<Longrightarrow> op_frame F st1 st2 \<Longrightarrow> op_frame F st st2"
  by (simp add: op_frame_def)

lemma op_frame_mono: "op_frame F st st' \<Longrightarrow> F' \<subseteq> F \<Longrightarrow> op_frame F' st st'"
  by (auto simp: op_frame_def)

lemma leaf_drop_at: "x \<in> F \<Longrightarrow> l \<notin> F \<Longrightarrow> leaf_at (leaf_drop l mem) x = leaf_at mem x"
  by (auto simp: leaf_drop_def release_tree_leaf_def upd_leaf_def)

lemma release_leaf_at [simp]: "leaf_at (release_tree_leaf l mem) = leaf_at mem"
  by (simp add: release_tree_leaf_def)

lemma tree_delete_frame: "op_frame UNIV st (snd (tree_delete k st))"
  by (simp add: tree_delete_def op_frame_def split: prod.splits)

lemma drop_frame: "l \<notin> F \<Longrightarrow> op_frame F st (lru_del l (fst st), leaf_drop l (snd st))"
  by (auto simp: op_frame_def lru_del_def leaf_drop_at)

lemma delete_drop_frame:
  "l \<notin> F \<Longrightarrow> op_frame F st (lru_del l (fst (snd (tree_delete k st))), leaf_drop l (snd (snd (tree_delete k st))))"
  using tree_delete_frame [of st k] drop_frame [of l F "snd (tree_delete k st)"] by (blast intro: op_frame_trans op_frame_mono)

lemma kick_loop_frame: "set xs \<inter> F = {} \<Longrightarrow> op_frame F st (snd (kick_loop cmp c tot xs nr fl st))"
proof (induction xs arbitrary: nr fl st)
  case (Cons l xs)
  let ?st1 = "snd (tree_delete (blkid (leaf_at (snd st) l)) st)"
  let ?st2 = "(lru_del l (fst ?st1), leaf_drop l (snd ?st1))"
  have "op_frame F st ?st2" using Cons.prems by (intro delete_drop_frame) auto
  moreover have "op_frame F s (snd (kick_loop cmp c tot xs n b s))" for n b s using Cons by auto
  ultimately show ?case by (auto simp: Let_def intro: op_frame_trans)
qed simp

lemma kick_frame: "set (lru_list (fst st)) \<inter> F = {} \<Longrightarrow> op_frame F st (snd (kick_meta_cache_pool c cmp st))"
  by (auto simp: kick_meta_cache_pool_def intro!: kick_loop_frame)

lemma invalidate_frame: "cp_inv F H st \<Longrightarrow> op_frame F st (invalidate_loop k n st)"
proof (induction n arbitrary: k st)
  case (Suc n)
  obtain found st1 where d: "tree_delete k st = (found, st1)" by (metis prod.exhaust)
  have f: "op_frame F st st1" using tree_delete_frame [of st k] d by (auto intro: op_frame_mono)
  show ?case
  proof (cases found)
    case None
    have "cp_inv F H st1" by (rule tree_delete_none(1) [OF Suc.prems d [unfolded None]])
    from Suc.IH [OF this, of "k + 1"] f show ?thesis by (auto simp: d None intro: op_frame_trans)
  next
    case (Some l)
    note R = remove_leaf [OF Suc.prems d [unfolded Some]]
    have "l \<notin> F" using R(2) cp_invD(7) [OF Suc.prems] by blast
    then have "op_frame F st (lru_del l (fst st1), leaf_drop l (snd st1))" using delete_drop_frame [of l F st k] d by simp
    with Suc.IH [OF R(1), of "k + 1"] show ?thesis by (auto simp: d Some intro: op_frame_trans)
  qed
qed simp

lemma put_loop_frame: "set (basket_leaves basket) \<inter> F = {} \<Longrightarrow> op_frame F (p, mem) (p, put_loop basket mem)"
proof (induction basket mem rule: put_loop.induct)
  case (3 l basket mem)
  then show ?case by (auto simp: op_frame_def basket_leaves_def upd_leaf_def Let_def)
qed (auto simp: basket_leaves_def)

lemma find_loop_frame:
  "set (basket_leaves basket) \<inter> F = {} \<Longrightarrow> find_loop i start off basket r st = (r', basket', st') \<Longrightarrow> i \<le> length basket \<Longrightarrow> op_frame F st st'"
proof (induction i start off basket r st arbitrary: r' basket' st' rule: find_loop.induct)
  case (2 i start off basket r st)
  have sub: "set (basket_leaves (basket[k := None])) \<subseteq> set (basket_leaves basket)" for k
    using set_update_subset_insert [of basket k None] by (fastforce simp: basket_leaves_def)
  show ?case
  proof (cases "basket ! i")
    case None
    then show ?thesis using "2.IH"(1) [OF None "2.prems"(1)] "2.prems"(2,3) by simp
  next
    case (Some l)
    then have l: "l \<in> set (basket_leaves basket)" using "2.prems"(3) nth_mem [of i basket] by (force simp: basket_leaves_def)
    then have lF: "l \<notin> F" using "2.prems"(1) by blast
    let ?lf = "leaf_at (snd st) l"
    have sub2: "set (basket_leaves (basket[i := None, k := Some l])) \<subseteq> set (basket_leaves basket)" for k
    proof -
      have "set (basket[i := None, k := Some l]) \<subseteq> {None, Some l} \<union> set basket"
        using set_update_subset_insert [of "basket[i := None]" k "Some l"] set_update_subset_insert [of basket i None] by blast
      then show ?thesis using l by (fastforce simp: basket_leaves_def)
    qed
    show ?thesis
    proof (cases "blkid ?lf \<ge> start \<and> blkid ?lf < off \<and> \<not> tree_leaf_is_delete ?lf")
      case True
      let ?st = "((fst st)\<lparr>lru_list := l # remove1 l (lru_list (fst st))\<rparr>, upd_leaf l (\<lambda>l. l\<lparr>flag_refcnt := flag_refcnt l + 1\<rparr>) (snd st))"
      have "op_frame F ?st st'"
        by (rule "2.IH"(2) [OF Some refl refl True]) (use "2.prems" sub2 True Some in \<open>auto simp: Let_def\<close>)
      moreover have "op_frame F st ?st" using lF by (auto simp: op_frame_def upd_leaf_def)
      ultimately show ?thesis by (rule op_frame_trans [rotated])
    next
      case False
      show ?thesis by (rule "2.IH"(3) [OF Some refl refl False]) (use "2.prems" sub False Some in \<open>auto simp: Let_def\<close>)
    qed
  qed
qed simp

lemma gang_lookup_leaves:
  assumes "cp_inv F H st" "dms_radix_tree_gang_lookup (tree (fst st)) k n = Some ls"
  shows "set ls \<subseteq> set (lru_list (fst st)) \<and> length ls \<le> n"
proof (cases "tree_ok st")
  case True
  have "rt_inv (tree (fst st))" using assms(1) by (simp add: cp_inv_def)
  from gang_lookup_spec [OF this True [unfolded tree_ok_def], of k n] assms(2)
  have "ls = take n (rt_range (rt_map (tree (fst st))) (unat k) (2 ^ 64))" by simp
  then show ?thesis using rt_range_keys [of _ "rt_map (tree (fst st))"] cp_invD(4) [OF assms(1)] by (fastforce dest: in_set_takeD)
next
  case False
  then have t: "rnode (tree (fst st)) = RNull" "0 < rt_height (tree (fst st))" by (auto simp: tree_ok_def)
  have "\<not> (unat k \<le> maxindex (rt_height (tree (fst st))) \<and> 0 < n)" using gang_lookup_null [OF t, of k n] assms(2) by auto
  then have "ls = []" using assms(2) by (auto simp: dms_radix_tree_gang_lookup_def gang_loop.simps)
  then show ?thesis by simp
qed

lemma cache_find_frame:
  assumes "cp_inv F H st" "cache_find_pool start n st = Some (r, basket, st')"
  shows "op_frame F st st'"
proof -
  obtain ls where g: "dms_radix_tree_gang_lookup (tree (fst st)) start n = Some ls" using assms(2) by (auto simp: cache_find_pool_def split: option.splits)
  note L = gang_lookup_leaves [OF assms(1) g]
  show ?thesis
  proof (cases ls)
    case Nil
    then show ?thesis using assms(2) g by (simp add: cache_find_pool_def)
  next
    case (Cons a as)
    let ?b = "map Some ls @ replicate (n - length ls) None"
    obtain rr b p mem where f: "find_loop (length ls) start (start + of_nat n) ?b 0 st = (rr, b, p, mem)" by (metis prod_cases4)
    have "basket_leaves ?b = ls" by (simp add: basket_leaves_def filter_map comp_def)
    then have "set (basket_leaves ?b) \<inter> F = {}" using L cp_invD(7) [OF assms(1)] by auto
    from find_loop_frame [OF this f] have "op_frame F st (p, mem)" by simp
    moreover have "snd st' = mem" "fst st' = p\<lparr>m_hit := m_hit p + of_nat (length ls), m_miss := m_miss p + of_nat (n - length ls)\<rparr>"
      using assms(2) g f Cons by (auto simp: cache_find_pool_def)
    ultimately show ?thesis by (simp add: op_frame_def)
  qed
qed

lemma update_one_frame:
  assumes inv: "cp_inv F H st" and fresh: "\<And>l. alloc = Some l \<Longrightarrow> \<not> leaf_live (snd st) l"
  shows "op_frame F st (snd (update_one alloc k d st))"
proof (cases alloc)
  case None
  then show ?thesis by (simp add: update_one_def op_frame_def)
next
  case (Some l)
  have l: "l \<notin> F" using fresh [OF Some] cp_invD(8) [OF inv, of l] by blast
  obtain ret old t nm where i: "dms_radix_tree_insert k l (tree (fst st)) (node_mem (snd st)) = (ret, old, t, nm)" by (metis prod_cases4)
  have "rt_inv (tree (fst st))" using inv by (simp add: cp_inv_def)
  from dms_radix_tree_insert_spec [OF this i] have "old = None \<or> old = rt_map (tree (fst st)) (unat k)" by blast
  then have o: "x \<notin> F" if "old = Some x" for x
    using that cp_invD(4) [OF inv, of "unat k" x] cp_invD(7) [OF inv] by auto
  show ?thesis using l o by (cases old) (auto simp: update_one_def Some i op_frame_def lru_del_def leaf_drop_at Let_def)
qed

lemma update_loop_frame:
  "cp_inv F H st \<Longrightarrow> allocs_fresh allocs k ds st \<Longrightarrow> op_frame F st (snd (update_loop allocs k ds r st))"
proof (induction allocs k ds r st rule: update_loop.induct)
  case (3 alloc allocs k d ds r st)
  obtain r1 st1 where u: "update_one alloc k d st = (r1, st1)" by (metis prod.exhaust)
  have fresh: "\<not> leaf_live (snd st) l" if "alloc = Some l" for l using "3.prems"(2) that by simp
  have "cp_inv F H st1" using update_one_spec [OF "3.prems"(1) fresh u] by blast
  from "3.IH" [OF u [symmetric] refl this] "3.prems"(2) update_one_frame [OF "3.prems"(1) fresh, of alloc k d]
  show ?case by (auto simp: u intro: op_frame_trans)
qed auto

text \<open>An update keeps the invariant whatever the size of the pool.\<close>

lemma cache_update_frame:
  assumes "cp_inv F H st" "allocs_fresh allocs k ds (cache_reclaim (of_nat (length ds)) st)"
  shows "cp_inv F H (snd (cache_update_pool allocs k ds st)) \<and> op_frame F st (snd (cache_update_pool allocs k ds st)) \<and>
    cp_frame (F \<union> set H) st (snd (cache_update_pool allocs k ds st))"
proof (cases "of_nat (length ds) > cache_size (fst st) \<or> cache_size (fst st) = 0")
  case True
  then show ?thesis using assms(1) by (simp add: cache_update_pool_def Let_def)
next
  case False
  let ?st1 = "cache_reclaim (of_nat (length ds)) st"
  have "set (lru_list (fst st)) \<inter> F = {}" using cp_invD(7) [OF assms(1)] by blast
  then have 1: "cp_inv F H ?st1" "op_frame F st ?st1" "cp_frame UNIV st ?st1"
    using kick_any_spec [OF assms(1)] kick_frame [of st F] assms(1) by (auto simp: cache_reclaim_def Let_def)
  obtain ret st' where u: "update_loop allocs k ds 0 ?st1 = (ret, st')" by (metis prod.exhaust)
  from update_loop_spec [OF 1(1) assms(2) u] update_loop_frame [OF 1(1) assms(2), of 0] 1(2,3) False u
  show ?thesis by (auto simp: cache_update_pool_def Let_def intro: op_frame_trans cp_frame_trans dest: cp_frame_UNIV)
qed

end
