(* ===== verification/Cache_Safe.thy ===== *)
theory Cache_Safe
  imports Cache_Mgr Cache_Frame "HOL-Library.Multiset"
begin

text \<open>
  The pools of the cache manager together: an invariant over the leaves of all pools, and the interleavings of the threads that
  find, use and give back pools, create and remove them, walk over the table and free pools.  No thread ever uses a freed pool and no
  reader a freed leaf.
\<close>

subsection \<open>Leaves of all pools\<close>

text \<open>
  \<open>P\<close> are the allocated pools, \<open>K\<close> the leaves that were still cached in a pool when it was freed, \<open>H\<close> the references of the readers.
\<close>

definition cm_cached :: "nat set \<Rightarrow> nat set \<Rightarrow> cpool_manager_t \<Rightarrow> nat set" where
  "cm_cached P K M = K \<union> (\<Union>v \<in> P. set (lru_list (cpool_at M v)))"

definition cpool_ok :: "cache_pool_t \<Rightarrow> cache_mem \<Rightarrow> bool" where
  "cpool_ok p mem \<longleftrightarrow> rt_inv (tree p) \<and> distinct (lru_list p) \<and> cache_num p = int (length (lru_list p)) \<and>
     (\<forall>k l. rt_map (tree p) k = Some l \<longleftrightarrow> l \<in> set (lru_list p) \<and> unat (blkid (leaf_at mem l)) = k)"

definition lv_inv :: "nat set \<Rightarrow> nat set \<Rightarrow> nat list \<Rightarrow> cpool_manager_t \<Rightarrow> bool" where
  "lv_inv P K H M \<longleftrightarrow> finite P \<and> finite K \<and> length H < 2 ^ 31 \<and>
     (\<forall>v \<in> P. cpool_ok (cpool_at M v) (cpool_mem M) \<and> K \<inter> set (lru_list (cpool_at M v)) = {}) \<and>
     (\<forall>v \<in> P. \<forall>w \<in> P. v \<noteq> w \<longrightarrow> set (lru_list (cpool_at M v)) \<inter> set (lru_list (cpool_at M w)) = {}) \<and>
     (\<forall>l \<in> cm_cached P K M \<union> set H. flag_refcnt (leaf_at (cpool_mem M) l) = ref_word (count_list H l) (l \<notin> cm_cached P K M)) \<and>
     (\<forall>l. leaf_live (cpool_mem M) l \<longleftrightarrow> l \<in> cm_cached P K M \<union> set H) \<and>
     tree_leaf_cnt (cpool_mem M) = int (card (cm_cached P K M \<union> set H))"

definition others :: "nat set \<Rightarrow> nat set \<Rightarrow> nat \<Rightarrow> cpool_manager_t \<Rightarrow> nat set" where
  "others P K v M = cm_cached (P - {v}) K M"

lemma cached_split: "v \<in> P \<Longrightarrow> cm_cached P K M = others P K v M \<union> set (lru_list (cpool_at M v))"
  by (auto simp: cm_cached_def others_def)

lemma others_disjoint: "lv_inv P K H M \<Longrightarrow> v \<in> P \<Longrightarrow> others P K v M \<inter> set (lru_list (cpool_at M v)) = {}"
  by (fastforce simp: lv_inv_def others_def cm_cached_def)

lemma count_list_filter: "count_list (filter Q xs) x = (if Q x then count_list xs x else 0)"
  by (induction xs) auto

lemma in_set_count: "x \<in> set xs \<longleftrightarrow> count_list xs x \<noteq> 0"
  by (simp add: count_list_0_iff)

text \<open>What the invariant says of one pool.\<close>

lemma lv_inv_local:
  assumes inv: "lv_inv P K H M" and v: "v \<in> P"
  shows "cp_inv (others P K v M) (filter (\<lambda>l. l \<notin> others P K v M) H) (cpool_at M v, cpool_mem M)"
proof -
  let ?F = "others P K v M" and ?L = "set (lru_list (cpool_at M v))"
  let ?H = "filter (\<lambda>l. l \<notin> ?F) H"
  note d = others_disjoint [OF inv v] and s = cached_split [OF v, of K M]
  have p: "cpool_ok (cpool_at M v) (cpool_mem M)" and fin: "finite ?F" using inv v by (auto simp: lv_inv_def others_def cm_cached_def)
  have u: "?F \<union> (?L \<union> set ?H) = cm_cached P K M \<union> set H" unfolding s by auto
  have "cp_core ?F ?H (rt_map (tree (cpool_at M v))) (cpool_at M v) (cpool_mem M)"
  proof (rule cp_coreI)
    show "length ?H < 2 ^ 31" using inv length_filter_le [of _ H] by (meson le_less_trans lv_inv_def)
    fix l assume l: "l \<in> ?L \<union> set ?H"
    then have "l \<in> cm_cached P K M \<union> set H" "l \<notin> ?F" using s d by auto
    then show "flag_refcnt (leaf_at (cpool_mem M) l) = ref_word (count_list ?H l) (l \<notin> ?L)"
      using inv s by (auto simp: lv_inv_def count_list_filter)
  next
    show "leaf_live (cpool_mem M) l \<longleftrightarrow> l \<in> ?F \<union> (?L \<union> set ?H)" for l unfolding u using inv by (simp add: lv_inv_def)
    show "tree_leaf_cnt (cpool_mem M) = int (card (?F \<union> (?L \<union> set ?H)))" unfolding u using inv by (simp add: lv_inv_def)
    show "?F \<inter> (?L \<union> set ?H) = {}" using d by auto
  qed (use p fin in \<open>auto simp: cpool_ok_def\<close>)
  then show ?thesis using p by (simp add: cp_inv_def cpool_ok_def)
qed

text \<open>An operation on one pool that keeps its invariant and leaves the other leaves alone keeps the invariant of all.\<close>

lemma lv_inv_step:
  assumes inv: "lv_inv P K H M" and v: "v \<in> P"
    and op: "cp_inv (others P K v M) H' (p, mem)" "op_frame (others P K v M) (cpool_at M v, cpool_mem M) (p, mem)"
    and H: "\<And>x. count_list H'' x = count_list H' x + (if x \<in> others P K v M then count_list H x else 0)" "length H'' < 2 ^ 31"
  shows "lv_inv P K H'' (M\<lparr>cpool_at := (cpool_at M)(v := p), cpool_mem := mem\<rparr>)"
proof -
  let ?F = "others P K v M" and ?M = "M\<lparr>cpool_at := (cpool_at M)(v := p), cpool_mem := mem\<rparr>" and ?L = "set (lru_list p)"
  note D = cp_invD [OF op(1), simplified]
  have F': "others P K v ?M = ?F" by (auto simp: others_def cm_cached_def)
  have C: "cm_cached P K ?M = ?F \<union> ?L" using cached_split [OF v, of K ?M] unfolding F' by simp
  have sH: "x \<in> set H'' \<longleftrightarrow> x \<in> set H' \<or> x \<in> ?F \<and> x \<in> set H" for x
    unfolding in_set_count [of x] H(1) by auto
  have U: "cm_cached P K ?M \<union> set H'' = ?F \<union> (?L \<union> set H')" unfolding C using sH by auto
  have same: "leaf_at mem l = leaf_at (cpool_mem M) l" if "l \<in> ?F" for l using op(2) that by (simp add: op_frame_def)
  have flag: "flag_refcnt (leaf_at mem l) = ref_word (count_list H'' l) (l \<notin> cm_cached P K ?M)" if "l \<in> ?F \<union> (?L \<union> set H')" for l
  proof (cases "l \<in> ?F")
    case True
    then have "l \<notin> set H'" "l \<in> cm_cached P K M" using D(7) cached_split [OF v, of K M] by auto
    then show ?thesis using inv True unfolding same [OF True] C by (simp add: lv_inv_def H(1))
  next
    case False
    then show ?thesis using that D(5) [of l] unfolding C by (simp add: H(1))
  qed
  have ok: "cpool_ok (cpool_at ?M w) mem" if w: "w \<in> P" for w
  proof (cases "w = v")
    case True
    then show ?thesis using op(1) by (simp add: cpool_ok_def cp_inv_def cp_core_def)
  next
    case False
    have "cpool_ok (cpool_at M w) (cpool_mem M)" using inv w by (simp add: lv_inv_def)
    moreover have "leaf_at mem l = leaf_at (cpool_mem M) l" if "l \<in> set (lru_list (cpool_at M w))" for l
      by (rule same) (use that w False in \<open>auto simp: others_def cm_cached_def\<close>)
    ultimately show ?thesis using False by (auto simp: cpool_ok_def)
  qed
  have "set (lru_list (cpool_at M w)) \<inter> ?L = {}" if "w \<in> P" "w \<noteq> v" for w
    using D(7) that by (auto simp: others_def cm_cached_def)
  moreover have "K \<inter> ?L = {}" using D(7) by (auto simp: others_def cm_cached_def)
  ultimately show ?thesis unfolding lv_inv_def using inv H(2) ok flag D(8,9) U by (auto simp: lv_inv_def)
qed

subsection \<open>Interleavings\<close>

text \<open>
  \<open>R\<close> are the references to pools, one entry for each thread that has found a pool and not yet given it back; \<open>G\<close> the references of
  the readers to leaves, with the key and the item found; \<open>D\<close> the pools that are allocated but not in the table.  Acquiring is what
  every look-up in the table and every walk over the table does; the operations on a pool are those of a thread with a reference to
  it.  A reader gives leaves back through any pool it has found under the volume, which need not be the pool it found them in.
\<close>

inductive cm_reach :: "cpool_manager_t \<Rightarrow> nat list \<Rightarrow> (nat \<times> u64 \<times> nat) list \<Rightarrow> nat list \<Rightarrow> nat set \<Rightarrow> bool" where
  start: "(\<And>l. \<not> leaf_live mem l) \<Longrightarrow> init_cacheMgr True mem = (0, M) \<Longrightarrow> cm_reach M [] [] [] {}"
| acquire: "cm_reach M R G D K \<Longrightarrow> v \<in> set (concat (cpool_tbl M)) \<Longrightarrow> cm_reach (cpool_inc v M) (v # R) G D K"
| release: "cm_reach M R G D K \<Longrightarrow> v \<in> set R \<Longrightarrow> cm_reach (cpool_dec v M) (remove1 v R) G D K"
| find: "cm_reach M R G D K \<Longrightarrow> v \<in> set R \<Longrightarrow> unat first + cnt < 2 ^ 64 \<Longrightarrow> length G + cnt < 2 ^ 31 \<Longrightarrow>
    cache_find_pool first cnt (cpool_at M v, cpool_mem M) = Some (r, basket, p, mem) \<Longrightarrow>
    cm_reach (M\<lparr>cpool_at := (cpool_at M)(v := p), cpool_mem := mem\<rparr>) R
      (map (\<lambda>l. (l, blkid (leaf_at mem l), leaf_data (leaf_at mem l))) (basket_leaves basket) @ G) D K"
| put: "cm_reach M R (G @ (l, k, d) # G') D K \<Longrightarrow> v \<in> set R \<Longrightarrow>
    cm_reach (snd (on_cpool v (\<lambda>(p, mem). ((), p, put_loop [Some l] mem)) M)) R (G @ G') D K"
| update: "cm_reach M R G D K \<Longrightarrow> v \<in> set R \<Longrightarrow>
    allocs_fresh allocs first ds (cache_reclaim (of_nat (length ds)) (cpool_at M v, cpool_mem M)) \<Longrightarrow>
    cm_reach (snd (on_cpool v (cache_update_pool allocs first ds) M)) R G D K"
| invalidate: "cm_reach M R G D K \<Longrightarrow> v \<in> set R \<Longrightarrow>
    cm_reach (snd (on_cpool v (\<lambda>st. ((), invalidate_loop first cnt st)) M)) R G D K"
| kick: "cm_reach M R G D K \<Longrightarrow> v \<in> set R \<Longrightarrow> cm_reach (snd (on_cpool v (kick_meta_cache_pool c cmp) M)) R G D K"
| resize: "cm_reach M R G D K \<Longrightarrow> v \<in> set R \<Longrightarrow> cm_reach (upd_cpool v (\<lambda>p. p\<lparr>cache_size := sz\<rparr>) M) R G D K"
| create: "cm_reach M R G D K \<Longrightarrow> \<not> cpool_live M v \<Longrightarrow> add_to_tbl v (cpool_new v vid cap M) = (0, M') \<Longrightarrow> cm_reach M' R G D K"
| create_dup: "cm_reach M R G D K \<Longrightarrow> \<not> cpool_live M v \<Longrightarrow> add_to_tbl v (cpool_new v vid cap M) = (- EEXIST, M') \<Longrightarrow>
    find_cache_pool vid M = (Some w, M1) \<Longrightarrow> cm_reach M' (w # R) G (v # D) K"
| detach: "cm_reach M R G D K \<Longrightarrow> h < CACHE_POOL_HSIZE \<Longrightarrow> v \<in> set (cpool_tbl M ! h) \<Longrightarrow> cm_reach (hlist_del h v M) R G (v # D) K"
| free: "cm_reach M R G D K \<Longrightarrow> v \<in> set D \<Longrightarrow> cp_ref_cnt (cpool_at M v) = 0 \<Longrightarrow>
    cm_reach (free_cache_pool v M) R G (remove1 v D) (K \<union> set (lru_list (cpool_at M v)))"

definition tbl_ok :: "cpool_manager_t \<Rightarrow> bool" where
  "tbl_ok M \<longleftrightarrow> length (cpool_tbl M) = CACHE_POOL_HSIZE \<and> distinct (concat (cpool_tbl M)) \<and>
     (\<forall>h < CACHE_POOL_HSIZE. \<forall>v \<in> set (cpool_tbl M ! h). cpool_hash (volid (cpool_at M v)) = h) \<and>
     inj_on (\<lambda>v. volid (cpool_at M v)) (set (concat (cpool_tbl M)))"

definition cm_ok :: "cpool_manager_t \<Rightarrow> nat list \<Rightarrow> (nat \<times> u64 \<times> nat) list \<Rightarrow> nat list \<Rightarrow> nat set \<Rightarrow> bool" where
  "cm_ok M R G D K \<longleftrightarrow> tbl_ok M \<and> distinct D \<and> set D \<inter> set (concat (cpool_tbl M)) = {} \<and>
     {v. cpool_live M v} = set (concat (cpool_tbl M)) \<union> set D \<and> set R \<subseteq> {v. cpool_live M v} \<and>
     (\<forall>v. cpool_live M v \<longrightarrow> cp_ref_cnt (cpool_at M v) = int (count_list R v)) \<and>
     lv_inv {v. cpool_live M v} K (map fst G) M \<and>
     (\<forall>(l, k, d) \<in> set G. blkid (leaf_at (cpool_mem M) l) = k \<and> leaf_data (leaf_at (cpool_mem M) l) = d)"

text \<open>Changes of a pool that concern neither its leaves nor its identity.\<close>

lemma lv_inv_pools:
  assumes "lv_inv P K H M" "\<And>v. v \<in> P \<Longrightarrow> lru_list (cpool_at M' v) = lru_list (cpool_at M v) \<and> tree (cpool_at M' v) = tree (cpool_at M v) \<and>
      cache_num (cpool_at M' v) = cache_num (cpool_at M v)" "cpool_mem M' = cpool_mem M"
  shows "lv_inv P K H M'"
proof -
  have "cm_cached P K M' = cm_cached P K M" using assms(2) by (auto simp: cm_cached_def)
  then show ?thesis using assms by (auto simp: lv_inv_def cpool_ok_def)
qed

lemma tbl_ok_pools:
  assumes "tbl_ok M" "\<And>v. v \<in> set (concat (cpool_tbl M)) \<Longrightarrow> volid (cpool_at M' v) = volid (cpool_at M v)" "cpool_tbl M' = cpool_tbl M"
  shows "tbl_ok M'"
proof -
  have "volid (cpool_at M' v) = volid (cpool_at M v)" if "v \<in> set (cpool_tbl M ! h)" "h < CACHE_POOL_HSIZE" for v h
    by (rule assms(2)) (use that assms(1) in \<open>auto simp: tbl_ok_def intro: nth_mem\<close>)
  moreover have "inj_on (\<lambda>v. volid (cpool_at M' v)) (set (concat (cpool_tbl M)))"
    using assms(1) inj_on_cong [of "set (concat (cpool_tbl M))" "\<lambda>v. volid (cpool_at M' v)" "\<lambda>v. volid (cpool_at M v)"] assms(2)
    by (auto simp: tbl_ok_def)
  ultimately show ?thesis using assms(1,3) by (auto simp: tbl_ok_def)
qed

lemma cm_ok_op:
  assumes ok: "cm_ok M R G D K" and v: "v \<in> set R"
    and F: "F = others {v. cpool_live M v} K v M" and H: "H = filter (\<lambda>l. l \<notin> F) (map fst G)"
    and op: "cp_inv F H' (p, mem)" "op_frame F (cpool_at M v, cpool_mem M) (p, mem)"
      "cp_frame (F \<union> set H') (cpool_at M v, cpool_mem M) (p, mem)"
    and G: "\<And>x. count_list (map fst G') x = count_list H' x + (if x \<in> F then count_list (map fst G) x else 0)" "length G' < 2 ^ 31"
      "\<And>l k d. (l, k, d) \<in> set G' \<Longrightarrow> (l, k, d) \<in> set G \<or> k = blkid (leaf_at mem l) \<and> d = leaf_data (leaf_at mem l)"
  shows "cm_ok (M\<lparr>cpool_at := (cpool_at M)(v := p), cpool_mem := mem\<rparr>) R G' D K"
proof -
  let ?M = "M\<lparr>cpool_at := (cpool_at M)(v := p), cpool_mem := mem\<rparr>" and ?P = "{v. cpool_live M v}"
  have vP: "v \<in> ?P" and inv: "lv_inv ?P K (map fst G) M" using ok v by (auto simp: cm_ok_def)
  have "lv_inv ?P K (map fst G') ?M"
    by (rule lv_inv_step [OF inv vP op(1,2) [unfolded F]]) (use G(1,2) F in simp_all)
  moreover have "tbl_ok ?M" by (rule tbl_ok_pools [of M]) (use ok op(2) in \<open>auto simp: cm_ok_def op_frame_def\<close>)
  moreover have "blkid (leaf_at mem l) = k \<and> leaf_data (leaf_at mem l) = d" if g: "(l, k, d) \<in> set G'" for l k d
  proof (cases "(l, k, d) \<in> set G")
    case True
    have "l \<in> set (map fst G')" using g by force
    then have "l \<in> F \<union> set H'" unfolding in_set_count G(1) by (auto simp: count_list_0_iff split: if_splits)
    then show ?thesis using op(3) ok True by (auto simp: cp_frame_def cm_ok_def)
  qed (use G(3) [OF g] in simp)
  ultimately show ?thesis using ok op(2) by (auto simp: cm_ok_def op_frame_def)
qed

text \<open>Giving a leaf back concerns no pool, only the word of the leaf.\<close>

lemma put_one_eq:
  assumes "flag_refcnt (leaf_at mem l) = ref_word n d" "0 < n" "n < 2 ^ 31"
  shows "put_loop [Some l] mem = (let mem1 = upd_leaf l (\<lambda>x. x\<lparr>flag_refcnt := ref_word (n - 1) d\<rparr>) mem
    in if d \<and> n = 1 then mem1\<lparr>citem_freed := leaf_data (leaf_at mem l) # citem_freed mem, leaf_live := (leaf_live mem)(l := False),
         tree_leaf_cnt := tree_leaf_cnt mem - 1\<rparr> else mem1)"
proof -
  let ?f = "ref_word (n - 1) d"
  let ?mem1 = "upd_leaf l (\<lambda>x. x\<lparr>flag_refcnt := flag_refcnt x - 1\<rparr>) mem"
  have "?mem1 = upd_leaf l (\<lambda>x. x\<lparr>flag_refcnt := ?f\<rparr>) mem" using assms by (simp add: upd_leaf_def ref_word_pred)
  moreover have f: "flag_refcnt (leaf_at ?mem1 l) = ?f" using assms by (simp add: upd_leaf_def ref_word_pred)
  have "n - 1 < 2 ^ 31" using assms(3) by simp
  then have "tree_leaf_is_delete (leaf_at ?mem1 l) \<longleftrightarrow> d" "0 < tree_leaf_ref_count (leaf_at ?mem1 l) \<longleftrightarrow> 0 < n - 1"
    by (rule leaf_deleted [OF f], rule leaf_count_pos [OF f])
  ultimately show ?thesis using assms(2) by (auto simp: Let_def release_tree_leaf_def upd_leaf_def)
qed

lemma put_leaf_fields:
  "blkid (leaf_at (put_loop [Some l] mem) x) = blkid (leaf_at mem x)" "leaf_data (leaf_at (put_loop [Some l] mem) x) = leaf_data (leaf_at mem x)"
  by (auto simp: Let_def upd_leaf_def)

lemma lv_inv_put:
  assumes inv: "lv_inv P K (H @ l # H') M"
  shows "lv_inv P K (H @ H') (M\<lparr>cpool_mem := put_loop [Some l] (cpool_mem M)\<rparr>)"
proof -
  let ?C = "cm_cached P K M" and ?n = "count_list (H @ l # H') l" and ?mem = "put_loop [Some l] (cpool_mem M)"
  let ?M = "M\<lparr>cpool_mem := ?mem\<rparr>"
  have n: "0 < ?n" "?n < 2 ^ 31" using inv count_le_length [of "H @ l # H'" l] by (auto simp: lv_inv_def)
  have f: "flag_refcnt (leaf_at (cpool_mem M) l) = ref_word ?n (l \<notin> ?C)" using inv by (simp add: lv_inv_def)
  have C: "cm_cached P K ?M = ?C" by (simp add: cm_cached_def)
  have cnt: "count_list (H @ l # H') x = count_list (H @ H') x + (if x = l then 1 else 0)" for x by simp
  have mem: "leaf_at ?mem x = (if x = l then (leaf_at (cpool_mem M) l)\<lparr>flag_refcnt := ref_word (?n - 1) (l \<notin> ?C)\<rparr> else leaf_at (cpool_mem M) x)"
      "leaf_live ?mem x \<longleftrightarrow> leaf_live (cpool_mem M) x \<and> \<not> (x = l \<and> l \<notin> ?C \<and> ?n = 1)"
      "tree_leaf_cnt ?mem = tree_leaf_cnt (cpool_mem M) - (if l \<notin> ?C \<and> ?n = 1 then 1 else 0)" for x
    unfolding put_one_eq [OF f n] by (auto simp: Let_def upd_leaf_def)
  have S: "?C \<union> set (H @ H') = ?C \<union> set (H @ l # H') - (if l \<notin> ?C \<and> ?n = 1 then {l} else {})"
    using count_list_0_iff [of "H @ H'" l] by (auto simp: count_list_0_iff)
  have fin: "finite (?C \<union> set (H @ l # H'))" using inv by (auto simp: lv_inv_def cm_cached_def)
  then have card: "tree_leaf_cnt ?mem = int (card (?C \<union> set (H @ H')))"
  proof (cases "l \<notin> ?C \<and> ?n = 1")
    case True
    have "card (?C \<union> set (H @ l # H')) = Suc (card (?C \<union> set (H @ l # H') - {l}))" by (rule card.remove [OF fin]) simp
    then show ?thesis unfolding S mem(3) using True inv by (simp add: lv_inv_def)
  next
    case False
    then show ?thesis unfolding S mem(3) if_not_P [OF False] using inv by (simp add: lv_inv_def)
  qed
  have "leaf_live ?mem x \<longleftrightarrow> x \<in> ?C \<union> set (H @ H')" for x unfolding mem(2) S using inv by (auto simp: lv_inv_def)
  moreover have "flag_refcnt (leaf_at ?mem x) = ref_word (count_list (H @ H') x) (x \<notin> ?C)" if "x \<in> ?C \<union> set (H @ H')" for x
    using inv that unfolding mem(1) lv_inv_def cnt by auto
  moreover have "cpool_ok (cpool_at M v) ?mem" if "v \<in> P" for v
    using inv that by (simp add: lv_inv_def cpool_ok_def put_leaf_fields del: put_loop.simps)
  ultimately show ?thesis using inv card unfolding lv_inv_def C by auto
qed

lemma on_cpool_put: "snd (on_cpool v (\<lambda>(p, mem). ((), p, put_loop b mem)) M) = M\<lparr>cpool_mem := put_loop b (cpool_mem M)\<rparr>"
  by (simp add: on_cpool_def)

lemma cm_ok_put:
  assumes ok: "cm_ok M R (G @ (l, k, d) # G') D K"
  shows "cm_ok (M\<lparr>cpool_mem := put_loop [Some l] (cpool_mem M)\<rparr>) R (G @ G') D K"
proof -
  let ?M = "M\<lparr>cpool_mem := put_loop [Some l] (cpool_mem M)\<rparr>"
  have "lv_inv {v. cpool_live M v} K (map fst G @ l # map fst G') M"
    using ok unfolding cm_ok_def map_append list.map fst_conv by blast
  from lv_inv_put [OF this] have "lv_inv {v. cpool_live M v} K (map fst G @ map fst G') ?M" .
  moreover have "tbl_ok ?M" by (rule tbl_ok_pools [of M]) (use ok in \<open>auto simp: cm_ok_def\<close>)
  ultimately show ?thesis using ok unfolding cm_ok_def by (auto simp: put_leaf_fields simp del: put_loop.simps)
qed

lemma on_cpool_eq: "snd (on_cpool v f M) =
    M\<lparr>cpool_at := (cpool_at M)(v := fst (snd (f (cpool_at M v, cpool_mem M)))), cpool_mem := snd (snd (f (cpool_at M v, cpool_mem M)))\<rparr>"
  by (simp add: on_cpool_def split: prod.splits)

text \<open>An operation that keeps the references of the readers.\<close>

lemma cm_ok_keep:
  assumes ok: "cm_ok M R G D K" and v: "v \<in> set R"
    and op: "\<And>F H. cp_inv F H (cpool_at M v, cpool_mem M) \<Longrightarrow> cp_inv F H st' \<and> op_frame F (cpool_at M v, cpool_mem M) st' \<and>
      cp_frame (F \<union> set H) (cpool_at M v, cpool_mem M) st'"
  shows "cm_ok (M\<lparr>cpool_at := (cpool_at M)(v := fst st'), cpool_mem := snd st'\<rparr>) R G D K"
proof -
  let ?F = "others {v. cpool_live M v} K v M"
  let ?H = "filter (\<lambda>l. l \<notin> ?F) (map fst G)"
  have "lv_inv {v. cpool_live M v} K (map fst G) M" "v \<in> {v. cpool_live M v}" "length (map fst G) < 2 ^ 31"
    using ok v unfolding cm_ok_def lv_inv_def by blast+
  note L = this(3) op [OF lv_inv_local [OF this(1,2)]]
  have L1: "cp_inv ?F ?H (fst st', snd st')" "op_frame ?F (cpool_at M v, cpool_mem M) (fst st', snd st')"
      "cp_frame (?F \<union> set ?H) (cpool_at M v, cpool_mem M) (fst st', snd st')" using L by simp_all
  show ?thesis by (rule cm_ok_op [OF ok v refl refl L1]) (use L(1) in \<open>simp_all add: count_list_filter\<close>)
qed

lemma cm_ok_find:
  assumes ok: "cm_ok M R G D K" and v: "v \<in> set R" and n: "unat first + cnt < 2 ^ 64" "length G + cnt < 2 ^ 31"
    and f: "cache_find_pool first cnt (cpool_at M v, cpool_mem M) = Some (r, basket, p, mem)"
  shows "cm_ok (M\<lparr>cpool_at := (cpool_at M)(v := p), cpool_mem := mem\<rparr>) R
    (map (\<lambda>l. (l, blkid (leaf_at mem l), leaf_data (leaf_at mem l))) (basket_leaves basket) @ G) D K"
proof -
  let ?F = "others {v. cpool_live M v} K v M"
  let ?H = "filter (\<lambda>l. l \<notin> ?F) (map fst G)"
  have inv: "lv_inv {v. cpool_live M v} K (map fst G) M" "v \<in> {v. cpool_live M v}"
    using ok v unfolding cm_ok_def by blast+
  note L = lv_inv_local [OF inv]
  have "length ?H \<le> length G" using length_filter_le [of "\<lambda>l. l \<notin> ?F" "map fst G"] unfolding length_map .
  with n(2) have "length ?H + cnt < 2 ^ 31" by linarith
  note C = cache_find_inv [OF L n(1) this f]
  have C1: "cp_inv ?F (basket_leaves basket @ ?H) (p, mem)" "cp_frame (?F \<union> set (basket_leaves basket @ ?H)) (cpool_at M v, cpool_mem M) (p, mem)"
    using C cp_frame_UNIV by blast+
  have "x \<notin> ?F" if "x \<in> set (basket_leaves basket)" for x using that cp_invD(7) [OF C1(1)] by auto
  then have "count_list (basket_leaves basket) x = 0" if "x \<in> ?F" for x using that count_list_0_iff by fastforce
  then show ?thesis using C n(2)
    by (intro cm_ok_op [OF ok v refl refl C1(1) cache_find_frame [OF L f] C1(2)])
      (auto simp: count_list_filter comp_def)
qed

subsection \<open>Pools\<close>

lemma cm_ok_meta:
  assumes ok: "cm_ok M R G D K" and v: "cpool_live M v"
    and f: "lru_list (f (cpool_at M v)) = lru_list (cpool_at M v)" "tree (f (cpool_at M v)) = tree (cpool_at M v)"
      "cache_num (f (cpool_at M v)) = cache_num (cpool_at M v)" "volid (f (cpool_at M v)) = volid (cpool_at M v)"
    and R: "cp_ref_cnt (f (cpool_at M v)) = int (count_list R' v)" "\<And>w. w \<noteq> v \<Longrightarrow> count_list R' w = count_list R w" "set R' \<subseteq> insert v (set R)"
  shows "cm_ok (upd_cpool v f M) R' G D K"
proof -
  let ?M = "upd_cpool v f M"
  have s: "cpool_tbl ?M = cpool_tbl M" "cpool_live ?M = cpool_live M" "cpool_mem ?M = cpool_mem M"
    "\<And>w. cpool_at ?M w = (if w = v then f (cpool_at M v) else cpool_at M w)" by (auto simp: upd_cpool_def)
  have lv: "lv_inv {v. cpool_live M v} K (map fst G) M" "tbl_ok M" using ok unfolding cm_ok_def by blast+
  have "lv_inv {v. cpool_live M v} K (map fst G) ?M" by (rule lv_inv_pools [OF lv(1)]) (auto simp: s f)
  moreover have "tbl_ok ?M" by (rule tbl_ok_pools [OF lv(2)]) (auto simp: s f)
  moreover have "set R' \<subseteq> {v. cpool_live M v}" using R(3) ok v unfolding cm_ok_def by blast
  moreover have "cp_ref_cnt (cpool_at ?M w) = int (count_list R' w)" if "cpool_live M w" for w
    using that ok R(1,2) unfolding cm_ok_def s by simp
  ultimately show ?thesis using ok unfolding cm_ok_def s by blast
qed

lemma cm_ok_live:
  assumes "cm_ok M R G D K"
  shows "v \<in> set R \<Longrightarrow> cpool_live M v" "v \<in> set (concat (cpool_tbl M)) \<Longrightarrow> cpool_live M v" "v \<in> set D \<Longrightarrow> cpool_live M v"
    "cpool_live M v \<Longrightarrow> cp_ref_cnt (cpool_at M v) = int (count_list R v)"
  using assms unfolding cm_ok_def by blast+

lemma cm_ok_inc: "cm_ok M R G D K \<Longrightarrow> cpool_live M v \<Longrightarrow> cm_ok (cpool_inc v M) (v # R) G D K"
  unfolding cpool_inc_def by (rule cm_ok_meta) (auto simp: cm_ok_live(4))

lemma cm_ok_dec: "cm_ok M R G D K \<Longrightarrow> v \<in> set R \<Longrightarrow> cm_ok (cpool_dec v M) (remove1 v R) G D K"
  unfolding cpool_dec_def
  by (rule cm_ok_meta) (auto simp: cm_ok_live(1,4) count_list_remove1 in_set_count of_nat_diff dest: set_remove1_subset [THEN subsetD])

lemma cm_ok_resize: "cm_ok M R G D K \<Longrightarrow> v \<in> set R \<Longrightarrow> cm_ok (upd_cpool v (\<lambda>p. p\<lparr>cache_size := sz\<rparr>) M) R G D K"
  by (rule cm_ok_meta) (auto simp: cm_ok_live)

text \<open>Buckets.\<close>

lemma concat_cons: "h < length xs \<Longrightarrow> mset (concat (xs[h := v # xs ! h])) = add_mset v (mset (concat xs))"
  by (subst (2) id_take_nth_drop [of h xs]) (auto simp: upd_conv_take_nth_drop)

lemma concat_del: "h < length xs \<Longrightarrow> v \<in> set (xs ! h) \<Longrightarrow> mset (concat xs) = add_mset v (mset (concat (xs[h := remove1 v (xs ! h)])))"
  by (subst (1) id_take_nth_drop [of h xs]) (auto simp: upd_conv_take_nth_drop)

lemma in_concat_nth: "v \<in> set (concat xs) \<longleftrightarrow> (\<exists>h < length xs. v \<in> set (xs ! h))"
  by (auto simp: in_set_conv_nth [of _ xs] Bex_def)

lemma tbl_bucket: "tbl_ok M \<Longrightarrow> v \<in> set (concat (cpool_tbl M)) \<Longrightarrow> v \<in> set (cpool_tbl M ! cpool_hash (volid (cpool_at M v)))"
  unfolding in_concat_nth tbl_ok_def by auto

lemma hash_less: "cpool_hash vid < CACHE_POOL_HSIZE"
  by (simp add: cpool_hash_def CACHE_POOL_HSIZE_def)

text \<open>A new pool, allocated and private.\<close>

lemma cm_ok_new:
  assumes ok: "cm_ok M R G D K" and v: "\<not> cpool_live M v"
  shows "cm_ok (cpool_new v vid cap M) R G (v # D) K"
proof -
  let ?M = "cpool_new v vid cap M" and ?P = "{v. cpool_live M v}"
  have s: "cpool_tbl ?M = cpool_tbl M" "cpool_mem ?M = cpool_mem M" "{v. cpool_live ?M v} = insert v ?P"
    "\<And>w. w \<noteq> v \<Longrightarrow> cpool_at ?M w = cpool_at M w" "lru_list (cpool_at ?M v) = []" "cp_ref_cnt (cpool_at ?M v) = 0"
    "cpool_ok (cpool_at ?M v) mem" for mem
    by (auto simp: cpool_new_def cache_pool_new_def cpool_ok_def rt_inv_def DMS_INIT_RADIX_TREE_def rt_map_empty)
  have lv: "lv_inv ?P K (map fst G) M" "tbl_ok M" "?P = set (concat (cpool_tbl M)) \<union> set D" "set R \<subseteq> ?P" using ok unfolding cm_ok_def by blast+
  have n: "v \<notin> set (concat (cpool_tbl M))" "v \<notin> set D" "v \<notin> set R" "v \<notin> ?P" using v lv(3,4) by blast+
  have at: "cpool_at ?M w = cpool_at M w" if "w \<in> ?P" for w using s(4) that n(4) by metis
  have C: "cm_cached (insert v ?P) K ?M = cm_cached ?P K M" using at by (auto simp: cm_cached_def s(5))
  have "lv_inv (insert v ?P) K (map fst G) ?M"
    using lv(1) s(5,7) at unfolding lv_inv_def C s(2) by (simp add: n(4))
  moreover have "tbl_ok ?M" by (rule tbl_ok_pools [OF lv(2)]) (use s(1) at lv(3) in auto)
  moreover have "cp_ref_cnt (cpool_at ?M w) = int (count_list R w)" if "cpool_live ?M w" for w
    using that cm_ok_live(4) [OF ok] s(3,4,6) n(3) by (cases "w = v") (auto simp: in_set_count)
  ultimately show ?thesis using ok n unfolding cm_ok_def s(1,2,3) by auto
qed

lemma cm_ok_publish:
  assumes ok: "cm_ok M R G (v # D) K" and h: "h = cpool_hash (volid (cpool_at M v))"
    and new: "\<And>w. w \<in> set (cpool_tbl M ! h) \<Longrightarrow> volid (cpool_at M w) \<noteq> volid (cpool_at M v)"
  shows "cm_ok (M\<lparr>cpool_tbl := (cpool_tbl M)[h := v # cpool_tbl M ! h]\<rparr>) R G D K"
proof -
  let ?M = "M\<lparr>cpool_tbl := (cpool_tbl M)[h := v # cpool_tbl M ! h]\<rparr>" and ?T = "concat (cpool_tbl M)"
  have t: "tbl_ok M" and n: "v \<notin> set ?T" "distinct (v # D)" "set (v # D) \<inter> set ?T = {}" "{v. cpool_live M v} = set ?T \<union> set (v # D)"
    using ok unfolding cm_ok_def by auto
  have hl: "h < length (cpool_tbl M)" using hash_less t by (simp add: h tbl_ok_def)
  have m: "mset (concat (cpool_tbl ?M)) = mset (v # ?T)" using concat_cons [OF hl, of v] by simp
  then have T: "set (concat (cpool_tbl ?M)) = insert v (set ?T)" "distinct (concat (cpool_tbl ?M))"
    using t n(1) mset_eq_setD [OF m] mset_eq_imp_distinct_iff [OF m] by (simp_all add: tbl_ok_def)
  have "volid (cpool_at M w) \<noteq> volid (cpool_at M v)" if "w \<in> set ?T" for w
    using new [of w] tbl_bucket [OF t that] h by auto
  then have "inj_on (\<lambda>v. volid (cpool_at M v)) (insert v (set ?T))" using t n(1) by (force simp: tbl_ok_def)
  then have "tbl_ok ?M" using t T(2) h hl unfolding tbl_ok_def T(1) by (auto simp: nth_list_update)
  moreover have "lv_inv {v. cpool_live M v} K (map fst G) ?M"
    by (rule lv_inv_pools [of _ _ _ M]) (use ok in \<open>auto simp: cm_ok_def\<close>)
  ultimately show ?thesis using ok n T(1) unfolding cm_ok_def by auto
qed

lemma cm_ok_detach:
  assumes ok: "cm_ok M R G D K" and h: "h < CACHE_POOL_HSIZE" "v \<in> set (cpool_tbl M ! h)"
  shows "cm_ok (hlist_del h v M) R G (v # D) K"
proof -
  let ?M = "hlist_del h v M" and ?T = "concat (cpool_tbl M)"
  have t: "tbl_ok M" and n: "distinct D" "set D \<inter> set ?T = {}" "{v. cpool_live M v} = set ?T \<union> set D" using ok unfolding cm_ok_def by auto
  have hl: "h < length (cpool_tbl M)" using h t by (simp add: tbl_ok_def)
  have m: "mset ?T = mset (v # concat (cpool_tbl ?M))" using concat_del [OF hl h(2)] by (simp add: hlist_del_def)
  then have T: "set ?T = insert v (set (concat (cpool_tbl ?M)))" "distinct (v # concat (cpool_tbl ?M))"
    using t mset_eq_setD [OF m] mset_eq_imp_distinct_iff [OF m] by (simp_all add: tbl_ok_def)
  have "w \<in> set (cpool_tbl M ! i)" if "w \<in> set (cpool_tbl ?M ! i)" "i < CACHE_POOL_HSIZE" for w i
    using that t set_remove1_subset [of v "cpool_tbl M ! h"] by (cases "i = h") (auto simp: hlist_del_def tbl_ok_def)
  moreover have at: "cpool_at ?M = cpool_at M" "length (cpool_tbl ?M) = length (cpool_tbl M)" by (simp_all add: hlist_del_def)
  moreover have "inj_on (\<lambda>v. volid (cpool_at M v)) (set (concat (cpool_tbl ?M)))"
    by (rule inj_on_subset [of _ "set ?T"]) (use t T(1) in \<open>auto simp: tbl_ok_def\<close>)
  ultimately have "tbl_ok ?M" using t T(2) unfolding tbl_ok_def by simp
  moreover have "lv_inv {v. cpool_live M v} K (map fst G) ?M"
    by (rule lv_inv_pools [of _ _ _ M]) (use ok in \<open>auto simp: cm_ok_def hlist_del_def\<close>)
  ultimately show ?thesis using ok n T unfolding cm_ok_def by (auto simp: hlist_del_def)
qed

lemma lv_inv_free:
  assumes inv: "lv_inv P K H M" and v: "v \<in> P"
  shows "lv_inv (P - {v}) (K \<union> set (lru_list (cpool_at M v))) H M"
proof -
  have C: "cm_cached (P - {v}) (K \<union> set (lru_list (cpool_at M v))) M = cm_cached P K M" using v by (auto simp: cm_cached_def)
  show ?thesis using inv v unfolding lv_inv_def C by blast
qed

lemma cm_ok_free:
  assumes ok: "cm_ok M R G D K" and v: "v \<in> set D" "cp_ref_cnt (cpool_at M v) = 0"
  shows "cm_ok (free_cache_pool v M) R G (remove1 v D) (K \<union> set (lru_list (cpool_at M v)))"
proof -
  let ?M = "free_cache_pool v M" and ?P = "{v. cpool_live M v}" and ?K = "K \<union> set (lru_list (cpool_at M v))"
  have M: "?M = M\<lparr>cpool_live := (cpool_live M)(v := False)\<rparr>" using v(2) by (simp add: free_cache_pool_def)
  have P: "{w. cpool_live ?M w} = ?P - {v}" by (auto simp: M)
  have live: "cpool_live M v" by (rule cm_ok_live(3) [OF ok v(1)])
  have R: "v \<notin> set R" using cm_ok_live(4) [OF ok live] v(2) by (simp add: count_list_0_iff)
  have lv: "lv_inv ?P K (map fst G) M" "tbl_ok M" "distinct D" "set D \<inter> set (concat (cpool_tbl M)) = {}" "?P = set (concat (cpool_tbl M)) \<union> set D"
    "set R \<subseteq> ?P" using ok unfolding cm_ok_def by blast+
  have "lv_inv (?P - {v}) ?K (map fst G) ?M"
    by (rule lv_inv_pools [OF lv_inv_free [OF lv(1)]]) (use live in \<open>auto simp: M\<close>)
  moreover have "tbl_ok ?M" by (rule tbl_ok_pools [OF lv(2)]) (auto simp: M)
  moreover have "?P - {v} = set (concat (cpool_tbl ?M)) \<union> set (remove1 v D)" "set (remove1 v D) \<inter> set (concat (cpool_tbl ?M)) = {}"
    using lv(3,4,5) v(1) by (auto simp: M)
  moreover have "cp_ref_cnt (cpool_at ?M w) = int (count_list R w)" if "cpool_live ?M w" for w
    using cm_ok_live(4) [OF ok, of w] that by (auto simp: M split: if_splits)
  ultimately show ?thesis using ok R lv(3,6) unfolding cm_ok_def P by (auto simp: M)
qed

text \<open>What adding to the table does.\<close>

lemma find_pool_eq:
  assumes "find_cache_pool_nolock vid head M = (Some w, M1)"
  shows "w \<in> set head" "volid (cpool_at M w) = vid" "M1 = cpool_inc w M"
  using assms by (auto simp: find_cache_pool_nolock_def find_Some_iff split: option.splits)

lemma find_pool_none:
  "find_cache_pool_nolock vid head M = (None, M1) \<longleftrightarrow> M1 = M \<and> (\<forall>w \<in> set head. volid (cpool_at M w) \<noteq> vid)"
proof -
  have "find (\<lambda>v. volid (cpool_at M v) = vid) head = None \<longleftrightarrow> (\<forall>w \<in> set head. volid (cpool_at M w) \<noteq> vid)" by (auto simp: find_None_iff)
  then show ?thesis by (cases "find (\<lambda>v. volid (cpool_at M v) = vid) head") (auto simp: find_cache_pool_nolock_def)
qed

lemma add_to_tbl_cases:
  assumes ok: "cm_ok M R G D K" and v: "\<not> cpool_live M v" and a: "add_to_tbl v (cpool_new v vid cap M) = (ret, M')"
  shows "ret = 0 \<and> cm_ok M' R G D K \<or>
    ret = - EEXIST \<and> (\<exists>w. find_cache_pool vid M = (Some w, cpool_inc w M) \<and> M' = cpool_inc w (cpool_new v vid cap M) \<and> cm_ok M' (w # R) G (v # D) K)"
proof -
  let ?M = "cpool_new v vid cap M" and ?b = "cpool_tbl M ! cpool_hash vid"
  have s: "cpool_tbl ?M = cpool_tbl M" "volid (cpool_at ?M v) = vid" "\<And>w. w \<noteq> v \<Longrightarrow> cpool_at ?M w = cpool_at M w"
    by (simp_all add: cpool_new_def cache_pool_new_def)
  have new: "cm_ok ?M R G (v # D) K" by (rule cm_ok_new [OF ok v])
  have t: "tbl_ok M" "set (concat (cpool_tbl M)) \<subseteq> {v. cpool_live M v}" using ok unfolding cm_ok_def by blast+
  have bt: "w \<in> set (concat (cpool_tbl M))" if "w \<in> set ?b" for w
    using that t(1) hash_less [of vid] unfolding in_concat_nth tbl_ok_def by auto
  then have b: "w \<noteq> v" if "w \<in> set ?b" for w using that t(2) v by blast
  obtain f M1 where f: "find_cache_pool_nolock vid ?b ?M = (f, M1)" by (metis prod.exhaust)
  show ?thesis
  proof (cases f)
    case None
    have M': "ret = 0" "M' = ?M\<lparr>cpool_tbl := (cpool_tbl ?M)[cpool_hash vid := v # cpool_tbl ?M ! cpool_hash vid]\<rparr>"
      using a f None find_pool_none [of vid ?b ?M M1] by (auto simp: add_to_tbl_def s Let_def)
    have "cm_ok M' R G D K" unfolding M'(2)
      by (rule cm_ok_publish [OF new]) (use f None find_pool_none [of vid ?b ?M M1] in \<open>auto simp: s\<close>)
    with M' show ?thesis by simp
  next
    case (Some w)
    note F = find_pool_eq [OF f [unfolded Some]]
    have w: "w \<noteq> v" "w \<in> set (concat (cpool_tbl M))" using F(1) b bt by blast+
    have "find (\<lambda>x. volid (cpool_at M x) = vid) ?b = find (\<lambda>x. volid (cpool_at ?M x) = vid) ?b"
      by (rule find_cong) (use b s in auto)
    then have "find_cache_pool vid M = (Some w, cpool_inc w M)"
      using f Some by (auto simp: find_cache_pool_def find_cache_pool_nolock_def split: option.splits)
    moreover have "ret = - EEXIST" "M' = cpool_inc w ?M" using a f Some F(3) by (auto simp: add_to_tbl_def s Let_def)
    moreover have "cm_ok (cpool_inc w ?M) (w # R) G (v # D) K"
      by (rule cm_ok_inc [OF new]) (use cm_ok_live(2) [OF new, of w] w s(1) in auto)
    ultimately show ?thesis by blast
  qed
qed

lemma cm_reach_ok: "cm_reach M R G D K \<Longrightarrow> cm_ok M R G D K"
proof (induction rule: cm_reach.induct)
  case (start mem M)
  then have "M = \<lparr>cpool_tbl = replicate CACHE_POOL_HSIZE [], cpool_at = \<lambda>_. cache_pool_new 0 0 0, cpool_live = \<lambda>_. False, cpool_mem = mem\<lparr>tree_leaf_cnt := 0\<rparr>\<rparr>"
    by (simp add: init_cacheMgr_def)
  with start(1) show ?case by (simp add: cm_ok_def tbl_ok_def lv_inv_def cm_cached_def)
next
  case (acquire M R G D K v)
  then show ?case by (blast intro: cm_ok_inc cm_ok_live)
next
  case (release M R G D K v)
  then show ?case by (blast intro: cm_ok_dec)
next
  case (find M R G D K v first cnt r basket p mem)
  then show ?case by (blast intro: cm_ok_find)
next
  case (put M R G l k d G' D K v)
  then show ?case unfolding on_cpool_put by (blast intro: cm_ok_put)
next
  case (update M R G D K v allocs first ds)
  then show ?case unfolding on_cpool_eq by (intro cm_ok_keep) (auto dest: cache_update_frame)
next
  case (invalidate M R G D K v first cnt)
  show ?case unfolding on_cpool_eq snd_conv
    by (rule cm_ok_keep [OF invalidate.IH invalidate.hyps(2)])
      (use invalidate_loop_spec [of _ _ "(cpool_at M v, cpool_mem M)"] invalidate_frame cp_frame_UNIV in blast)
next
  case (kick M R G D K v c cmp)
  have "op_frame F (cpool_at M v, cpool_mem M) (snd (kick_meta_cache_pool c cmp (cpool_at M v, cpool_mem M)))"
    if "cp_inv F H (cpool_at M v, cpool_mem M)" for F H by (rule kick_frame) (use cp_invD(7) [OF that] in auto)
  then show ?case unfolding on_cpool_eq
    by (intro cm_ok_keep [OF kick.IH kick.hyps(2)]) (use kick_any_spec cp_frame_UNIV in blast)
next
  case (create M R G D K v vid cap M')
  from add_to_tbl_cases [OF create.IH create.hyps(2,3)] show ?case by (auto simp: EEXIST_def)
next
  case (create_dup M R G D K v vid cap M' w M1)
  from add_to_tbl_cases [OF create_dup.IH create_dup.hyps(2,3)] create_dup.hyps(4) show ?case by (auto simp: EEXIST_def)
qed (blast intro: cm_ok_resize cm_ok_detach cm_ok_free)+

end
