(* ===== verification/Cache_Mgr_Props.thy ===== *)
theory Cache_Mgr_Props
  imports Cache_Safe
begin

text \<open>
  What the cache manager promises.  Every function of its interface is a run of the steps of \<^verbatim>\<open>Cache_Safe\<close>, so what holds for all
  interleavings of the steps holds for all interleavings of callers; the cache items are shared out within the configured limit.
\<close>

subsection \<open>The table stays\<close>

lemma cpool_simps [simp]:
  "cpool_tbl (cpool_inc v M) = cpool_tbl M" "cpool_tbl (cpool_dec v M) = cpool_tbl M" "cpool_tbl (upd_cpool v f M) = cpool_tbl M"
  "cpool_tbl (snd (on_cpool v g M)) = cpool_tbl M" "cpool_tbl (free_cache_pool v M) = cpool_tbl M"
  by (simp_all add: cpool_inc_def cpool_dec_def upd_cpool_def on_cpool_eq free_cache_pool_def)

lemma on_cpool_tbl: "on_cpool v g M = (r, M') \<Longrightarrow> cpool_tbl M' = cpool_tbl M"
  using cpool_simps(4) [of v g M] by simp

lemma kick_retry_tbl [simp]: "cpool_tbl (kick_retry j ret v M) = cpool_tbl M"
proof (induction j arbitrary: ret M)
  case (Suc j)
  obtain r M' where "on_cpool v (kick_meta_cache_pool (-1) None) M = (r, M')" by (metis prod.exhaust)
  with on_cpool_tbl [OF this] Suc show ?case by simp
qed simp

lemma kick_allpool_tbl [simp]: "cpool_tbl (kick_allpool_loop cmp vs M) = cpool_tbl M"
proof (induction vs arbitrary: M)
  case (Cons v vs)
  obtain r M' where "on_cpool v (kick_meta_cache_pool (-1) cmp) (cpool_inc v M) = (r, M')" by (metis prod.exhaust)
  with on_cpool_tbl [OF this] Cons show ?case by simp
qed simp

text \<open>The loop at module unload removes a pool in every round, so it ends.\<close>

lemma first_pool_in: "first_pool h bs = Some (i, v) \<Longrightarrow> \<exists>j. i = h + j \<and> j < length bs \<and> v \<in> set (bs ! j)"
proof (induction h bs rule: first_pool.induct)
  case (2 h bs)
  then obtain j where "i = h + 1 + j" "j < length bs" "v \<in> set (bs ! j)" by auto
  then show ?case by (intro exI [of _ "Suc j"]) simp
qed auto

lemma rm_first_pool_tbl: "cpool_tbl (rm_first_pool h v M) = cpool_tbl (hlist_del h v M)"
  by (simp add: rm_first_pool_def on_cpool_eq [symmetric] Let_def split_beta)

function rm_all_cache_pool_tbl :: "cpool_manager_t \<Rightarrow> cpool_manager_t" where
  "rm_all_cache_pool_tbl M =
     (case first_pool 0 (cpool_tbl M) of
        None \<Rightarrow> M
      | Some (h, v) \<Rightarrow> rm_all_cache_pool_tbl (rm_first_pool h v M))"
  by pat_completeness auto
termination
proof (relation "measure (\<lambda>M. length (concat (cpool_tbl M)))", simp)
  fix M :: cpool_manager_t and hv :: "nat \<times> nat" and h v
  assume a: "first_pool 0 (cpool_tbl M) = Some hv" "(h, v) = hv"
  then have "h < length (cpool_tbl M)" "v \<in> set (cpool_tbl M ! h)" using first_pool_in [of 0 "cpool_tbl M" h v] by auto
  from arg_cong [OF concat_del [OF this], of size]
  show "(rm_first_pool h v M, M) \<in> measure (\<lambda>M. length (concat (cpool_tbl M)))"
    by (simp add: rm_first_pool_tbl hlist_del_def)
qed

declare rm_all_cache_pool_tbl.simps [simp del]

definition cacheMgr_rel_manager :: "cpool_manager_t \<Rightarrow> cpool_manager_t" where
  "cacheMgr_rel_manager M = rm_all_cache_pool_tbl M"

subsection \<open>The interface in terms of the steps\<close>

lemma reach_find_pool:
  assumes "cm_reach M R G D K" "find_cache_pool vid M = (Some v, M1)"
  shows "cm_reach M1 (v # R) G D K" "volid (cpool_at M v) = vid" "v \<in> set (concat (cpool_tbl M))"
proof -
  note F = find_pool_eq [OF assms(2) [unfolded find_cache_pool_def]]
  have "tbl_ok M" using cm_reach_ok [OF assms(1)] by (simp add: cm_ok_def)
  then show v: "v \<in> set (concat (cpool_tbl M))" using F(1) hash_less [of vid] unfolding in_concat_nth by (auto simp: tbl_ok_def)
  show "cm_reach M1 (v # R) G D K" "volid (cpool_at M v) = vid" using cm_reach.acquire [OF assms(1) v] F(2,3) by simp_all
qed

lemma find_pool_unchanged: "find_cache_pool vid M = (None, M1) \<Longrightarrow> M1 = M"
  by (simp add: find_cache_pool_def find_pool_none)

lemma reach_kick_retry: "cm_reach M R G D K \<Longrightarrow> v \<in> set R \<Longrightarrow> cm_reach (kick_retry j ret v M) R G D K"
proof (induction j arbitrary: ret M)
  case (Suc j)
  obtain r M' where k: "on_cpool v (kick_meta_cache_pool (-1) None) M = (r, M')" by (metis prod.exhaust)
  from cm_reach.kick [OF Suc.prems, of "-1" None] Suc k show ?case by simp
qed simp

text \<open>Kick and retry, by a thread with a reference that it then gives back.\<close>

lemma reach_kick_release:
  assumes "cm_reach M (v # R) G D K" "on_cpool v (kick_meta_cache_pool c cmp) M = (ret, M1)"
  shows "cm_reach (cpool_dec v (kick_retry j ret v M1)) R G D K"
proof -
  have "cm_reach M1 (v # R) G D K" using cm_reach.kick [OF assms(1), of v c cmp] assms(2) by simp
  from cm_reach.release [OF reach_kick_retry [OF this, of v], of v] show ?thesis by simp
qed

lemma reach_kick_allpool:
  "cm_reach M R G D K \<Longrightarrow> set vs \<subseteq> set (concat (cpool_tbl M)) \<Longrightarrow> cm_reach (kick_allpool_loop cmp vs M) R G D K"
proof (induction vs arbitrary: M)
  case (Cons v vs)
  obtain ret M1 where k: "on_cpool v (kick_meta_cache_pool (-1) cmp) (cpool_inc v M) = (ret, M1)" by (metis prod.exhaust)
  have "cm_reach (cpool_inc v M) (v # R) G D K" using Cons.prems by (intro cm_reach.acquire) auto
  from reach_kick_release [OF this k] show ?case using Cons.IH Cons.prems k on_cpool_tbl [OF k] by simp
qed simp

lemma reach_kick_meta_cache: "cm_reach M R G D K \<Longrightarrow> cm_reach (kick_meta_cache vid c cmp M) R G D K"
proof (cases "vid = -1")
  case False
  assume r: "cm_reach M R G D K"
  obtain f M1 where f: "find_cache_pool vid M = (f, M1)" by (metis prod.exhaust)
  show ?thesis
  proof (cases f)
    case None
    then show ?thesis using r f find_pool_unchanged [of vid M M1] False by (simp add: kick_meta_cache_def)
  next
    case (Some v)
    obtain ret M2 where k: "on_cpool v (kick_meta_cache_pool c cmp) M1 = (ret, M2)" by (metis prod.exhaust)
    from reach_kick_release [OF reach_find_pool(1) [OF r f [unfolded Some]] k] show ?thesis using f Some k False by (simp add: kick_meta_cache_def)
  qed
qed (simp add: kick_meta_cache_def cache_kick_allpool_def reach_kick_allpool)

lemma reach_with_pool:
  assumes "cm_reach M R G D K" "find_cache_pool vid M = (Some v, M1)" "cm_reach M1 (v # R) G D K \<Longrightarrow> cm_reach M2 (v # R) G' D K"
  shows "cm_reach (cpool_dec v M2) R G' D K"
  using cm_reach.release [OF assms(3) [OF reach_find_pool(1) [OF assms(1,2)]], of v] by simp

lemma reach_invalidate_volLB:
  assumes "cm_reach M R G D K"
  shows "cm_reach (cache_invalidate_volLB vid first n M) R G D K"
proof (cases "fst (find_cache_pool vid M)")
  case None
  then show ?thesis using assms find_pool_unchanged [of vid M] by (cases "find_cache_pool vid M") (simp add: cache_invalidate_volLB_def)
next
  case (Some v)
  then obtain M1 where f: "find_cache_pool vid M = (Some v, M1)" by (metis prod.collapse)
  show ?thesis unfolding cache_invalidate_volLB_def f prod.case option.case
    by (rule reach_with_pool [OF assms f]) (simp add: cm_reach.invalidate)
qed

lemma reach_cache_invalidate: "cm_reach M R G D K \<Longrightarrow> cm_reach (snd (cache_invalidate type vid first n cmp M)) R G D K"
  by (cases type) (auto simp: cache_invalidate_def intro: reach_kick_meta_cache reach_invalidate_volLB)

lemma reach_cache_update:
  assumes "cm_reach M R G D K"
    and "\<And>v M1. find_cache_pool vid M = (Some v, M1) \<Longrightarrow>
      allocs_fresh allocs first ds (cache_reclaim (of_nat (length ds)) (cpool_at M1 v, cpool_mem M1))"
  shows "cm_reach (snd (cache_update allocs vid first ds M)) R G D K"
proof (cases "fst (find_cache_pool vid M)")
  case None
  then show ?thesis using assms find_pool_unchanged [of vid M] by (cases "find_cache_pool vid M") (simp add: cache_update_def)
next
  case (Some v)
  then obtain M1 where f: "find_cache_pool vid M = (Some v, M1)" by (metis prod.collapse)
  have "cm_reach (cpool_dec v (snd (on_cpool v (cache_update_pool allocs first ds) M1))) R G D K"
    by (rule reach_with_pool [OF assms(1) f]) (simp add: cm_reach.update assms(2) [OF f])
  then show ?thesis by (simp add: cache_update_def f split_beta)
qed

lemma reach_cache_find:
  assumes r: "cm_reach M R G D K" and n: "unat first + unat n < 2 ^ 64" "length G + unat n < 2 ^ 31"
    and f: "cache_find vid first n b M = Some (ret, basket, M')"
  shows "ret = - ENOENT \<and> basket = b \<and> M' = M \<or>
    cm_reach M' R (map (\<lambda>l. (l, blkid (leaf_at (cpool_mem M') l), leaf_data (leaf_at (cpool_mem M') l))) (basket_leaves basket) @ G) D K"
proof (cases "fst (find_cache_pool vid M)")
  case None
  then show ?thesis using f find_pool_unchanged [of vid M] by (cases "find_cache_pool vid M") (auto simp: cache_find_def)
next
  case (Some v)
  then obtain M1 where v: "find_cache_pool vid M = (Some v, M1)" by (metis prod.collapse)
  obtain p mem where c: "cache_find_pool first (unat n) (cpool_at M1 v, cpool_mem M1) = Some (ret, basket, p, mem)"
    "M' = cpool_dec v (M1\<lparr>cpool_at := (cpool_at M1)(v := p), cpool_mem := mem\<rparr>)"
    using f v by (auto simp: cache_find_def split: option.splits)
  have "cpool_mem M' = mem" by (simp add: c(2) cpool_dec_def upd_cpool_def)
  moreover have "cm_reach M' R (map (\<lambda>l. (l, blkid (leaf_at mem l), leaf_data (leaf_at mem l))) (basket_leaves basket) @ G) D K"
    unfolding c(2) by (rule reach_with_pool [OF r v]) (rule cm_reach.find [OF _ _ n c(1)], simp_all)
  ultimately show ?thesis by simp
qed

text \<open>A reader gives back a whole basket.\<close>

lemma put_loop_Cons: "put_loop (Some l # b) mem = put_loop b (put_loop [Some l] mem)"
  by (simp add: Let_def)

lemma reach_put_basket:
  "cm_reach M R (map (\<lambda>l. (l, key l, item l)) (basket_leaves b) @ G) D K \<Longrightarrow> v \<in> set R \<Longrightarrow>
   cm_reach (M\<lparr>cpool_mem := put_loop b (cpool_mem M)\<rparr>) R G D K"
proof (induction b arbitrary: M)
  case (Cons x b)
  show ?case
  proof (cases x)
    case None
    then show ?thesis using Cons by (simp add: basket_leaves_def)
  next
    case (Some l)
    have "cm_reach M R ([] @ (l, key l, item l) # map (\<lambda>l. (l, key l, item l)) (basket_leaves b) @ G) D K"
      using Cons.prems(1) Some by (simp add: basket_leaves_def)
    from cm_reach.put [OF this Cons.prems(2)] Cons.IH [of "M\<lparr>cpool_mem := put_loop [Some l] (cpool_mem M)\<rparr>"] Cons.prems(2)
    show ?thesis unfolding Some on_cpool_put put_loop_Cons [of l b] by simp
  qed
qed (simp add: basket_leaves_def)

lemma reach_cache_put:
  assumes "cm_reach M R (map (\<lambda>l. (l, key l, item l)) (basket_leaves b) @ G) D K" "find_cache_pool vid M = (Some v, M1)"
  shows "cm_reach (snd (cache_put vid b M)) R G D K"
proof -
  have "cm_reach (cpool_dec v (M1\<lparr>cpool_mem := put_loop b (cpool_mem M1)\<rparr>)) R G D K"
    by (rule reach_with_pool [OF assms]) (rule reach_put_basket [of _ "v # R" key item b G D K v], simp_all)
  then show ?thesis using assms(2) by (simp add: cache_put_def on_cpool_put)
qed

text \<open>Shrinking a pool is a kick or nothing.\<close>

lemma reach_shrink:
  assumes r: "cm_reach M R G D K" and v: "v \<in> set R" and g: "\<And>st. snd (g st) = st \<or> (\<exists>c. snd (g st) = snd (kick_meta_cache_pool c None st))"
  shows "cm_reach (snd (on_cpool v g M)) R G D K"
  using g [of "(cpool_at M v, cpool_mem M)"]
proof
  assume "snd (g (cpool_at M v, cpool_mem M)) = (cpool_at M v, cpool_mem M)"
  then have "snd (on_cpool v g M) = M" by (simp add: on_cpool_eq)
  then show ?thesis using r by simp
next
  assume "\<exists>c. snd (g (cpool_at M v, cpool_mem M)) = snd (kick_meta_cache_pool c None (cpool_at M v, cpool_mem M))"
  then obtain c where "snd (on_cpool v g M) = snd (on_cpool v (kick_meta_cache_pool c None) M)" by (auto simp: on_cpool_eq)
  then show ?thesis using cm_reach.kick [OF r v] by simp
qed

lemma reach_resize:
  assumes "cm_reach M R G D K" "v \<in> set (concat (cpool_tbl M))" "\<And>st. snd (g st) = st \<or> (\<exists>c. snd (g st) = snd (kick_meta_cache_pool c None st))"
  shows "cm_reach (resize_cpool v sz g M) R G D K" "cm_reach (cpool_dec v (cpool_inc v M)) R G D K"
proof -
  have a: "cm_reach (cpool_inc v M) (v # R) G D K" by (rule cm_reach.acquire [OF assms(1,2)])
  have "cm_reach (snd (on_cpool v g (upd_cpool v (\<lambda>p. p\<lparr>cache_size := sz\<rparr>) (cpool_inc v M)))) (v # R) G D K"
    by (intro reach_shrink cm_reach.resize [OF a] assms(3)) simp_all
  from cm_reach.release [OF this, of v] cm_reach.release [OF a, of v]
  show "cm_reach (resize_cpool v sz g M) R G D K" "cm_reach (cpool_dec v (cpool_inc v M)) R G D K" by (simp_all add: resize_cpool_def)
qed

lemma shrink_kick:
  "snd (shrink_smallVol st) = st \<or> (\<exists>c. snd (shrink_smallVol st) = snd (kick_meta_cache_pool c None st))"
  "snd (shrink_largeVol need st) = st \<or> (\<exists>c. snd (shrink_largeVol need st) = snd (kick_meta_cache_pool c None st))"
  by (auto simp: shrink_smallVol_def shrink_largeVol_def Let_def)

lemma resize_tbl [simp]: "cpool_tbl (resize_cpool v sz g M) = cpool_tbl M"
  by (simp add: resize_cpool_def)

lemma reach_smallVol:
  "cm_reach M R G D K \<Longrightarrow> set vs \<subseteq> set (concat (cpool_tbl M)) \<Longrightarrow> alloc_smallVol_loop small vs lft need M = (lft', need', M') \<Longrightarrow>
   cm_reach M' R G D K \<and> cpool_tbl M' = cpool_tbl M"
proof (induction vs arbitrary: lft need M)
  case (Cons v vs)
  have v: "v \<in> set (concat (cpool_tbl M))" "set vs \<subseteq> set (concat (cpool_tbl M))" using Cons.prems(2) by simp_all
  note r = reach_resize [OF Cons.prems(1) v(1) shrink_kick(1)]
  show ?case using Cons.IH [OF r(1)] Cons.IH [OF r(2)] Cons.prems(3) v(2) by (auto split: if_splits prod.splits)
qed simp

lemma reach_largeVol:
  "cm_reach M R G D K \<Longrightarrow> set vs \<subseteq> set (concat (cpool_tbl M)) \<Longrightarrow> cm_reach (alloc_largeVol_loop mc small need vs lft M) R G D K"
proof (induction vs arbitrary: lft M)
  case (Cons v vs)
  have v: "v \<in> set (concat (cpool_tbl M))" "set vs \<subseteq> set (concat (cpool_tbl M))" using Cons.prems(2) by simp_all
  note r = reach_resize [OF Cons.prems(1) v(1) shrink_kick(2)]
  show ?case using Cons.IH [OF r(1)] Cons.IH [OF r(2)] v(2) by (auto split: prod.splits)
qed simp

lemma reach_update_size: "cm_reach M R G D K \<Longrightarrow> cm_reach (update_cache_pool_size cfg M) R G D K"
proof -
  assume r: "cm_reach M R G D K"
  obtain lft need M1 where s: "alloc_cachePoolSize_smallVol (max_meta_cache_sizes cfg) (max_cap_cache_all_hit cfg) M = (lft, need, M1)"
    by (metis prod_cases3)
  have "cm_reach M1 R G D K" using reach_smallVol [OF r subset_refl s [unfolded alloc_cachePoolSize_smallVol_def]] by blast
  then show ?thesis by (simp add: update_cache_pool_size_def s alloc_cachePoolSize_largeVol_def reach_largeVol)
qed

text \<open>Pools outside the table are not touched.\<close>

lemma pool_other [simp]:
  "x \<noteq> v \<Longrightarrow> cpool_at (cpool_inc v M) x = cpool_at M x" "x \<noteq> v \<Longrightarrow> cpool_at (cpool_dec v M) x = cpool_at M x"
  "x \<noteq> v \<Longrightarrow> cpool_at (upd_cpool v f M) x = cpool_at M x" "x \<noteq> v \<Longrightarrow> cpool_at (snd (on_cpool v g M)) x = cpool_at M x"
  by (simp_all add: cpool_inc_def cpool_dec_def upd_cpool_def on_cpool_eq)

lemma resize_other [simp]: "x \<noteq> v \<Longrightarrow> cpool_at (resize_cpool v sz g M) x = cpool_at M x"
  by (simp add: resize_cpool_def)

lemma smallVol_other:
  "x \<notin> set vs \<Longrightarrow> alloc_smallVol_loop small vs lft need M = (lft', need', M') \<Longrightarrow> cpool_at M' x = cpool_at M x \<and> cpool_tbl M' = cpool_tbl M"
  by (induction vs arbitrary: lft need M) (auto split: if_splits prod.splits)

lemma largeVol_other: "x \<notin> set vs \<Longrightarrow> cpool_at (alloc_largeVol_loop mc small need vs lft M) x = cpool_at M x"
  by (induction vs arbitrary: lft M) (auto split: prod.splits)

lemma update_size_other:
  assumes "x \<notin> set (concat (cpool_tbl M))"
  shows "cpool_at (update_cache_pool_size cfg M) x = cpool_at M x"
proof -
  obtain lft need M1 where s: "alloc_smallVol_loop (max_cap_cache_all_hit cfg) (concat (cpool_tbl M)) (max_meta_cache_sizes cfg) 0 M = (lft, need, M1)"
    by (metis prod_cases3)
  from smallVol_other [OF assms s] assms show ?thesis
    by (simp add: update_cache_pool_size_def alloc_cachePoolSize_smallVol_def s alloc_cachePoolSize_largeVol_def largeVol_other)
qed

lemma add_to_tbl_new:
  assumes r: "cm_reach M R G D K" and v: "\<not> cpool_live M v" and a: "add_to_tbl v (cpool_new v vid cap M) = (0, M')"
  shows "fst (find_cache_pool vid M) = None"
proof (rule ccontr)
  assume "fst (find_cache_pool vid M) \<noteq> None"
  then obtain w where w: "find_cache_pool vid M = (Some w, cpool_inc w M)"
    using find_pool_eq(3) [of vid "cpool_tbl M ! cpool_hash vid" M] by (cases "find_cache_pool vid M") (auto simp: find_cache_pool_def)
  have "w \<in> set (cpool_tbl M ! cpool_hash vid)" "volid (cpool_at M w) = vid" using find_pool_eq [OF w [unfolded find_cache_pool_def]] by simp_all
  moreover have "w \<noteq> v" using reach_find_pool(3) [OF r w] cm_ok_live(2) [OF cm_reach_ok [OF r]] v by blast
  ultimately have "\<exists>x \<in> set (cpool_tbl M ! cpool_hash vid). volid (cpool_at (cpool_new v vid cap M) x) = vid" by (auto simp: cpool_new_def)
  then have "fst (find_cache_pool_nolock vid (cpool_tbl M ! cpool_hash vid) (cpool_new v vid cap M)) \<noteq> None"
    using find_pool_none [of vid "cpool_tbl M ! cpool_hash vid" "cpool_new v vid cap M"] by (metis prod.collapse)
  then have "fst (add_to_tbl v (cpool_new v vid cap M)) = - EEXIST"
    by (auto simp: add_to_tbl_def Let_def cpool_new_def cache_pool_new_def split: prod.splits option.splits)
  then show False using a by (simp add: EEXIST_def)
qed

lemma reach_create_pool:
  assumes r: "cm_reach M R G D K" and v: "\<And>v. alloc = Some v \<Longrightarrow> \<not> cpool_live M v"
  shows "\<exists>R'. cm_reach (snd (cacheMgr_create_pool cfg alloc vid cap M)) R' G D K \<and>
    (R' = R \<and> (alloc = None \<or> fst (find_cache_pool vid M) = None) \<or> (\<exists>w. fst (find_cache_pool vid M) = Some w \<and> R' = w # R))"
proof (cases alloc)
  case None
  then show ?thesis using r by (auto simp: cacheMgr_create_pool_def)
next
  case (Some v)
  have nl: "\<not> cpool_live M v" by (rule v [OF Some])
  obtain ret M1 where a: "add_to_tbl v (cpool_new v vid cap M) = (ret, M1)" by (metis prod.exhaust)
  show ?thesis
    using add_to_tbl_cases [OF cm_reach_ok [OF r] nl a]
  proof (elim disjE conjE exE)
    assume "ret = 0"
    then have "cm_reach (update_cache_pool_size cfg M1) R G D K" using cm_reach.create [OF r nl] a reach_update_size by blast
    moreover have "fst (find_cache_pool vid M) = None" by (rule add_to_tbl_new [OF r nl a [unfolded \<open>ret = 0\<close>]])
    ultimately show ?thesis using Some a \<open>ret = 0\<close> by (auto simp: cacheMgr_create_pool_def add_cache_pool_tbl_def)
  next
    fix w
    assume e: "ret = - EEXIST" "find_cache_pool vid M = (Some w, cpool_inc w M)" "M1 = cpool_inc w (cpool_new v vid cap M)"
    let ?M = "update_cache_pool_size cfg M1"
    have r1: "cm_reach ?M (w # R) G (v # D) K" using cm_reach.create_dup [OF r nl _ e(2)] a e(1) reach_update_size by blast
    have t: "w \<in> set (concat (cpool_tbl M))" by (rule reach_find_pool(3) [OF r e(2)])
    have n: "v \<notin> set (concat (cpool_tbl M))" "w \<noteq> v" using cm_ok_live(2) [OF cm_reach_ok [OF r]] nl t by blast+
    have "cpool_tbl M1 = cpool_tbl M" by (simp add: e(3) cpool_new_def)
    then have "cpool_at ?M v = cpool_at (cpool_new v vid cap M) v" using update_size_other [of v M1 cfg] n by (simp add: e(3))
    then have "cp_ref_cnt (cpool_at ?M v) = 0" "lru_list (cpool_at ?M v) = []" by (simp_all add: cpool_new_def cache_pool_new_def)
    with cm_reach.free [OF r1, of v] have "cm_reach (free_cache_pool v ?M) (w # R) G D K" by simp
    then show ?thesis using Some a e(1,2) by (auto simp: cacheMgr_create_pool_def add_cache_pool_tbl_def EEXIST_def)
  qed
qed

lemma reach_free: "cm_reach M R G D K \<Longrightarrow> v \<in> set D \<Longrightarrow> \<exists>D' K'. cm_reach (free_cache_pool v M) R G D' K'"
  using cm_reach.free [of M R G D K v] by (cases "cp_ref_cnt (cpool_at M v) = 0") (auto simp: free_cache_pool_def)

lemma hlist_del_inc: "hlist_del h v (cpool_inc v M) = cpool_inc v (hlist_del h v M)"
  by (simp add: hlist_del_def cpool_inc_def upd_cpool_def)

lemma reach_rel_pool:
  assumes "cm_reach M R G D K"
  shows "\<exists>D' K'. cm_reach (snd (cacheMgr_rel_pool cfg vid M)) R G D' K'"
proof -
  let ?M = "kick_meta_cache vid (-1) None M"
  have r: "cm_reach ?M R G D K" by (rule reach_kick_meta_cache [OF assms])
  obtain f M1 where f: "find_cache_pool vid ?M = (f, M1)" by (metis prod.exhaust)
  show ?thesis
  proof (cases f)
    case None
    then show ?thesis using r f find_pool_unchanged [of vid ?M M1]
      by (auto simp: cacheMgr_rel_pool_def rm_cache_pool_tbl_def find_cache_pool_def [symmetric])
  next
    case (Some v)
    note F = find_pool_eq [OF f [unfolded find_cache_pool_def Some]]
    have "v \<in> set (cpool_tbl M1 ! cpool_hash vid)" using F(1,3) by simp
    from cm_reach.detach [OF reach_find_pool(1) [OF r f [unfolded Some]] hash_less this]
    have "cm_reach (cpool_dec v (hlist_del (cpool_hash vid) v M1)) R G (v # D) K" using cm_reach.release [of _ "v # R" G "v # D" K v] by simp
    from reach_free [OF this, of v] obtain D' K' where "cm_reach (free_cache_pool v (cpool_dec v (hlist_del (cpool_hash vid) v M1))) R G D' K'" by auto
    from reach_update_size [OF this] show ?thesis using f Some
      by (auto simp: cacheMgr_rel_pool_def rm_cache_pool_tbl_def find_cache_pool_def [symmetric])
  qed
qed

lemma reach_rm_first_pool:
  assumes r: "cm_reach M R G D K" and f: "first_pool 0 (cpool_tbl M) = Some (h, v)"
  shows "\<exists>D' K'. cm_reach (rm_first_pool h v M) R G D' K'"
proof -
  have h: "h < length (cpool_tbl M)" "v \<in> set (cpool_tbl M ! h)" using first_pool_in [OF f] by auto
  then have hs: "h < CACHE_POOL_HSIZE" using cm_reach_ok [OF r] by (simp add: cm_ok_def tbl_ok_def)
  have "v \<in> set (concat (cpool_tbl M))" unfolding in_concat_nth using h by blast
  from cm_reach.detach [OF cm_reach.acquire [OF r this] hs, of v] h(2)
  have a: "cm_reach (cpool_inc v (hlist_del h v M)) (v # R) G (v # D) K" by (simp add: hlist_del_inc)
  obtain ret M2 where k: "on_cpool v (kick_meta_cache_pool (-1) None) (cpool_inc v (hlist_del h v M)) = (ret, M2)" by (metis prod.exhaust)
  from reach_free [OF reach_kick_release [OF a k], of v] show ?thesis by (simp add: rm_first_pool_def Let_def k)
qed

lemma first_pool_none: "first_pool h bs = None \<longleftrightarrow> concat bs = []"
  by (induction h bs rule: first_pool.induct) auto

lemma reach_rel_manager:
  "cm_reach M R G D K \<Longrightarrow> \<exists>D' K'. cm_reach (cacheMgr_rel_manager M) R G D' K' \<and> concat (cpool_tbl (cacheMgr_rel_manager M)) = []"
  unfolding cacheMgr_rel_manager_def
proof (induction M arbitrary: D K rule: rm_all_cache_pool_tbl.induct)
  case (1 M)
  show ?case
  proof (cases "first_pool 0 (cpool_tbl M)")
    case None
    then have "rm_all_cache_pool_tbl M = M" by (simp add: rm_all_cache_pool_tbl.simps [of M])
    moreover have "concat (cpool_tbl M) = []" using None by (simp only: first_pool_none)
    ultimately show ?thesis using "1.prems" by metis
  next
    case (Some hv)
    then obtain h v where hv: "first_pool 0 (cpool_tbl M) = Some (h, v)" by (cases hv) auto
    have "rm_all_cache_pool_tbl M = rm_all_cache_pool_tbl (rm_first_pool h v M)" by (simp add: rm_all_cache_pool_tbl.simps [of M] hv)
    with reach_rm_first_pool [OF "1.prems" hv] "1.IH" [OF hv refl] show ?thesis by metis
  qed
qed

subsection \<open>No use after free\<close>

text \<open>
  (C8) Pools and leaves are not used after they are freed.  In every interleaving of threads that look up, use, resize and give back
  pools, walk over the table, create and remove pools and free removed pools: every pool that a thread has a reference to is
  allocated; a pool is allocated exactly when it is in the table or was removed and not yet freed; its reference count is the number
  of references; no two pools share a leaf; a leaf that a reader holds is allocated and still has the key and the item it was found with,
  also when its pool is gone; and the allocated leaves are those cached in a pool, held by a reader, or left in a pool that was freed.
\<close>

theorem cache_mgr_safe:
  assumes "cm_reach M R G D K"
  shows "(\<forall>v \<in> set R. cpool_live M v) \<and> {v. cpool_live M v} = set (concat (cpool_tbl M)) \<union> set D \<and>
    set (concat (cpool_tbl M)) \<inter> set D = {} \<and>
    (\<forall>v. cpool_live M v \<longrightarrow> cp_ref_cnt (cpool_at M v) = int (count_list R v)) \<and>
    (\<forall>v w. cpool_live M v \<and> cpool_live M w \<and> v \<noteq> w \<longrightarrow> set (lru_list (cpool_at M v)) \<inter> set (lru_list (cpool_at M w)) = {}) \<and>
    (\<forall>(l, k, d) \<in> set G. leaf_live (cpool_mem M) l \<and> blkid (leaf_at (cpool_mem M) l) = k \<and> leaf_data (leaf_at (cpool_mem M) l) = d) \<and>
    {l. leaf_live (cpool_mem M) l} = (\<Union>v \<in> {v. cpool_live M v}. set (lru_list (cpool_at M v))) \<union> fst ` set G \<union> K \<and>
    cacheMgr_get_num_treeleaf M = int (card {l. leaf_live (cpool_mem M) l})"
proof -
  have ok: "cm_ok M R G D K" by (rule cm_reach_ok [OF assms])
  let ?P = "{v. cpool_live M v}" and ?C = "cm_cached {v. cpool_live M v} K M"
  have lv: "lv_inv ?P K (map fst G) M" using ok unfolding cm_ok_def by blast
  then have live: "leaf_live (cpool_mem M) l \<longleftrightarrow> l \<in> ?C \<union> fst ` set G" for l by (simp add: lv_inv_def)
  then have L: "{l. leaf_live (cpool_mem M) l} = ?C \<union> fst ` set G" by blast
  have 1: "\<forall>(l, k, d) \<in> set G. leaf_live (cpool_mem M) l \<and> blkid (leaf_at (cpool_mem M) l) = k \<and> leaf_data (leaf_at (cpool_mem M) l) = d"
  proof -
    have "\<forall>(l, k, d) \<in> set G. blkid (leaf_at (cpool_mem M) l) = k \<and> leaf_data (leaf_at (cpool_mem M) l) = d" using ok unfolding cm_ok_def by blast
    moreover have "leaf_live (cpool_mem M) l" if "(l, k, d) \<in> set G" for l k d using live [of l] image_eqI [of l fst, OF _ that] by simp
    ultimately show ?thesis by blast
  qed
  have 2: "cacheMgr_get_num_treeleaf M = int (card {l. leaf_live (cpool_mem M) l})"
    unfolding L cacheMgr_get_num_treeleaf_def using lv by (simp add: lv_inv_def)
  have 3: "{l. leaf_live (cpool_mem M) l} = (\<Union>v \<in> ?P. set (lru_list (cpool_at M v))) \<union> fst ` set G \<union> K"
    unfolding L by (auto simp: cm_cached_def)
  have 4: "\<forall>v w. cpool_live M v \<and> cpool_live M w \<and> v \<noteq> w \<longrightarrow> set (lru_list (cpool_at M v)) \<inter> set (lru_list (cpool_at M w)) = {}"
    using lv unfolding lv_inv_def by blast
  have 5: "\<forall>v \<in> set R. cpool_live M v" "{v. cpool_live M v} = set (concat (cpool_tbl M)) \<union> set D" "set (concat (cpool_tbl M)) \<inter> set D = {}"
    "\<forall>v. cpool_live M v \<longrightarrow> cp_ref_cnt (cpool_at M v) = int (count_list R v)" using ok unfolding cm_ok_def by blast+
  show ?thesis by (intro conjI; fact 1 2 3 4 5)
qed

definition cm_start :: cpool_manager_t where
  "cm_start = snd (init_cacheMgr True cache_mem0)"

definition cm_sample :: cpool_manager_t where
  "cm_sample = snd (add_to_tbl 1 (cpool_new 1 5 40960 cm_start))"

lemma cm_sample_add: "add_to_tbl 1 (cpool_new 1 5 40960 cm_start) = (0, cm_sample)"
  by (simp add: cm_sample_def add_to_tbl_def cm_start_def init_cacheMgr_def cpool_new_def cache_pool_new_def cpool_hash_def
      CACHE_POOL_HSIZE_def find_cache_pool_nolock_def Let_def)

lemma cm_sample_tbl: "cpool_tbl cm_sample = (replicate 257 [])[5 := [1]]"
  by (simp add: cm_sample_def add_to_tbl_def cm_start_def init_cacheMgr_def cpool_new_def cache_pool_new_def cpool_hash_def
      CACHE_POOL_HSIZE_def find_cache_pool_nolock_def Let_def)

lemma cm_sample_reach: "cm_reach cm_sample [] [] [] {}"
proof -
  have "cm_reach cm_start [] [] [] {}"
    by (rule cm_reach.start [of cache_mem0]) (simp_all add: cache_mem0_def cm_start_def init_cacheMgr_def)
  then show ?thesis by (rule cm_reach.create [OF _ _ cm_sample_add]) (simp add: cm_start_def init_cacheMgr_def)
qed

lemma cm_sample_in: "(1 :: nat) \<in> set (concat (cpool_tbl cm_sample))"
  unfolding in_concat_nth cm_sample_tbl by (intro exI [of _ 5]) simp

theorem cache_mgr_safe_witness: "cpool_live (cpool_inc 1 cm_sample) 1 \<and> cp_ref_cnt (cpool_at (cpool_inc 1 cm_sample) 1) = 1"
  using cache_mgr_safe [OF cm_reach.acquire [OF cm_sample_reach cm_sample_in]] by simp

subsection \<open>The table\<close>

text \<open>
  (C24) The table of pools is well formed in every reachable state: it has 257 buckets, no pool is in it twice, every pool is in the bucket
  of its volume, and there is at most one pool for a volume.  So the look-up for a volume finds a pool exactly when the table has one for it.
\<close>

theorem cache_table_wf:
  assumes "cm_reach M R G D K"
  shows "length (cpool_tbl M) = 257 \<and> distinct (concat (cpool_tbl M)) \<and>
    (\<forall>h v. h < 257 \<and> v \<in> set (cpool_tbl M ! h) \<longrightarrow> unat (volid (cpool_at M v)) mod 257 = h) \<and>
    (\<forall>vid v. fst (find_cache_pool vid M) = Some v \<longleftrightarrow> v \<in> set (concat (cpool_tbl M)) \<and> volid (cpool_at M v) = vid)"
proof (intro conjI allI)
  have t: "tbl_ok M" using cm_reach_ok [OF assms] by (simp add: cm_ok_def)
  then show "length (cpool_tbl M) = 257" "distinct (concat (cpool_tbl M))" by (simp_all add: tbl_ok_def CACHE_POOL_HSIZE_def)
  show "h < 257 \<and> v \<in> set (cpool_tbl M ! h) \<longrightarrow> unat (volid (cpool_at M v)) mod 257 = h" for h v
    using t unfolding tbl_ok_def cpool_hash_def CACHE_POOL_HSIZE_def by blast
  fix vid v
  obtain f M1 where f: "find_cache_pool vid M = (f, M1)" by (metis prod.exhaust)
  show "fst (find_cache_pool vid M) = Some v \<longleftrightarrow> v \<in> set (concat (cpool_tbl M)) \<and> volid (cpool_at M v) = vid"
  proof
    assume "fst (find_cache_pool vid M) = Some v"
    then show "v \<in> set (concat (cpool_tbl M)) \<and> volid (cpool_at M v) = vid" using reach_find_pool(2,3) [OF assms, of vid v M1] f by simp
  next
    assume v: "v \<in> set (concat (cpool_tbl M)) \<and> volid (cpool_at M v) = vid"
    then have b: "v \<in> set (cpool_tbl M ! cpool_hash vid)" using tbl_bucket [OF t, of v] by simp
    then obtain w where w: "f = Some w" using f find_pool_none [of vid "cpool_tbl M ! cpool_hash vid" M M1] v by (cases f) (auto simp: find_cache_pool_def)
    then have "w \<in> set (concat (cpool_tbl M))" "volid (cpool_at M w) = vid" using reach_find_pool(2,3) [OF assms, of vid w M1] f by simp_all
    moreover have "inj_on (\<lambda>v. volid (cpool_at M v)) (set (concat (cpool_tbl M)))" using t by (simp add: tbl_ok_def)
    ultimately have "w = v" using v inj_onD [of "\<lambda>v. volid (cpool_at M v)" "set (concat (cpool_tbl M))" w v] by simp
    then show "fst (find_cache_pool vid M) = Some v" using f w by simp
  qed
qed

theorem cache_table_wf_witness: "fst (find_cache_pool 5 cm_sample) = Some 1"
proof -
  have "volid (cpool_at cm_sample 1) = 5"
    by (simp add: cm_sample_def add_to_tbl_def cm_start_def init_cacheMgr_def cpool_new_def cache_pool_new_def cpool_hash_def
        CACHE_POOL_HSIZE_def find_cache_pool_nolock_def Let_def)
  then show ?thesis using cache_table_wf [OF cm_sample_reach] cm_sample_in by blast
qed

subsection \<open>Sharing out the items\<close>

lemma sint_small: "unat (w :: u32) < 2 ^ 31 \<Longrightarrow> sint w = int (unat w)"
proof -
  assume "unat w < 2 ^ 31"
  then have "int (unat w) < 2 ^ 31" by (simp only: of_nat_less_numeral_power_cancel_iff)
  then have "signed_take_bit 31 (uint w) = uint w" by (intro signed_take_bit_int_eq_self) (simp_all add: order_trans [OF _ uint_ge_0])
  then show ?thesis by (simp add: sint_uint)
qed

lemma sint_small64: "unat (w :: u64) < 2 ^ 63 \<Longrightarrow> sint w = int (unat w)"
proof -
  assume "unat w < 2 ^ 63"
  then have "int (unat w) < 2 ^ 63" by (simp only: of_nat_less_numeral_power_cancel_iff)
  then have "signed_take_bit 63 (uint w) = uint w" by (intro signed_take_bit_int_eq_self) (simp_all add: order_trans [OF _ uint_ge_0])
  then show ?thesis by (simp add: sint_uint)
qed

lemma sint_pos64: "0 \<le> sint (w :: u64) \<Longrightarrow> sint w = int (unat w)"
proof -
  assume p: "0 \<le> sint w"
  have s: "sint w = signed_take_bit 63 (uint w)" by (simp add: sint_uint)
  have b: "\<not> bit (uint w) 63" using p unfolding s by (simp only: signed_take_bit_nonnegative_iff not_False_eq_True)
  have "take_bit (Suc 63) (uint w) = uint w" using uint_lt2p [of w] by (intro take_bit_int_eq_self) simp_all
  then have "take_bit 63 (uint w) = uint w" unfolding take_bit_Suc_from_most using b by simp
  then show ?thesis unfolding s using signed_take_bit_eq_if_positive [OF b] by simp
qed

lemma unat_ucast_small: "unat (w :: u64) < 2 ^ 31 \<Longrightarrow> unat (ucast w :: u32) = unat w"
  by (simp add: unsigned_ucast_eq take_bit_nat_eq_self)

lemma resize_large:
  assumes r: "cm_reach M R G D K" and v: "v \<in> set (concat (cpool_tbl M))" and need: "unat need < 2 ^ 31"
  shows "cache_size (cpool_at (resize_cpool v need (shrink_largeVol need) M) v) = need"
    "length (lru_list (cpool_at (resize_cpool v need (shrink_largeVol need) M) v)) \<le> unat need"
proof -
  let ?M0 = "upd_cpool v (\<lambda>p. p\<lparr>cache_size := need\<rparr>) (cpool_inc v M)"
  let ?st = "(cpool_at ?M0 v, cpool_mem ?M0)"
  have "cm_reach ?M0 (v # R) G D K" by (rule cm_reach.resize [OF cm_reach.acquire [OF r v]]) simp
  then have "lv_inv {v. cpool_live ?M0 v} K (map fst G) ?M0" "v \<in> {v. cpool_live ?M0 v}"
    using cm_reach_ok [of ?M0 "v # R" G D K] unfolding cm_ok_def by auto
  note inv = lv_inv_local [OF this]
  have sz: "cache_size (fst ?st) = need" by (simp add: upd_cpool_def)
  have s: "sint need = int (unat need)" by (rule sint_small [OF need])
  note n = cp_invD(2) [OF inv]
  let ?c = "cache_num (fst ?st) - sint need"
  have st': "cache_size (fst (snd (shrink_largeVol need ?st))) = need \<and> length (lru_list (fst (snd (shrink_largeVol need ?st)))) \<le> unat need"
  proof (cases "cache_num (fst ?st) > sint need")
    case True
    then have "0 < ?c" by simp
    note K = kick_lru_spec [OF inv this]
    have "length (lru_list (fst ?st)) - nat ?c = unat need" using True n s by linarith
    with K True sz show ?thesis by (simp add: shrink_largeVol_def cp_frame_def)
  next
    case False
    then have "length (lru_list (fst ?st)) \<le> unat need" using n s by linarith
    with False sz show ?thesis by (simp add: shrink_largeVol_def)
  qed
  then show "cache_size (cpool_at (resize_cpool v need (shrink_largeVol need) M) v) = need"
    "length (lru_list (cpool_at (resize_cpool v need (shrink_largeVol need) M) v)) \<le> unat need"
    by (simp_all add: resize_cpool_def cpool_dec_def on_cpool_eq upd_cpool_def)
qed

lemma largeVol_size_split:
  assumes l: "unat lft < 2 ^ 31" and m: "unat mc < 2 ^ 31" and b: "unat (vol_blocks p) < 2 ^ 31"
    and z: "largeVol_size mc need lft p = (sz, lft')"
  shows "unat sz + unat lft' \<le> unat lft" "unat sz < 2 ^ 31" "unat lft' < 2 ^ 31"
proof -
  define share :: u32 where "share = (if sint mc \<ge> sint need then ucast (vol_blocks p) else ucast ((mc * vol_blocks p) div need))"
  have "unat share < 2 ^ 31"
  proof (cases "sint mc \<ge> sint need")
    case True
    then show ?thesis using b by (simp add: share_def unat_ucast_small)
  next
    case False
    have mc: "sint mc = int (unat mc)" by (rule sint_small64) (use m in simp)
    then have "sint need = int (unat need)" using False by (intro sint_pos64) linarith
    with False mc have lt: "unat mc < unat need" by linarith
    have "unat mc * unat (vol_blocks p) < 2 ^ 31 * 2 ^ 31" by (rule mult_strict_mono) (use m b in simp_all)
    then have "unat (mc * vol_blocks p) = unat mc * unat (vol_blocks p)" by (simp add: unat_mult_lem [THEN iffD1])
    then have "unat ((mc * vol_blocks p) div need) = unat mc * unat (vol_blocks p) div unat need" by (simp add: unat_div)
    also have "\<dots> \<le> unat need * unat (vol_blocks p) div unat need" by (intro div_le_mono mult_right_mono) (use lt in simp_all)
    also have "\<dots> = unat (vol_blocks p)" using lt by simp
    finally show ?thesis using b False by (simp add: share_def unat_ucast_small)
  qed
  moreover have "largeVol_size mc need lft p = (if sint lft \<ge> sint share then (share, lft - share) else (lft, 0))"
    by (simp add: largeVol_size_def share_def Let_def)
  moreover have "unat (lft - share) = unat lft - unat share" "unat share \<le> unat lft" if "sint lft \<ge> sint share"
  proof -
    show "unat share \<le> unat lft" using that sint_small [OF l] sint_small [OF \<open>unat share < 2 ^ 31\<close>] by linarith
    then show "unat (lft - share) = unat lft - unat share" by (simp add: unat_sub word_le_nat_alt)
  qed
  ultimately show "unat sz + unat lft' \<le> unat lft" "unat sz < 2 ^ 31" "unat lft' < 2 ^ 31"
    using z l by (auto split: if_splits)
qed

lemma capacity_kept:
  "capacity (cpool_at (cpool_dec v (cpool_inc v M)) w) = capacity (cpool_at M w)"
  "capacity (cpool_at (resize_cpool v sz (shrink_largeVol need) M) w) = capacity (cpool_at M w)"
proof -
  show "capacity (cpool_at (cpool_dec v (cpool_inc v M)) w) = capacity (cpool_at M w)" by (simp add: cpool_dec_def cpool_inc_def upd_cpool_def)
  have "capacity (fst (snd (shrink_largeVol need st))) = capacity (fst st)" for st
    using kick_frame [of st "{}"] by (auto simp: shrink_largeVol_def op_frame_def)
  then show "capacity (cpool_at (resize_cpool v sz (shrink_largeVol need) M) w) = capacity (cpool_at M w)"
    by (simp add: resize_cpool_def cpool_dec_def cpool_inc_def on_cpool_eq upd_cpool_def)
qed

lemma vol_blocks_capacity: "capacity p = capacity q \<Longrightarrow> vol_blocks p = vol_blocks q"
  by (simp add: vol_blocks_def)

lemma largeVol_loop_limit:
  "cm_reach M R G D K \<Longrightarrow> set vs \<subseteq> set (concat (cpool_tbl M)) \<Longrightarrow> distinct vs \<Longrightarrow> unat lft < 2 ^ 31 \<Longrightarrow> unat mc < 2 ^ 31 \<Longrightarrow>
   (\<And>v. v \<in> set vs \<Longrightarrow> unat (vol_blocks (cpool_at M v)) < 2 ^ 31) \<Longrightarrow> M' = alloc_largeVol_loop mc small need vs lft M \<Longrightarrow>
   L = filter (\<lambda>v. capacity (cpool_at M v) > small) vs \<Longrightarrow>
   (\<Sum>v \<leftarrow> L. unat (cache_size (cpool_at M' v))) \<le> unat lft \<and>
   (\<forall>v \<in> set L. length (lru_list (cpool_at M' v)) \<le> unat (cache_size (cpool_at M' v)))"
proof (induction vs arbitrary: lft M L)
  case (Cons v vs)
  have v: "v \<in> set (concat (cpool_tbl M))" "set vs \<subseteq> set (concat (cpool_tbl M))" "v \<notin> set vs" "distinct vs" using Cons.prems(2,3) by simp_all
  note r = reach_resize [OF Cons.prems(1) v(1) shrink_kick(2)]
  have blk: "unat (vol_blocks (cpool_at (cpool_dec v (cpool_inc v M)) w)) < 2 ^ 31"
    "unat (vol_blocks (cpool_at (resize_cpool v sz (shrink_largeVol nd) M) w)) < 2 ^ 31" if "w \<in> set vs" for w sz nd
    using Cons.prems(6) [of w] that vol_blocks_capacity [OF capacity_kept(1)] vol_blocks_capacity [OF capacity_kept(2)] by simp_all
  show ?case
  proof (cases "capacity (cpool_at M v) \<le> small")
    case True
    then show ?thesis using Cons.prems(4,5,7,8) v
      by (intro Cons.IH [OF r(2) _ v(4) Cons.prems(4,5) blk(1)]) (simp_all add: capacity_kept linorder_not_less)
  next
    case False
    obtain sz lft' where z: "largeVol_size mc need lft (cpool_at M v) = (sz, lft')" by (metis prod.exhaust)
    note S = largeVol_size_split [OF Cons.prems(4,5) Cons.prems(6) z, simplified]
    let ?M = "resize_cpool v sz (shrink_largeVol sz) M" and ?L = "filter (\<lambda>v. capacity (cpool_at M v) > small) vs"
    have M': "M' = alloc_largeVol_loop mc small need vs lft' ?M" using Cons.prems(7) False z by simp
    have ih: "(\<Sum>v \<leftarrow> ?L. unat (cache_size (cpool_at M' v))) \<le> unat lft' \<and>
        (\<forall>v \<in> set ?L. length (lru_list (cpool_at M' v)) \<le> unat (cache_size (cpool_at M' v)))"
      by (rule Cons.IH [OF r(1) _ v(4) _ Cons.prems(5) blk(2) M']) (use S v in \<open>simp_all add: capacity_kept\<close>)
    have "cpool_at M' v = cpool_at ?M v" unfolding M' by (rule largeVol_other [OF v(3)])
    then have "cache_size (cpool_at M' v) = sz" "length (lru_list (cpool_at M' v)) \<le> unat sz"
      using resize_large [OF Cons.prems(1) v(1), of sz] S(2) by simp_all
    moreover have "L = v # ?L" using Cons.prems(8) False by simp
    ultimately show ?thesis using ih S(1) by simp
  qed
qed simp

text \<open>
  (C19) The sizes given to the large volumes stay within what the small volumes have left: they add up to at most that number, and no large
  pool keeps more items than its new size.
\<close>

theorem largeVol_within_limit:
  assumes "cm_reach M R G D K" "unat mc < 2 ^ 31" "\<forall>v \<in> set (concat (cpool_tbl M)). unat (vol_blocks (cpool_at M v)) < 2 ^ 31"
  shows "let M' = alloc_cachePoolSize_largeVol mc small need M; L = filter (\<lambda>v. capacity (cpool_at M v) > small) (concat (cpool_tbl M))
    in (\<Sum>v \<leftarrow> L. unat (cache_size (cpool_at M' v))) \<le> unat mc \<and>
       (\<forall>v \<in> set L. length (lru_list (cpool_at M' v)) \<le> unat (cache_size (cpool_at M' v)))"
proof -
  have d: "distinct (concat (cpool_tbl M))" using cm_reach_ok [OF assms(1)] by (simp add: cm_ok_def tbl_ok_def)
  have u: "unat (ucast mc :: u32) = unat mc" by (rule unat_ucast_small [OF assms(2)])
  have l: "unat (ucast mc :: u32) < 2 ^ 31" unfolding u by (rule assms(2))
  show ?thesis
    using largeVol_loop_limit [OF assms(1) subset_refl d l assms(2) bspec [OF assms(3)] refl refl, of small need]
    unfolding u Let_def alloc_cachePoolSize_largeVol_def by simp
qed

theorem largeVol_within_limit_witness:
  "(\<Sum>v \<leftarrow> filter (\<lambda>v. capacity (cpool_at cm_sample v) > 0) (concat (cpool_tbl cm_sample)).
     unat (cache_size (cpool_at (alloc_cachePoolSize_largeVol 4 0 10 cm_sample) v))) \<le> 4"
proof -
  have "cpool_at cm_sample v = cache_pool_new 5 40960 10" if "v \<in> set (concat (cpool_tbl cm_sample))" for v
  proof -
    have "v = 1" using that unfolding in_concat_nth cm_sample_tbl by (auto simp: nth_list_update split: if_splits)
    then show ?thesis by (simp add: cm_sample_def add_to_tbl_def cm_start_def init_cacheMgr_def cpool_new_def cpool_hash_def cache_pool_new_def
          CACHE_POOL_HSIZE_def find_cache_pool_nolock_def Let_def BIT_LEN_DMS_LB_SIZE_def)
  qed
  then have "\<forall>v \<in> set (concat (cpool_tbl cm_sample)). unat (vol_blocks (cpool_at cm_sample v)) < 2 ^ 31"
    by (simp add: vol_blocks_def cache_pool_new_def BIT_LEN_DMS_LB_SIZE_def)
  from largeVol_within_limit [OF cm_sample_reach _ this, of 4 0 10] show ?thesis by (simp add: Let_def)
qed

subsection \<open>Corners\<close>

text \<open>
  Creating a pool for a volume that has one reports success and leaves a reference to the old pool behind that no thread holds.
\<close>

lemma create_dup_leaks:
  assumes "cm_reach M R G D K" "find_cache_pool vid M = (Some w, M1)" "\<not> cpool_live M v"
  shows "fst (cacheMgr_create_pool cfg (Some v) vid cap M) = 0 \<and>
    cp_ref_cnt (cpool_at (snd (cacheMgr_create_pool cfg (Some v) vid cap M)) w) = int (count_list R w) + 1"
proof -
  let ?M = "snd (cacheMgr_create_pool cfg (Some v) vid cap M)"
  have r: "cm_reach ?M (w # R) G D K" using reach_create_pool [OF assms(1), of "Some v" cfg vid cap] assms(2,3) by auto
  from cm_ok_live(1,4) [OF cm_reach_ok [OF r], of w] show ?thesis
    by (auto simp: cacheMgr_create_pool_def split: prod.splits)
qed

text \<open>
  The look at the old size instead of the need of a small volume can promise more items than are left; what is left is then negative,
  and the next small volume is given nearly $2^{32}$ items.
\<close>

lemma smallVol_overcommit:
  "smallVol_size 5 (cache_pool_new 1 40960 5) = (10, -5)" "smallVol_size (-5) (cache_pool_new 2 40960 10) = (4294967291, 0)"
  by (simp_all add: smallVol_size_def cache_pool_new_def vol_blocks_def BIT_LEN_DMS_LB_SIZE_def)

end
