(* ===== verification/Md_Triplet.thy ===== *)
theory Md_Triplet
  imports Common_Util Md_Manager
begin

text \<open>
  Runs of packed datanode locations.  A location of a metadata item is an array of packed triples (rbid, length, offset); each of them
  places as many blocks of the item, one after the other.  The metadata cache and the cache of allocated space build such an array
  with one triple for each block and then merge neighbours in place (\<^verbatim>\<open>getContTripletLength\<close> and \<^verbatim>\<open>merge_lr_triplet\<close> of
  \<^verbatim>\<open>metadata_manager/metadata_cache.c\<close>).
\<close>

subsection \<open>Merging\<close>

text \<open>The loop of \<^verbatim>\<open>getContTripletLength\<close> over the triples after the first one.\<close>

fun cont_triplet_loop :: "u32 \<Rightarrow> u32 \<Rightarrow> u64 list \<Rightarrow> u32 \<Rightarrow> nat \<Rightarrow> nat \<times> u32" where
  "cont_triplet_loop rbid offset [] accum_len retLen = (retLen, accum_len)"
| "cont_triplet_loop rbid offset (t # ts) accum_len retLen =
     (let (rbid_n, len_n, offset_n) = decompose_triple t
      in if rbid_n \<noteq> rbid then (retLen, accum_len)
         else if offset + accum_len \<noteq> offset_n then (retLen, accum_len)
         else cont_triplet_loop rbid offset ts (accum_len + len_n) (retLen + 1))"

definition getContTripletLength :: "u64 list \<Rightarrow> nat \<times> u32" where
  "getContTripletLength triplet =
     (if length triplet = 1 then (1, 0)
      else (let (rbid, len, offset) = decompose_triple (hd triplet)
            in cont_triplet_loop rbid offset (tl triplet) len 1))"

lemma cont_loop_ge: "r \<le> fst (cont_triplet_loop rbid offset ts a r)"
proof (induction ts arbitrary: a r)
  case (Cons t ts)
  obtain r' l f where "decompose_triple t = (r', l, f)" by (metis prod_cases3)
  then show ?case using Cons [of "Suc r" "a + l"] by simp
qed simp

lemma cont_loop_le: "fst (cont_triplet_loop rbid offset ts a r) \<le> r + length ts"
proof (induction ts arbitrary: a r)
  case (Cons t ts)
  obtain r' l f where "decompose_triple t = (r', l, f)" by (metis prod_cases3)
  then show ?case using Cons [of "a + l" "Suc r"] by simp
qed simp

lemma cont_length_pos: "getContTripletLength ts = (n, a) \<Longrightarrow> 0 < n"
proof -
  assume g: "getContTripletLength ts = (n, a)"
  obtain r l f where d: "decompose_triple (hd ts) = (r, l, f)" by (metis prod_cases3)
  show ?thesis using g cont_loop_ge [of 1 r f "tl ts" l] by (auto simp: getContTripletLength_def d split: if_splits)
qed

lemma cont_length_le: "getContTripletLength ts = (n, a) \<Longrightarrow> ts \<noteq> [] \<Longrightarrow> n \<le> length ts"
proof -
  assume g: "getContTripletLength ts = (n, a)" and ne: "ts \<noteq> []"
  obtain r l f where d: "decompose_triple (hd ts) = (r, l, f)" by (metis prod_cases3)
  have "length ts = Suc (length (tl ts))" using ne by (cases ts) simp_all
  then show ?thesis using g cont_loop_le [of r f "tl ts" l 1] by (auto simp: getContTripletLength_def d split: if_splits)
qed

text \<open>
  The loop over the array of one location: \<open>start\<close> reads, \<open>store_index\<close> writes behind it in the same array of \<open>num\<close> triples.
\<close>

function merge_loc_loop :: "nat \<Rightarrow> nat \<Rightarrow> nat \<Rightarrow> u64 list \<Rightarrow> nat \<times> u64 list" where
  "merge_loc_loop start store_index num arr =
     (if start < num
      then (let (rbid_s, len_s, offset_s) = decompose_triple (arr ! start);
                (contLen, accum_len) = getContTripletLength (take (num - start) (drop start arr));
                v = (if contLen > 1 then compose_triple rbid_s accum_len offset_s else arr ! start)
            in merge_loc_loop (start + contLen) (store_index + 1) num (arr[store_index := v]))
      else (store_index, arr))"
  by pat_completeness auto

termination
proof (relation "measure (\<lambda>(start, store_index, num, arr). num - start)", goal_cases)
  case (2 start store_index num arr x r y l f z c a v)
  then have "0 < c" by (metis cont_length_pos)
  then show ?case using 2(1) by simp
qed simp

declare merge_loc_loop.simps [simp del]

definition merge_loc :: "metaD_DNLoc_t \<Rightarrow> metaD_DNLoc_t" where
  "merge_loc loc =
     (let (n, arr) = merge_loc_loop 0 0 (unat (num_phyLocs loc)) (rbid_len_offset loc)
      in loc\<lparr>rbid_len_offset := arr, num_phyLocs := of_nat n\<rparr>)"

definition merge_item :: "metaD_item_t \<Rightarrow> metaD_item_t" where
  "merge_item item =
     (if mdata_stat item \<noteq> MData_VALID then item
      else item\<lparr>udata_dnLoc := map merge_loc (take (num_dnLoc item) (udata_dnLoc item)) @ drop (num_dnLoc item) (udata_dnLoc item)\<rparr>)"

definition merge_lr_triplet :: "metaD_item_t list \<Rightarrow> metaD_item_t list" where
  "merge_lr_triplet items = map merge_item items"

text \<open>The array after merging, without the writing in place.\<close>

function merge_runs :: "u64 list \<Rightarrow> u64 list" where
  "merge_runs [] = []"
| "merge_runs (t # ts) =
     (let (rbid_s, len_s, offset_s) = decompose_triple t;
          (contLen, accum_len) = getContTripletLength (t # ts)
      in (if contLen > 1 then compose_triple rbid_s accum_len offset_s else t) # merge_runs (drop contLen (t # ts)))"
  by pat_completeness auto

termination
proof (relation "measure length", goal_cases)
  case (2 t ts x r y l f z c a)
  then have "0 < c" by (metis cont_length_pos)
  then show ?case by simp
qed simp

declare merge_runs.simps(2) [simp del]

lemma merge_in_place:
  assumes "store_index \<le> start" "num \<le> length arr" "start \<le> num" "merge_loc_loop start store_index num arr = (n, arr')"
  shows "take n arr' = take store_index arr @ merge_runs (take (num - start) (drop start arr)) \<and> n \<le> num \<and> length arr' = length arr"
  using assms
proof (induction start store_index num arr rule: merge_loc_loop.induct)
  case (1 start store_index num arr)
  show ?case
  proof (cases "start < num")
    case True
    let ?w = "take (num - start) (drop start arr)"
    obtain r l f where d: "decompose_triple (arr ! start) = (r, l, f)" by (metis prod_cases3)
    obtain c a where g: "getContTripletLength ?w = (c, a)" by (metis prod.exhaust)
    define v where "v = (if c > 1 then compose_triple r a f else arr ! start)"
    let ?arr = "arr[store_index := v]"
    obtain ts where w: "?w = arr ! start # ts"
      using True 1(3) Cons_nth_drop_Suc [of start arr, symmetric] by (cases "num - start") auto
    then have ne: "?w \<noteq> []" by simp
    have c: "0 < c" "start + c \<le> num" using cont_length_pos [OF g] cont_length_le [OF g ne] True 1(3) by auto
    have step: "merge_loc_loop (start + c) (store_index + 1) num ?arr = (n, arr')"
      using 1(5) True by (simp add: merge_loc_loop.simps [of start] d g v_def)
    have IH: "take n arr' = take (store_index + 1) ?arr @ merge_runs (take (num - (start + c)) (drop (start + c) ?arr)) \<and> n \<le> num \<and> length arr' = length ?arr"
      by (rule 1(1) [OF True d [symmetric] refl refl g [symmetric] refl v_def]) (use step c 1(2,3) in \<open>simp_all\<close>)
    have "drop (start + c) ?arr = drop (start + c) arr" using c 1(2) by simp
    moreover have "take (store_index + 1) ?arr = take store_index arr @ [v]" using 1(2,3) True by (simp add: take_Suc_conv_app_nth)
    moreover have "merge_runs ?w = v # merge_runs (take (num - (start + c)) (drop (start + c) arr))"
    proof -
      have "merge_runs (arr ! start # ts) = v # merge_runs (drop c (arr ! start # ts))"
        using g unfolding w by (simp add: merge_runs.simps(2) d v_def)
      then have "merge_runs ?w = v # merge_runs (drop c ?w)" unfolding w .
      then show ?thesis by (simp add: drop_take add.commute)
    qed
    ultimately show ?thesis using IH by simp
  next
    case False
    then show ?thesis using 1(2-5) by (simp add: merge_loc_loop.simps [of start] merge_loc_loop.simps [of num])
  qed
qed

subsection \<open>What an array of triples says\<close>

text \<open>The place of block \<open>i\<close>: the rbid and the offset in it.\<close>

definition trip_rbid :: "u64 \<Rightarrow> u32" where
  "trip_rbid t = fst (decompose_triple t)"

definition trip_len :: "u64 \<Rightarrow> nat" where
  "trip_len t = unat (fst (snd (decompose_triple t)))"

definition trip_off :: "u64 \<Rightarrow> nat" where
  "trip_off t = unat (snd (snd (decompose_triple t)))"

fun phy_of :: "u64 list \<Rightarrow> nat \<Rightarrow> (u32 \<times> nat) option" where
  "phy_of [] i = None"
| "phy_of (t # ts) i = (if i < trip_len t then Some (trip_rbid t, trip_off t + i) else phy_of ts (i - trip_len t))"

definition phy_len :: "u64 list \<Rightarrow> nat" where
  "phy_len ts = sum_list (map trip_len ts)"

lemma phy_len_simps [simp]: "phy_len [] = 0" "phy_len (t # ts) = trip_len t + phy_len ts" "phy_len (ts @ us) = phy_len ts + phy_len us"
  by (simp_all add: phy_len_def)

lemma phy_of_append: "phy_of (ts @ us) i = (if i < phy_len ts then phy_of ts i else phy_of us (i - phy_len ts))"
  by (induction ts arbitrary: i) auto

lemma phy_of_total: "i < phy_len ts \<Longrightarrow> \<exists>p. phy_of ts i = Some p"
  by (induction ts arbitrary: i) auto

text \<open>A triple whose fields fit, and a run that the loop takes for one.\<close>

lemma trip_off_less: "trip_off t < 2 ^ 20"
proof -
  have "unat (ucast (t AND 0x00000000000fffff) :: u32) \<le> unat (t AND 0x00000000000fffff)" by (simp add: unsigned_ucast_eq take_bit_nat_less_eq_self)
  also have "\<dots> < 2 ^ 20"
  proof -
    have "t AND 0x00000000000fffff = take_bit 20 t" by (simp add: take_bit_eq_mask mask_eq_exp_minus_1)
    then show ?thesis using take_bit_nat_less_exp [of 20 "unat t"] by (simp add: unsigned_take_bit_eq)
  qed
  finally show ?thesis by (simp add: trip_off_def decompose_triple_def Let_def)
qed

lemma trip_compose:
  assumes "n < 2 ^ 11" "k < 2 ^ 20"
  shows "trip_rbid (compose_triple r (of_nat n) (of_nat k)) = r" "trip_len (compose_triple r (of_nat n) (of_nat k)) = n"
    "trip_off (compose_triple r (of_nat n) (of_nat k)) = k"
proof -
  have "unat (of_nat n :: u32) = n" "unat (of_nat k :: u32) = k" using assms by (simp_all add: unsigned_of_nat take_bit_nat_eq_self)
  moreover have "(of_nat n :: u32) < 2 ^ 11" "(of_nat k :: u32) < 2 ^ 20" using calculation assms by (simp_all add: word_less_nat_alt)
  ultimately show "trip_rbid (compose_triple r (of_nat n) (of_nat k)) = r" "trip_len (compose_triple r (of_nat n) (of_nat k)) = n"
    "trip_off (compose_triple r (of_nat n) (of_nat k)) = k"
    using decompose_compose_triple [of "of_nat n" "of_nat k" r] by (simp_all add: trip_rbid_def trip_len_def trip_off_def)
qed

lemma decompose_trip: "decompose_triple t = (trip_rbid t, of_nat (trip_len t), of_nat (trip_off t))"
  by (simp add: trip_rbid_def trip_len_def trip_off_def)

lemma of_nat_u32_eq:
  assumes "a < 2 ^ 32" "b < 2 ^ 32"
  shows "(of_nat a :: u32) = of_nat b \<longleftrightarrow> a = b"
proof
  have "unat (of_nat a :: u32) = a" "unat (of_nat b :: u32) = b" using assms by (simp_all add: unsigned_of_nat take_bit_nat_eq_self)
  moreover assume "(of_nat a :: u32) = of_nat b"
  ultimately show "a = b" by metis
qed simp

lemma cont_run:
  assumes "cont_triplet_loop r (of_nat k) ts (of_nat a) c = (n, acc)" "a + phy_len ts < 2 ^ 11" "k < 2 ^ 20"
  shows "\<exists>us vs. ts = us @ vs \<and> n = c + length us \<and> acc = of_nat (a + phy_len us) \<and> (\<forall>i < phy_len us. phy_of us i = Some (r, k + a + i))"
  using assms
proof (induction ts arbitrary: a c)
  case Nil
  then show ?case by simp
next
  case (Cons t ts)
  show ?case
  proof (cases "trip_rbid t = r \<and> k + a = trip_off t")
    case True
    have "(of_nat k :: u32) + of_nat a = of_nat (trip_off t)" using True by (simp flip: of_nat_add)
    then have "cont_triplet_loop r (of_nat k) ts (of_nat (a + trip_len t)) (Suc c) = (n, acc)"
      using Cons.prems(1) True by (simp add: decompose_trip [of t])
    from Cons.IH [OF this] Cons.prems(2,3) obtain us vs where u: "ts = us @ vs" "n = Suc c + length us" "acc = of_nat (a + trip_len t + phy_len us)"
      "\<And>i. i < phy_len us \<Longrightarrow> phy_of us i = Some (r, k + (a + trip_len t) + i)" by auto
    then show ?thesis using True by (intro exI [of _ "t # us"] exI [of _ vs]) auto
  next
    case False
    have "(of_nat k :: u32) + of_nat a \<noteq> of_nat (trip_off t)" if "k + a \<noteq> trip_off t"
      using that Cons.prems(2,3) trip_off_less [of t] of_nat_u32_eq [of "k + a" "trip_off t"] by simp
    then have "(n, acc) = (c, of_nat a)" using False Cons.prems(1) by (auto simp: decompose_trip [of t] split: if_splits)
    then show ?thesis by (intro exI [of _ "[]"] exI [of _ "t # ts"]) simp
  qed
qed

lemma merge_runs_phy:
  assumes "phy_len ts < 2 ^ 11"
  shows "phy_of (merge_runs ts) i = phy_of ts i \<and> phy_len (merge_runs ts) = phy_len ts"
  using assms
proof (induction ts arbitrary: i rule: merge_runs.induct)
  case (2 t ts)
  obtain c a where g: "getContTripletLength (t # ts) = (c, a)" by (metis prod.exhaust)
  define v where "v = (if c > 1 then compose_triple (trip_rbid t) a (of_nat (trip_off t)) else t)"
  have IH: "phy_of (merge_runs (drop c (t # ts))) j = phy_of (drop c (t # ts)) j \<and> phy_len (merge_runs (drop c (t # ts))) = phy_len (drop c (t # ts))" for j
  proof (rule 2(1) [OF decompose_trip [symmetric] refl refl g [symmetric] refl])
    show "phy_len (drop c (t # ts)) < 2 ^ 11" using 2(2) phy_len_simps(3) [of "take c (t # ts)" "drop c (t # ts)"] by simp
  qed
  have m: "merge_runs (t # ts) = v # merge_runs (drop c (t # ts))" by (simp add: merge_runs.simps(2) g v_def decompose_trip [of t])
  have "\<exists>us vs. t # ts = us @ vs \<and> c = length us \<and> trip_len v = phy_len us \<and> (\<forall>i < phy_len us. phy_of us i = Some (trip_rbid v, trip_off v + i))"
  proof (cases "ts = []")
    case True
    then show ?thesis using g by (intro exI [of _ "[t]"] exI [of _ "[]"]) (auto simp: getContTripletLength_def v_def)
  next
    case False
    then have "cont_triplet_loop (trip_rbid t) (of_nat (trip_off t)) ts (of_nat (trip_len t)) 1 = (c, a)"
      using g by (simp add: getContTripletLength_def decompose_trip [of t])
    from cont_run [OF this] 2(2) trip_off_less [of t] obtain us vs where u: "ts = us @ vs" "c = 1 + length us" "a = of_nat (trip_len t + phy_len us)"
      "\<And>i. i < phy_len us \<Longrightarrow> phy_of us i = Some (trip_rbid t, trip_off t + trip_len t + i)" by auto
    have n: "trip_len t + phy_len us < 2 ^ 11" using 2(2) u(1) by simp
    have v: "trip_rbid v = trip_rbid t" "trip_len v = trip_len t + phy_len us" "trip_off v = trip_off t"
      using trip_compose [OF n trip_off_less [of t], of "trip_rbid t"] u(2,3) by (cases us; simp add: v_def)+
    show ?thesis using u by (intro exI [of _ "t # us"] exI [of _ vs]) (auto simp: v)
  qed
  then obtain us vs where u: "t # ts = us @ vs" "c = length us" "trip_len v = phy_len us" "\<And>i. i < phy_len us \<Longrightarrow> phy_of us i = Some (trip_rbid v, trip_off v + i)" by blast
  then show ?case unfolding m using IH by (simp add: u phy_of_append)
qed simp

text \<open>Merging in place keeps the place of every block.\<close>

definition loc_triples :: "metaD_DNLoc_t \<Rightarrow> u64 list" where
  "loc_triples loc = take (unat (num_phyLocs loc)) (rbid_len_offset loc)"

lemma merge_loc_places:
  assumes "unat (num_phyLocs loc) \<le> length (rbid_len_offset loc)" "phy_len (loc_triples loc) < 2 ^ 11"
  shows "phy_of (loc_triples (merge_loc loc)) i = phy_of (loc_triples loc) i" "ipaddr (merge_loc loc) = ipaddr loc" "port (merge_loc loc) = port loc"
    "phy_len (loc_triples (merge_loc loc)) = phy_len (loc_triples loc)" "udata_status (merge_loc loc) = udata_status loc"
proof -
  obtain n arr where m: "merge_loc_loop 0 0 (unat (num_phyLocs loc)) (rbid_len_offset loc) = (n, arr)" by (metis prod.exhaust)
  from merge_in_place [OF _ assms(1) _ m] have t: "take n arr = merge_runs (loc_triples loc)" "n \<le> unat (num_phyLocs loc)" by (simp_all add: loc_triples_def)
  have "n < 2 ^ 16" using t(2) unsigned_less [of "num_phyLocs loc", where 'a = nat] by simp
  then have "unat (of_nat n :: u16) = n" by (simp add: unsigned_of_nat take_bit_nat_eq_self)
  then have "loc_triples (merge_loc loc) = merge_runs (loc_triples loc)" using t(1) by (simp add: loc_triples_def merge_loc_def m)
  then show "phy_of (loc_triples (merge_loc loc)) i = phy_of (loc_triples loc) i" "phy_len (loc_triples (merge_loc loc)) = phy_len (loc_triples loc)"
    using merge_runs_phy [OF assms(2)] by simp_all
  show "ipaddr (merge_loc loc) = ipaddr loc" "port (merge_loc loc) = port loc" "udata_status (merge_loc loc) = udata_status loc" by (simp_all add: merge_loc_def m)
qed

text \<open>One triple of length one for each block.\<close>

lemma phy_of_units: "\<forall>t \<in> set ts. trip_len t = 1 \<Longrightarrow> phy_of ts i = (if i < length ts then Some (trip_rbid (ts ! i), trip_off (ts ! i)) else None)"
  by (induction ts arbitrary: i) (auto simp: nth_Cons')

lemma phy_len_units: "\<forall>t \<in> set ts. trip_len t = 1 \<Longrightarrow> phy_len ts = length ts"
  by (induction ts) auto

end
