(* ===== verification/Md_Cache.thy ===== *)
theory Md_Cache
  imports Md_Triplet Cache_Mgr_Props
begin

text \<open>
  The metadata cache of \<^verbatim>\<open>metadata_manager/metadata_cache.c\<close> on top of the cache manager.  The namenode describes a range of blocks by
  metadata items; the cache keeps one small entry for each block, under the number of the block.  An update cuts an item into entries, a
  query collects the entries of a range again, cuts the range where the entries are missing or change their datanodes, and merges
  neighbouring places.  The user items of the cache are pointers into a heap of entries; metadata items that a query builds are
  freshly allocated, so they are values here.  \<open>ok k\<close> is the answer of the allocator to its \<open>k\<close>-th call.
\<close>

subsection \<open>Entries\<close>

record mcache_dnloc_t =
  mc_ipaddr :: u32
  mc_port :: u32
  mc_rbid :: u32
  mc_offset :: u32

record mcache_item_t =
  HBID :: u64
  mc_udata_dnLoc :: "mcache_dnloc_t list"
  mc_num_dnLoc :: nat

text \<open>What \<^verbatim>\<open>memset\<close> leaves.\<close>

definition mcache_dnloc0 :: mcache_dnloc_t where
  "mcache_dnloc0 = \<lparr>mc_ipaddr = 0, mc_port = 0, mc_rbid = 0, mc_offset = 0\<rparr>"

definition mcache_item0 :: mcache_item_t where
  "mcache_item0 = \<lparr>HBID = 0, mc_udata_dnLoc = replicate MAX_NUM_REPLICA mcache_dnloc0, mc_num_dnLoc = 0\<rparr>"

definition metaD_DNLoc0 :: metaD_DNLoc_t where
  "metaD_DNLoc0 = \<lparr>ipaddr = 0, port = 0, rbid_len_offset = replicate MAX_LBS_PER_IOR 0, num_phyLocs = 0, udata_status = UData_S_INIT\<rparr>"

definition metaD_item0 :: metaD_item_t where
  "metaD_item0 = \<lparr>num_dnLoc = 0, num_hbids = 0, arr_HBID = replicate MAX_LBS_PER_IOR 0, udata_dnLoc = replicate MAX_NUM_REPLICA metaD_DNLoc0,
     mdata_stat = MData_VALID, lbid_s = 0, memack = 0, diskack = 0, diskErr_ack = 0, wfail_connErr = 0, num_replica = 0, mdata_fea = 0\<rparr>"

text \<open>
  A query result: one bucket of the array of the caller.  A bucket with no item is a miss.  The counter \<^verbatim>\<open>num_invalMD_items\<close> is not
  kept: a query sets it to zero in the buckets with metadata and leaves it alone in the others.
\<close>

record mdata_seg =
  seg_volumeID :: u32
  seg_lbid_start :: u64
  seg_lbid_len :: nat
  seg_items :: "metaD_item_t list"

subsection \<open>Queries\<close>

fun seg_len_loop :: "bool \<Rightarrow> 'a option list \<Rightarrow> nat \<Rightarrow> nat" where
  "seg_len_loop md_ch [] cnt = cnt"
| "seg_len_loop md_ch (x # xs) cnt =
     (if x = None \<and> md_ch then cnt
      else if x \<noteq> None \<and> \<not> md_ch then cnt
      else seg_len_loop md_ch xs (cnt + 1))"

definition get_max_seg_len :: "'a option list \<Rightarrow> nat \<times> bool" where
  "get_max_seg_len arr_MD = (let md_ch = (hd arr_MD \<noteq> None) in (seg_len_loop md_ch (tl arr_MD) 1, md_ch))"

definition same_DN :: "mcache_item_t \<Rightarrow> mcache_item_t \<Rightarrow> bool" where
  "same_DN pSrc pDest \<longleftrightarrow> mc_num_dnLoc pSrc = mc_num_dnLoc pDest \<and>
     (\<forall>i < mc_num_dnLoc pDest. mc_ipaddr (mc_udata_dnLoc pDest ! i) = mc_ipaddr (mc_udata_dnLoc pSrc ! i) \<and>
        mc_port (mc_udata_dnLoc pDest ! i) = mc_port (mc_udata_dnLoc pSrc ! i))"

fun cont_DN_loop :: "mcache_item_t \<Rightarrow> mcache_item_t list \<Rightarrow> nat \<Rightarrow> nat" where
  "cont_DN_loop pSrc [] cn_cont = cn_cont"
| "cont_DN_loop pSrc (pDest # rest) cn_cont = (if same_DN pSrc pDest then cont_DN_loop pSrc rest (cn_cont + 1) else cn_cont)"

definition GetContLenForSameDN :: "mcache_item_t list \<Rightarrow> nat" where
  "GetContLenForSameDN metaData = cont_DN_loop (hd metaData) (tl metaData) 1"

text \<open>The first entries of an array are overwritten.\<close>

definition write_prefix :: "'a list \<Rightarrow> 'a list \<Rightarrow> 'a list" where
  "write_prefix xs arr = take (length arr) xs @ drop (length xs) arr"

definition create_DNLoc :: "mcache_item_t list \<Rightarrow> nat \<Rightarrow> metaD_DNLoc_t \<Rightarrow> metaD_DNLoc_t" where
  "create_DNLoc metaData j loc =
     (let dnInfo_cache = mc_udata_dnLoc (hd metaData) ! j;
          loc1 = MData_init_DNLoc (mc_ipaddr dnInfo_cache) (mc_port dnInfo_cache) (of_nat (length metaData)) loc
      in loc1\<lparr>rbid_len_offset := write_prefix (map (\<lambda>mci. compose_triple (mc_rbid (mc_udata_dnLoc mci ! j)) 1 (mc_offset (mc_udata_dnLoc mci ! j))) metaData)
                (rbid_len_offset loc1)\<rparr>)"

definition create_MDItem :: "u64 \<Rightarrow> mcache_item_t list \<Rightarrow> metaD_item_t" where
  "create_MDItem startLB metaData =
     (let mci_head = hd metaData;
          item = MData_init_MDItem (unat startLB) (length metaData) (mc_num_dnLoc mci_head) MData_VALID False False False metaD_item0
      in item\<lparr>arr_HBID := write_prefix (map HBID metaData) (arr_HBID item),
              udata_dnLoc := write_prefix (map (\<lambda>j. create_DNLoc metaData j (udata_dnLoc item ! j)) [0..<mc_num_dnLoc mci_head]) (udata_dnLoc item)\<rparr>)"

lemma cont_DN_ge: "n \<le> cont_DN_loop p xs n"
proof (induction xs arbitrary: n)
  case (Cons x xs)
  from Cons [of "Suc n"] show ?case by simp
qed simp

text \<open>When an item cannot be allocated, the items built so far are freed.\<close>

function create_loop :: "(nat \<Rightarrow> bool) \<Rightarrow> u64 \<Rightarrow> mcache_item_t list \<Rightarrow> nat \<Rightarrow> metaD_item_t list \<Rightarrow> metaD_item_t list option \<times> nat" where
  "create_loop ok start_LB [] k items = (Some items, k)"
| "create_loop ok start_LB (mci # rest) k items =
     (let cn_cont = GetContLenForSameDN (mci # rest)
      in if \<not> ok k then (None, k + 1)
         else create_loop ok (start_LB + of_nat cn_cont) (drop cn_cont (mci # rest)) (k + 1)
                (items @ [create_MDItem start_LB (take cn_cont (mci # rest))]))"
  by pat_completeness auto

termination
proof (relation "measure (\<lambda>(ok, start_LB, md, k, items). length md)", goal_cases)
  case (2 ok start_LB mci rest k items n)
  then have "0 < n" using cont_DN_ge [of 1 mci rest] by (simp add: GetContLenForSameDN_def)
  then show ?case by simp
qed simp

definition create_metadata :: "(nat \<Rightarrow> bool) \<Rightarrow> u64 \<Rightarrow> mcache_item_t list \<Rightarrow> nat \<Rightarrow> metaD_item_t list option \<times> nat" where
  "create_metadata ok start_LB metaData k = (if \<not> ok k then (None, k + 1) else create_loop ok start_LB metaData (k + 1) [])"

text \<open>
  The loop over the segments.  The first block is kept in a 32-bit signed number; when a segment cannot be built, the loop tries
  the same segment again.
\<close>

definition mdata_bucket :: "u32 \<Rightarrow> u32 \<Rightarrow> nat \<Rightarrow> metaD_item_t list \<Rightarrow> mdata_seg" where
  "mdata_bucket vol lstart_lb seg_len items = \<lparr>seg_volumeID = vol, seg_lbid_start = scast lstart_lb, seg_lbid_len = seg_len, seg_items = items\<rparr>"

partial_function (option) query_loop ::
  "(nat \<Rightarrow> bool) \<Rightarrow> u32 \<Rightarrow> mcache_item_t option list \<Rightarrow> u32 \<Rightarrow> nat \<Rightarrow> mdata_seg list \<Rightarrow> (mdata_seg list \<times> nat) option" where
  "query_loop ok vol metaData lstart_lb k segs =
     (if metaData = [] then Some (segs, k)
      else (let seg_len = fst (get_max_seg_len metaData)
            in if snd (get_max_seg_len metaData)
               then (let r = create_metadata ok (scast lstart_lb) (map the (take seg_len metaData)) k
                     in if fst r = None then query_loop ok vol metaData lstart_lb (snd r) segs
                        else query_loop ok vol (drop seg_len metaData) (lstart_lb + of_nat seg_len) (snd r)
                               (segs @ [mdata_bucket vol lstart_lb seg_len (merge_lr_triplet (the (fst r)))]))
               else query_loop ok vol (drop seg_len metaData) (lstart_lb + of_nat seg_len) k
                      (segs @ [mdata_bucket vol lstart_lb seg_len []])))"

record mdcache_t =
  mdc_mgr :: cpool_manager_t
  mdc_heap :: "nat \<Rightarrow> mcache_item_t"
  mdc_freed :: "nat list"

text \<open>The entries behind the leaves that were found.\<close>

definition basket_items :: "nat option list \<Rightarrow> mdcache_t \<Rightarrow> mcache_item_t option list" where
  "basket_items basket S = map (map_option (\<lambda>l. mdc_heap S (leaf_data (leaf_at (cpool_mem (mdc_mgr S)) l)))) basket"

definition query_volume_MDCache ::
  "(nat \<Rightarrow> bool) \<Rightarrow> u32 \<Rightarrow> u64 \<Rightarrow> u32 \<Rightarrow> bool \<Rightarrow> mdcache_t \<Rightarrow> (mdata_seg list \<times> mdcache_t) option" where
  "query_volume_MDCache ok vol lb len query_cache S =
     (if \<not> query_cache then Some ([\<lparr>seg_volumeID = vol, seg_lbid_start = lb, seg_lbid_len = unat len, seg_items = []\<rparr>], S)
      else case cache_find (ucast vol) lb len (replicate (unat len) None) (mdc_mgr S) of
             None \<Rightarrow> None
           | Some (ret, basket, M1) \<Rightarrow>
               (let S1 = S\<lparr>mdc_mgr := M1\<rparr>
                in case query_loop ok vol (basket_items basket S1) (ucast lb) 0 [] of
                     None \<Rightarrow> None
                   | Some (segs, _) \<Rightarrow>
                       Some (segs, if ret > 0 then S1\<lparr>mdc_mgr := snd (cache_put (ucast vol) basket M1)\<rparr> else S1)))"

subsection \<open>Updates and invalidation\<close>

definition inval_volume_MDCache_LBID :: "u64 \<Rightarrow> u64 \<Rightarrow> u32 \<Rightarrow> mdcache_t \<Rightarrow> int \<times> mdcache_t" where
  "inval_volume_MDCache_LBID vid start_LB LB_cnt S =
     (let (ret, M) = cache_invalidate INVAL_CACHE_LB vid start_LB LB_cnt None (mdc_mgr S) in (ret, S\<lparr>mdc_mgr := M\<rparr>))"

definition inval_volume_MDCache_HBID :: "u64 \<Rightarrow> mdcache_t \<Rightarrow> int \<times> mdcache_t" where
  "inval_volume_MDCache_HBID hbid S =
     (let (ret, M) = cache_invalidate INVAL_CACHE_HB 0 hbid 1 None (mdc_mgr S) in (ret, S\<lparr>mdc_mgr := M\<rparr>))"

definition inval_volume_MDCache_volID :: "u64 \<Rightarrow> mdcache_t \<Rightarrow> int \<times> mdcache_t" where
  "inval_volume_MDCache_volID vid S =
     (let (ret, M) = cache_invalidate INVAL_CACHE_VOLID vid (- 1) (- 1) None (mdc_mgr S) in (ret, S\<lparr>mdc_mgr := M\<rparr>))"

definition is_mditem_has_DN :: "mcache_dnloc_t \<Rightarrow> mcache_item_t \<Rightarrow> bool" where
  "is_mditem_has_DN criteria item \<longleftrightarrow>
     (\<exists>i < mc_num_dnLoc item. mc_ipaddr (mc_udata_dnLoc item ! i) = mc_ipaddr criteria \<and> mc_port (mc_udata_dnLoc item ! i) = mc_port criteria)"

text \<open>\<open>ip\<close> is the address that \<^verbatim>\<open>ccma_inet_ntoa\<close> makes of the name.\<close>

definition inval_volume_MDCache_DN :: "u32 \<Rightarrow> u32 \<Rightarrow> mdcache_t \<Rightarrow> int \<times> mdcache_t" where
  "inval_volume_MDCache_DN ip prt S =
     (let cmp_criteria = \<lparr>mc_ipaddr = ip, mc_port = prt, mc_rbid = - 1, mc_offset = - 1\<rparr>;
          (ret, M) = cache_invalidate INVAL_CACHE_COND_CHK 1 (- 1) (- 1) (Some (\<lambda>d. is_mditem_has_DN cmp_criteria (mdc_heap S d))) (mdc_mgr S)
      in (ret, S\<lparr>mdc_mgr := M\<rparr>))"

text \<open>
  \<open>allocs\<close> are the answers of the allocator for the entries.  When one fails, the entries before it are freed.
\<close>

fun alloc_chItem_arr :: "nat option list \<Rightarrow> nat list \<Rightarrow> mdcache_t \<Rightarrow> int \<times> nat list \<times> mdcache_t" where
  "alloc_chItem_arr [] arr_chItem S = (0, arr_chItem, S)"
| "alloc_chItem_arr (None # allocs) arr_chItem S = (- ENOMEM, [], S\<lparr>mdc_freed := rev arr_chItem @ mdc_freed S\<rparr>)"
| "alloc_chItem_arr (Some p # allocs) arr_chItem S =
     alloc_chItem_arr allocs (arr_chItem @ [p]) (S\<lparr>mdc_heap := (mdc_heap S)(p := mcache_item0)\<rparr>)"

text \<open>The search for the triple of block \<open>i\<close>, in signed 32-bit arithmetic.\<close>

fun split_phyLoc :: "nat \<Rightarrow> u64 list \<Rightarrow> u32 \<Rightarrow> mcache_dnloc_t \<Rightarrow> mcache_dnloc_t" where
  "split_phyLoc i [] prev_len dnLoc = dnLoc"
| "split_phyLoc i (t # ts) prev_len dnLoc =
     (let (rbid, len, offset) = decompose_triple t
      in if int i < sint (len + prev_len) then dnLoc\<lparr>mc_rbid := rbid, mc_offset := offset + of_nat i - prev_len\<rparr>
         else split_phyLoc i ts (prev_len + len) dnLoc)"

definition split_dnLoc :: "nat \<Rightarrow> metaD_DNLoc_t \<Rightarrow> mcache_dnloc_t \<Rightarrow> mcache_dnloc_t" where
  "split_dnLoc i mdata_dnLoc dnLoc =
     split_phyLoc i (take (unat (num_phyLocs mdata_dnLoc)) (rbid_len_offset mdata_dnLoc)) 0
       (dnLoc\<lparr>mc_ipaddr := ipaddr mdata_dnLoc, mc_port := port mdata_dnLoc\<rparr>)"

definition split_one :: "metaD_item_t \<Rightarrow> nat \<Rightarrow> mcache_item_t \<Rightarrow> mcache_item_t" where
  "split_one myMD_item i citem =
     citem\<lparr>HBID := arr_HBID myMD_item ! i, mc_num_dnLoc := num_dnLoc myMD_item,
           mc_udata_dnLoc := write_prefix (map (\<lambda>m. split_dnLoc i (udata_dnLoc myMD_item ! m) (mc_udata_dnLoc citem ! m)) [0..<num_dnLoc myMD_item])
             (mc_udata_dnLoc citem)\<rparr>"

definition split_metadata :: "metaD_item_t \<Rightarrow> nat list \<Rightarrow> (nat \<Rightarrow> mcache_item_t) \<Rightarrow> (nat \<Rightarrow> mcache_item_t)" where
  "split_metadata myMD_item arr heap =
     fold (\<lambda>i heap. heap(arr ! i := split_one myMD_item i (heap (arr ! i)))) [0..<num_hbids myMD_item] heap"

text \<open>
  What \<^verbatim>\<open>cache_update\<close> leaves in the array of the caller: entries whose leaf could not be allocated are freed there and set to
  \<^verbatim>\<open>NULL\<close>, the others stay, whatever became of them.
\<close>

definition update_basket :: "int \<Rightarrow> nat option list \<Rightarrow> nat list \<Rightarrow> nat list" where
  "update_basket ret leaf_allocs arr =
     (if ret = - ENOENT \<or> ret = - E2BIG then arr else map snd (filter (\<lambda>(a, d). a \<noteq> None) (zip leaf_allocs arr)))"

definition update_mdItem ::
  "nat option list \<times> nat option list \<Rightarrow> u32 \<Rightarrow> u64 \<Rightarrow> metaD_item_t \<Rightarrow> mdcache_t \<Rightarrow> mdcache_t" where
  "update_mdItem al vol_id start_lb_index myMD_item S =
     (let inval = (\<lambda>S. snd (inval_volume_MDCache_LBID (ucast vol_id) start_lb_index (of_nat (num_hbids myMD_item)) S))
      in if mdata_stat myMD_item \<noteq> MData_VALID then inval S
         else (let (ret, arr, S1) = alloc_chItem_arr (fst al) [] S
               in if ret \<noteq> 0 then inval S1
                  else (let S2 = S1\<lparr>mdc_heap := split_metadata myMD_item arr (mdc_heap S1)\<rparr>;
                            (update_ret, M) = cache_update (snd al) (ucast vol_id) start_lb_index arr (mdc_mgr S2);
                            S3 = S2\<lparr>mdc_mgr := M\<rparr>
                        in if update_ret < 0
                           then (let S4 = inval S3 in S4\<lparr>mdc_freed := rev (update_basket update_ret (snd al) arr) @ mdc_freed S4\<rparr>)
                           else S3)))"

fun update_mdcache :: "(nat option list \<times> nat option list) list \<Rightarrow> u32 \<Rightarrow> u64 \<Rightarrow> metaD_item_t list \<Rightarrow> mdcache_t \<Rightarrow> mdcache_t" where
  "update_mdcache als vol_id start_lb_index [] S = S"
| "update_mdcache als vol_id start_lb_index (myMD_item # items) S =
     update_mdcache (tl als) vol_id (start_lb_index + of_nat (num_hbids myMD_item)) items
       (update_mdItem (hd als) vol_id start_lb_index myMD_item S)"

definition update_volume_MDCache ::
  "(nat option list \<times> nat option list) list \<Rightarrow> metaD_item_t list option \<Rightarrow> u32 \<Rightarrow> u64 \<Rightarrow> u32 \<Rightarrow> bool \<Rightarrow> bool \<Rightarrow> mdcache_t \<Rightarrow> int \<times> mdcache_t" where
  "update_volume_MDCache als my_MData vol lb len enable_mdcache sys_free_mem_low S =
     (case my_MData of
        None \<Rightarrow> (- EINVAL, S)
      | Some items \<Rightarrow>
          (if \<not> enable_mdcache then (- EPERM, snd (inval_volume_MDCache_LBID (ucast vol) lb len S))
           else if sys_free_mem_low then (- ENOMEM, snd (inval_volume_MDCache_LBID (ucast vol) lb len S))
           else (0, update_mdcache als vol lb items S)))"

definition create_volume_MDCache :: "dmsc_cache_config \<Rightarrow> nat option \<Rightarrow> u64 \<Rightarrow> u64 \<Rightarrow> mdcache_t \<Rightarrow> int \<times> mdcache_t" where
  "create_volume_MDCache cfg alloc vid cap S =
     (let (ret, M) = cacheMgr_create_pool cfg alloc vid cap (mdc_mgr S) in (ret, S\<lparr>mdc_mgr := M\<rparr>))"

definition free_volume_MDCache :: "dmsc_cache_config \<Rightarrow> u64 \<Rightarrow> mdcache_t \<Rightarrow> int \<times> mdcache_t" where
  "free_volume_MDCache cfg vid S =
     (let (ret, M) = cacheMgr_rel_pool cfg vid (mdc_mgr S) in (ret, S\<lparr>mdc_mgr := M\<rparr>))"

definition rel_metadata_cache :: "mdcache_t \<Rightarrow> mdcache_t" where
  "rel_metadata_cache S = S\<lparr>mdc_mgr := cacheMgr_rel_manager (mdc_mgr S)\<rparr>"

definition init_metadata_cache :: "bool \<Rightarrow> mdcache_t \<Rightarrow> int \<times> mdcache_t" where
  "init_metadata_cache pool_ok S =
     (let (ret, M) = init_cacheMgr pool_ok (cpool_mem (mdc_mgr S)) in (ret, S\<lparr>mdc_mgr := M\<rparr>))"

end
