(* ===== verification/Cache_Fill.thy ===== *)
theory Cache_Fill
  imports Cache_Mgr_Props
begin

text \<open>
  Updates of a cache pool when the allocators do not fail: every item is cached under its key afterwards.  The pools of the
  manager as their clients see them: what a volume has cached, and what looking up and updating do to it.
\<close>

subsection \<open>The allocator of tree nodes\<close>

definition node_ok :: "cache_mem \<Rightarrow> bool" where
  "node_ok mem \<longleftrightarrow> (\<forall>i. kmem_ok (node_mem mem) i)"

lemma delete_down_kmem: "delete_down h k s m = (found, s', m') \<Longrightarrow> kmem_ok m' = kmem_ok m"
proof (induction h arbitrary: s m found s' m')
  case 0
  then show ?case by (auto split: rslot.splits)
next
  case (Suc h)
  obtain f c m1 where d: "delete_down h k (rslots s ! rt_offset k (h * RADIX_TREE_MAP_SHIFT)) m = (f, c, m1)" by (metis prod_cases3)
  from Suc.IH [OF d] Suc.prems d show ?case by (auto simp: Let_def radix_tree_node_free_def split: if_splits simp del: rt_offset_eq)
qed

lemma shrink_kmem: "kmem_ok (snd (radix_tree_shrink h s m)) = kmem_ok m"
  by (induction h arbitrary: s m) (auto simp: radix_tree_node_free_def)

lemma tree_delete_node_ok: "node_ok (snd (snd (tree_delete k st))) \<longleftrightarrow> node_ok (snd st)"
proof -
  obtain f s m1 where d: "delete_down (rt_height (tree (fst st))) (unat k) (rnode (tree (fst st))) (node_mem (snd st)) = (f, s, m1)" by (metis prod_cases3)
  have "kmem_ok (snd (snd (dms_radix_tree_delete k (tree (fst st)) (node_mem (snd st))))) = kmem_ok (node_mem (snd st))"
    using delete_down_kmem [OF d] shrink_kmem [of "rt_height (tree (fst st))" s m1] by (simp add: dms_radix_tree_delete_def d)
  then show ?thesis by (auto simp: tree_delete_def node_ok_def split: prod.splits)
qed

lemma leaf_drop_node_ok [simp]: "node_ok (leaf_drop l mem) \<longleftrightarrow> node_ok mem"
  by (simp add: node_ok_def leaf_drop_fields)

lemma kick_loop_node_ok: "node_ok (snd (snd (kick_loop cmp c tot xs nr fl st))) \<longleftrightarrow> node_ok (snd st)"
proof (induction xs arbitrary: nr fl st)
  case (Cons l xs)
  show ?case using tree_delete_node_ok [of "blkid (leaf_at (snd st) l)" st] by (simp add: Cons Let_def)
qed simp

lemma reclaim_node_ok: "node_ok (snd (cache_reclaim n st)) \<longleftrightarrow> node_ok (snd st)"
  by (simp add: cache_reclaim_def kick_meta_cache_pool_def kick_loop_node_ok Let_def)

lemma release_node_ok [simp]: "node_ok (release_tree_leaf l mem) \<longleftrightarrow> node_ok mem"
  by (simp add: node_ok_def release_tree_leaf_def)

lemma update_one_ok:
  assumes "node_ok (snd st)" "update_one (Some l) k d st = (ret, st')"
  shows "node_ok (snd st') \<and> ret = 0"
proof -
  define mem1 where "mem1 = (snd st)\<lparr>leaf_at := (leaf_at (snd st))(l := \<lparr>leaf_data = d, blkid = k, flag_refcnt = 0\<rparr>),
       leaf_live := (leaf_live (snd st))(l := True), tree_leaf_cnt := tree_leaf_cnt (snd st) + 1\<rparr>"
  obtain err old t nm where i: "dms_radix_tree_insert k l (tree (fst st)) (node_mem mem1) = (err, old, t, nm)" by (metis prod_cases4)
  have m: "kmem_ok nm = kmem_ok (node_mem (snd st))" "err = 0"
    using insert_mem_step [OF i] assms(1) by (auto simp: mem_step_def alloc_failed_def node_ok_def mem1_def)
  have n: "node_ok (mem1\<lparr>node_mem := nm\<rparr>)" using m(1) assms(1) by (simp add: node_ok_def)
  show ?thesis
  proof (cases old)
    case None
    then show ?thesis using assms(2) i m(2) n by (auto simp: update_one_def mem1_def Let_def)
  next
    case (Some a)
    then show ?thesis using assms(2) i m(2) n leaf_drop_node_ok [of a "mem1\<lparr>node_mem := nm\<rparr>"] by (auto simp: update_one_def mem1_def Let_def)
  qed
qed

subsection \<open>Filling a pool\<close>

lemma update_loop_fill:
  assumes "cp_inv F H st" "allocs_fresh allocs key ds st" "None \<notin> set allocs" "node_ok (snd st)" "update_loop allocs key ds 0 st = (ret, st')"
  shows "lru_view st' = lru_fill (replicate (length ds) True) key ds (lru_view st) \<and> ret = 0 \<and> (ds \<noteq> [] \<or> tree_ok st \<longrightarrow> tree_ok st') \<and> cp_inv F H st'"
  using assms
proof (induction allocs key ds "0 :: int" st rule: update_loop.induct)
  case (3 alloc allocs key d ds st)
  obtain r1 st1 where u: "update_one alloc key d st = (r1, st1)" by (metis prod.exhaust)
  obtain l where l: "alloc = Some l" using 3(4) by (cases alloc) auto
  have r1: "r1 = 0" "node_ok (snd st1)" using update_one_ok [of st l key d r1 st1] 3(5) u l by auto
  have fresh: "\<And>l. alloc = Some l \<Longrightarrow> \<not> leaf_live (snd st) l" using 3(3) by (auto split: option.splits)
  from update_one_spec [OF 3(2) fresh u] r1(1) have s: "cp_inv F H st1" "lru_view st1 = lru_insert key d (lru_view st)" "tree_ok st1" by (auto simp: ENOMEM_def)
  have "lru_view st' = lru_fill (replicate (length ds) True) (key + 1) ds (lru_view st1) \<and> ret = 0 \<and> (ds \<noteq> [] \<or> tree_ok st1 \<longrightarrow> tree_ok st') \<and> cp_inv F H st'"
    by (rule 3(1) [of "(0, st1)"]) (use 3 u r1 s in auto)
  then show ?case using s(2,3) by simp
qed auto

lemma lru_fill_lookup:
  assumes "unat k + length ds \<le> 2 ^ 64"
  shows "map_of (lru_fill (replicate (length ds) True) k ds L) x =
    (if unat k \<le> unat x \<and> unat x < unat k + length ds then Some (ds ! (unat x - unat k)) else map_of L x)"
  using assms
proof (induction ds arbitrary: k L)
  case (Cons d ds)
  have fl: "map_of (filter (\<lambda>e. fst e \<noteq> k) L) x = map_of L x" if "x \<noteq> k" for x using that by (induction L) auto
  show ?case
  proof (cases "ds = []")
    case True
    have "unat k \<le> unat x \<and> unat x < unat k + 1 \<longleftrightarrow> x = k" using unat_key_eq [of x k] by auto
    then show ?thesis using fl [of x] True by (simp add: lru_insert_def)
  next
    case False
    then have u: "unat (k + 1) = unat k + 1" using Cons.prems unat_add_small [of k 1] by (cases ds) auto
    show ?thesis
    proof (cases "x = k")
      case True
      then show ?thesis using Cons u by (simp add: lru_insert_def)
    next
      case False
      then have "unat x \<noteq> unat k" by (simp add: unat_key_eq)
      then show ?thesis using Cons u fl [of x] False by (auto simp: lru_insert_def nth_Cons' Suc_diff_le)
    qed
  qed
qed auto

subsection \<open>What a volume has cached\<close>

definition vol_cached :: "u64 \<Rightarrow> cpool_manager_t \<Rightarrow> u64 \<rightharpoonup> nat" where
  "vol_cached vid M = (case fst (find_cache_pool vid M) of None \<Rightarrow> Map.empty | Some v \<Rightarrow> map_of (lru_view (cpool_at M v, cpool_mem M)))"

text \<open>A pool whose tree a scan can walk; the tree of a pool is only broken by an insertion that failed.\<close>

definition vol_tree_ok :: "u64 \<Rightarrow> cpool_manager_t \<Rightarrow> bool" where
  "vol_tree_ok vid M \<longleftrightarrow> (\<forall>v. fst (find_cache_pool vid M) = Some v \<longrightarrow> tree_ok (cpool_at M v, cpool_mem M))"

lemma find_pool_fst: "fst (find_cache_pool vid M) = find (\<lambda>v. volid (cpool_at M v) = vid) (cpool_tbl M ! cpool_hash vid)"
  by (simp add: find_cache_pool_def find_cache_pool_nolock_def split: option.splits)

lemma find_pool_cong:
  assumes "cpool_tbl M' = cpool_tbl M" "\<And>v. volid (cpool_at M' v) = volid (cpool_at M v)"
  shows "fst (find_cache_pool vid M') = fst (find_cache_pool vid M)"
  unfolding find_pool_fst assms ..

lemma pool_inv:
  assumes "cm_reach M R G D K" "find_cache_pool vid M = (Some v, M1)"
  shows "\<exists>F H. cp_inv F H (cpool_at M1 v, cpool_mem M1) \<and> length H \<le> length G"
proof -
  have ok: "cm_ok M1 (v # R) G D K" by (rule cm_reach_ok [OF reach_find_pool(1) [OF assms]])
  then have "lv_inv {v. cpool_live M1 v} K (map fst G) M1" "v \<in> {v. cpool_live M1 v}" by (auto simp: cm_ok_def)
  from lv_inv_local [OF this] show ?thesis using length_filter_le [of _ "map fst G"] by (metis length_map)
qed

lemma pool_inc_view:
  assumes "find_cache_pool vid M = (Some v, M1)"
  shows "lru_view (cpool_at M1 v, cpool_mem M1) = lru_view (cpool_at M v, cpool_mem M)"
    "tree_ok (cpool_at M1 v, cpool_mem M1) \<longleftrightarrow> tree_ok (cpool_at M v, cpool_mem M)"
    "cpool_tbl M1 = cpool_tbl M" "volid (cpool_at M1 w) = volid (cpool_at M w)" "cpool_mem M1 = cpool_mem M" "cache_size (cpool_at M1 v) = cache_size (cpool_at M v)"
  using find_pool_eq(3) [OF assms [unfolded find_cache_pool_def]] by (auto simp: cpool_inc_def upd_cpool_def lru_view_def tree_ok_def)

text \<open>A look-up of a range: the items cached under its keys, and no reference is left when there are none.\<close>

lemma cache_find_cached:
  assumes r: "cm_reach M R G D K" and t: "vol_tree_ok vid M" and n: "unat first + unat n < 2 ^ 64" "length G + unat n < 2 ^ 31"
  shows "\<exists>ret basket M'. cache_find vid first n (replicate (unat n) None) M = Some (ret, basket, M') \<and>
    map (map_option (\<lambda>l. leaf_data (leaf_at (cpool_mem M') l))) basket = map (\<lambda>i. vol_cached vid M (first + of_nat i)) [0..<unat n] \<and>
    (ret > 0 \<or> basket_leaves basket = []) \<and> (ret > 0 \<longrightarrow> fst (find_cache_pool vid M') \<noteq> None)"
proof (cases "fst (find_cache_pool vid M)")
  case None
  then obtain M1 where f: "find_cache_pool vid M = (None, M1)" by (metis prod.collapse)
  have "basket_leaves (replicate (unat n) None) = []" by (simp add: basket_leaves_def)
  then show ?thesis using find_pool_unchanged [OF f] None
    by (simp add: cache_find_def f vol_cached_def ENOENT_def map_replicate_const)
next
  case (Some v)
  then obtain M1 where f: "find_cache_pool vid M = (Some v, M1)" by (metis prod.collapse)
  obtain F H where inv: "cp_inv F H (cpool_at M1 v, cpool_mem M1)" "length H \<le> length G" using pool_inv [OF r f] by blast
  note v = pool_inc_view [OF f]
  have tok: "tree_ok (cpool_at M1 v, cpool_mem M1)" using t Some v(2) by (simp add: vol_tree_ok_def)
  have H: "length H + unat n < 2 ^ 31" using inv(2) n(2) by simp
  let ?L = "lru_view (cpool_at M v, cpool_mem M)"
  obtain basket p mem where c: "cache_find_pool first (unat n) (cpool_at M1 v, cpool_mem M1) = Some (int (length (lru_hits first (unat n) ?L)), basket, p, mem)"
      "map (map_option (\<lambda>l. leaf_data (leaf_at mem l))) basket = map (map_of ?L) (lru_keys first (unat n))"
    using find_is_lru [OF inv(1) tok n(1) H] unfolding v(1) by auto
  let ?M' = "cpool_dec v (M1\<lparr>cpool_at := (cpool_at M1)(v := p), cpool_mem := mem\<rparr>)"
  have "op_frame F (cpool_at M1 v, cpool_mem M1) (p, mem)" by (rule cache_find_frame [OF inv(1) c(1)])
  then have "volid p = volid (cpool_at M1 v)" by (simp add: op_frame_def)
  then have "fst (find_cache_pool vid ?M') = fst (find_cache_pool vid M)"
    by (intro find_pool_cong) (simp_all add: cpool_dec_def upd_cpool_def v(3,4))
  moreover have "basket_leaves basket = []" if "lru_hits first (unat n) ?L = []"
  proof -
    have "\<forall>k \<in> set (lru_keys first (unat n)). map_of ?L k = None" using that by (simp add: lru_hits_def filter_empty_conv)
    then have "set (map (map_option (\<lambda>l. leaf_data (leaf_at mem l))) basket) \<subseteq> {None}" unfolding c(2) by auto
    then have "\<forall>x \<in> set basket. x = None" by auto
    then show ?thesis by (simp add: basket_leaves_def filter_empty_conv)
  qed
  moreover have "cpool_mem ?M' = mem" by (simp add: cpool_dec_def upd_cpool_def)
  ultimately show ?thesis using c Some by (auto simp: cache_find_def f vol_cached_def lru_keys_def comp_def)
qed

text \<open>An update when the allocators do not fail.\<close>

lemma cache_update_cached:
  assumes r: "cm_reach M R G D K" and v: "find_cache_pool vid M = (Some v, M1)" and size: "length ds \<le> unat (cache_size (cpool_at M v))" "ds \<noteq> []"
    and al: "allocs_fresh allocs first ds (cache_reclaim (of_nat (length ds)) (cpool_at M1 v, cpool_mem M1))" "None \<notin> set allocs" "node_ok (cpool_mem M)"
    and n: "unat first + length ds \<le> 2 ^ 64" and u: "cache_update allocs vid first ds M = (ret, M')"
  shows "ret = 0" "i < length ds \<Longrightarrow> vol_cached vid M' (first + of_nat i) = Some (ds ! i)" "vol_tree_ok vid M'" "fst (find_cache_pool vid M') = Some v"
proof -
  let ?st = "(cpool_at M1 v, cpool_mem M1)"
  let ?rc = "cache_reclaim (of_nat (length ds)) ?st"
  note w = pool_inc_view [OF v]
  obtain F H where inv: "cp_inv F H ?st" using pool_inv [OF r v] by blast
  have inv2: "cp_inv F H ?rc" using kick_any_spec [OF inv] inv by (simp add: cache_reclaim_def Let_def)
  have len: "unat (of_nat (length ds) :: u32) = length ds"
    using size(1) unsigned_less [of "cache_size (cpool_at M v)", where 'a = nat] by (simp add: unsigned_of_nat take_bit_nat_eq_self)
  have "\<not> (of_nat (length ds) > cache_size (cpool_at M1 v) \<or> cache_size (cpool_at M1 v) = 0)"
    using size len w(6) by (auto simp: word_less_nat_alt)
  moreover obtain p mem where l: "update_loop allocs first ds 0 ?rc = (0, p, mem)" "lru_view (p, mem) = lru_fill (replicate (length ds) True) first ds (lru_view ?rc)"
      "tree_ok (p, mem)" "cp_inv F H (p, mem)"
    using update_loop_fill [OF inv2 al(1,2)] al(3) size(2) reclaim_node_ok [of _ ?st] w(5) by (cases "update_loop allocs first ds 0 ?rc") auto
  ultimately have c: "cache_update_pool allocs first ds ?st = (0, p, mem)" by (simp add: cache_update_pool_def Let_def)
  have M': "ret = 0" "M' = cpool_dec v (M1\<lparr>cpool_at := (cpool_at M1)(v := p), cpool_mem := mem\<rparr>)"
    using u by (simp_all add: cache_update_def v on_cpool_def c)
  have "op_frame F ?st (p, mem)" using cache_update_frame [OF inv al(1)] c by simp
  then have "volid p = volid (cpool_at M1 v)" by (simp add: op_frame_def)
  then have "fst (find_cache_pool vid M') = fst (find_cache_pool vid M)" unfolding M'(2)
    by (intro find_pool_cong) (simp_all add: cpool_dec_def upd_cpool_def w(3,4))
  then show f: "fst (find_cache_pool vid M') = Some v" by (simp add: v)
  have p: "lru_view (cpool_at M' v, cpool_mem M') = lru_view (p, mem)" "tree_ok (cpool_at M' v, cpool_mem M') \<longleftrightarrow> tree_ok (p, mem)"
    by (simp_all add: M'(2) cpool_dec_def upd_cpool_def lru_view_def tree_ok_def)
  show "ret = 0" by (fact M'(1))
  show "vol_tree_ok vid M'" using f l(3) p(2) by (simp add: vol_tree_ok_def)
  show "vol_cached vid M' (first + of_nat i) = Some (ds ! i)" if i: "i < length ds"
  proof -
    have "unat (first + of_nat i) = unat first + i" by (rule unat_add_small) (use i n in simp)
    then show ?thesis unfolding vol_cached_def f option.simps p(1) l(2) lru_fill_lookup [OF n] using i by simp
  qed
qed

end
