(* ===== verification/Md_Cache_Props.thy ===== *)
theory Md_Cache_Props
  imports Md_Cache Cache_Fill
begin

text \<open>
  What the metadata cache promises: a query says of every block of its range exactly what is cached under it, and an item that went
  through the cache comes back with the same replicas at the same places.
\<close>

subsection \<open>Blocks\<close>

text \<open>What an entry and an item say of a block: its HBID, and for every replica the datanode and the place there.\<close>

type_synonym block_md = "u64 \<times> (u32 \<times> u32 \<times> (u32 \<times> nat) option) list"

definition citem_block :: "mcache_item_t \<Rightarrow> block_md" where
  "citem_block c = (HBID c, map (\<lambda>loc. (mc_ipaddr loc, mc_port loc, Some (mc_rbid loc, unat (mc_offset loc)))) (take (mc_num_dnLoc c) (mc_udata_dnLoc c)))"

definition item_block :: "metaD_item_t \<Rightarrow> nat \<Rightarrow> block_md" where
  "item_block md i = (arr_HBID md ! i, map (\<lambda>loc. (ipaddr loc, port loc, phy_of (loc_triples loc) i)) (take (num_dnLoc md) (udata_dnLoc md)))"

definition citem_ok :: "mcache_item_t \<Rightarrow> bool" where
  "citem_ok c \<longleftrightarrow> mc_num_dnLoc c \<le> MAX_NUM_REPLICA \<and> length (mc_udata_dnLoc c) = MAX_NUM_REPLICA \<and>
     (\<forall>loc \<in> set (take (mc_num_dnLoc c) (mc_udata_dnLoc c)). unat (mc_offset loc) < 2 ^ 20)"

definition loc_ok :: "nat \<Rightarrow> metaD_DNLoc_t \<Rightarrow> bool" where
  "loc_ok n loc \<longleftrightarrow> unat (num_phyLocs loc) \<le> length (rbid_len_offset loc) \<and> n \<le> phy_len (loc_triples loc) \<and> phy_len (loc_triples loc) < 2 ^ 11 \<and>
     (\<forall>t \<in> set (loc_triples loc). trip_off t + trip_len t \<le> 2 ^ 20)"

definition item_ok :: "metaD_item_t \<Rightarrow> bool" where
  "item_ok md \<longleftrightarrow> num_hbids md \<le> MAX_LBS_PER_IOR \<and> length (arr_HBID md) = MAX_LBS_PER_IOR \<and> num_dnLoc md \<le> MAX_NUM_REPLICA \<and>
     length (udata_dnLoc md) = MAX_NUM_REPLICA \<and> (\<forall>loc \<in> set (take (num_dnLoc md) (udata_dnLoc md)). loc_ok (num_hbids md) loc)"

lemma write_prefix_nth: "i < length arr \<Longrightarrow> write_prefix xs arr ! i = (if i < length xs then xs ! i else arr ! i)"
  by (auto simp: write_prefix_def nth_append min_def)

lemma write_prefix_length [simp]: "length (write_prefix xs arr) = length arr"
  by (simp add: write_prefix_def)

lemma write_prefix_take: "length xs \<le> length arr \<Longrightarrow> take (length xs) (write_prefix xs arr) = xs"
  by (simp add: write_prefix_def)

subsection \<open>From entries to an item\<close>

definition entry_triple :: "nat \<Rightarrow> mcache_item_t \<Rightarrow> u64" where
  "entry_triple j c = compose_triple (mc_rbid (mc_udata_dnLoc c ! j)) 1 (mc_offset (mc_udata_dnLoc c ! j))"

lemma entry_triple_fields:
  assumes "citem_ok c" "j < mc_num_dnLoc c"
  shows "trip_rbid (entry_triple j c) = mc_rbid (mc_udata_dnLoc c ! j)" "trip_len (entry_triple j c) = 1"
    "trip_off (entry_triple j c) = unat (mc_offset (mc_udata_dnLoc c ! j))"
proof -
  let ?o = "unat (mc_offset (mc_udata_dnLoc c ! j))"
  have "mc_udata_dnLoc c ! j \<in> set (take (mc_num_dnLoc c) (mc_udata_dnLoc c))"
    using assms by (auto simp: citem_ok_def in_set_conv_nth intro!: exI [of _ j])
  then have "?o < 2 ^ 20" using assms(1) by (simp add: citem_ok_def)
  from trip_compose [of 1, OF _ this] show "trip_rbid (entry_triple j c) = mc_rbid (mc_udata_dnLoc c ! j)" "trip_len (entry_triple j c) = 1"
    "trip_off (entry_triple j c) = ?o" by (simp_all add: entry_triple_def)
qed

lemma create_loc:
  assumes cs: "0 < length cs" "length cs \<le> MAX_LBS_PER_IOR" "\<And>c. c \<in> set cs \<Longrightarrow> citem_ok c \<and> j < mc_num_dnLoc c"
    and loc: "length (rbid_len_offset loc) = MAX_LBS_PER_IOR"
  shows "loc_triples (create_DNLoc cs j loc) = map (entry_triple j) cs" "ipaddr (create_DNLoc cs j loc) = mc_ipaddr (mc_udata_dnLoc (hd cs) ! j)"
    "port (create_DNLoc cs j loc) = mc_port (mc_udata_dnLoc (hd cs) ! j)" "loc_ok (length cs) (create_DNLoc cs j loc)"
    "i < length cs \<Longrightarrow> phy_of (loc_triples (create_DNLoc cs j loc)) i =
       Some (mc_rbid (mc_udata_dnLoc (cs ! i) ! j), unat (mc_offset (mc_udata_dnLoc (cs ! i) ! j)))"
proof -
  let ?l = "create_DNLoc cs j loc"
  have n: "unat (of_nat (length cs) :: u16) = length cs" using cs(2) by (simp add: unsigned_of_nat take_bit_nat_eq_self MAX_LBS_PER_IOR_def)
  have f: "num_phyLocs ?l = of_nat (length cs)" "rbid_len_offset ?l = write_prefix (map (entry_triple j) cs) (rbid_len_offset loc)"
    by (simp_all add: create_DNLoc_def MData_init_DNLoc_def Let_def entry_triple_def [abs_def])
  show t: "loc_triples ?l = map (entry_triple j) cs"
    unfolding loc_triples_def f n using write_prefix_take [of "map (entry_triple j) cs" "rbid_len_offset loc"] cs(2) loc by simp
  show "ipaddr ?l = mc_ipaddr (mc_udata_dnLoc (hd cs) ! j)" "port ?l = mc_port (mc_udata_dnLoc (hd cs) ! j)"
    by (simp_all add: create_DNLoc_def MData_init_DNLoc_def Let_def)
  have u: "\<forall>t \<in> set (loc_triples ?l). trip_len t = 1" using cs(3) entry_triple_fields(2) by (auto simp: t)
  show "loc_ok (length cs) ?l"
    using phy_len_units [OF u] u cs(2) loc trip_off_less unfolding loc_ok_def f n
    by (auto simp: t MAX_LBS_PER_IOR_def Suc_le_eq)
  show "phy_of (loc_triples ?l) i = Some (mc_rbid (mc_udata_dnLoc (cs ! i) ! j), unat (mc_offset (mc_udata_dnLoc (cs ! i) ! j)))" if "i < length cs"
    unfolding phy_of_units [OF u] using that cs(3) [of "cs ! i"] entry_triple_fields [of "cs ! i" j] by (simp add: t)
qed

lemma create_MDItem_block:
  assumes cs: "0 < length cs" "length cs \<le> MAX_LBS_PER_IOR" "\<And>c. c \<in> set cs \<Longrightarrow> citem_ok c \<and> same_DN (hd cs) c"
  shows "item_ok (create_MDItem lb cs)" "num_hbids (create_MDItem lb cs) = length cs" "lbid_s (create_MDItem lb cs) = unat lb"
    "mdata_stat (create_MDItem lb cs) = MData_VALID"
    "i < length cs \<Longrightarrow> item_block (create_MDItem lb cs) i = citem_block (cs ! i)"
proof -
  let ?m = "create_MDItem lb cs" and ?n = "mc_num_dnLoc (hd cs)"
  have hd: "hd cs \<in> set cs" using cs(1) by simp
  then have n: "?n \<le> MAX_NUM_REPLICA" using cs(3) by (simp add: citem_ok_def)
  have num: "citem_ok c \<and> mc_num_dnLoc c = ?n" if "c \<in> set cs" for c using cs(3) [OF that] by (simp add: same_DN_def)
  have f: "num_dnLoc ?m = ?n" "num_hbids ?m = length cs" "lbid_s ?m = unat lb" "mdata_stat ?m = MData_VALID"
    "arr_HBID ?m = write_prefix (map HBID cs) (replicate MAX_LBS_PER_IOR 0)"
    "udata_dnLoc ?m = write_prefix (map (\<lambda>j. create_DNLoc cs j (replicate MAX_NUM_REPLICA metaD_DNLoc0 ! j)) [0..<?n]) (replicate MAX_NUM_REPLICA metaD_DNLoc0)"
    by (simp_all add: create_MDItem_def MData_init_MDItem_def metaD_item0_def Let_def)
  have locs: "take ?n (udata_dnLoc ?m) = map (\<lambda>j. create_DNLoc cs j metaD_DNLoc0) [0..<?n]"
    unfolding f using write_prefix_take [of "map (\<lambda>j. create_DNLoc cs j (replicate MAX_NUM_REPLICA metaD_DNLoc0 ! j)) [0..<?n]" "replicate MAX_NUM_REPLICA metaD_DNLoc0"] n by simp
  have len0: "length (rbid_len_offset metaD_DNLoc0) = MAX_LBS_PER_IOR" by (simp add: metaD_DNLoc0_def)
  note L = create_loc [OF cs(1,2) _ len0]
  show "item_ok ?m" unfolding item_ok_def f(1) locs using L(4) num cs(2) n by (auto simp: f(2,5,6))
  show "num_hbids ?m = length cs" "lbid_s ?m = unat lb" "mdata_stat ?m = MData_VALID" by (fact f)+
  show "item_block ?m i = citem_block (cs ! i)" if i: "i < length cs"
  proof -
    let ?c = "cs ! i"
    have c: "?c \<in> set cs" using i by simp
    have d: "length (mc_udata_dnLoc ?c) = MAX_NUM_REPLICA" using num [OF c] by (simp add: citem_ok_def)
    have tk: "take ?n (mc_udata_dnLoc ?c) = map ((!) (mc_udata_dnLoc ?c)) [0..<?n]"
      using n d by (intro nth_equalityI) auto
    have "same_DN (hd cs) ?c" using cs(3) [OF c] by simp
    then have "map (\<lambda>loc. (ipaddr loc, port loc, phy_of (loc_triples loc) i)) (take ?n (udata_dnLoc ?m)) =
        map (\<lambda>loc. (mc_ipaddr loc, mc_port loc, Some (mc_rbid loc, unat (mc_offset loc)))) (take ?n (mc_udata_dnLoc ?c))"
      unfolding locs tk using L(2,3,5) num i by (auto simp: same_DN_def)
    moreover have "arr_HBID ?m ! i = HBID ?c" unfolding f using i cs(2) by (simp add: write_prefix_nth)
    ultimately show ?thesis using num [OF c] by (simp add: item_block_def citem_block_def f(1))
  qed
qed

lemma merge_item_block:
  assumes "item_ok md"
  shows "item_block (merge_item md) i = item_block md i" "num_hbids (merge_item md) = num_hbids md" "lbid_s (merge_item md) = lbid_s md"
    "mdata_stat (merge_item md) = mdata_stat md"
proof -
  have "map (\<lambda>loc. (ipaddr loc, port loc, phy_of (loc_triples loc) i)) (map merge_loc (take (num_dnLoc md) (udata_dnLoc md))) =
      map (\<lambda>loc. (ipaddr loc, port loc, phy_of (loc_triples loc) i)) (take (num_dnLoc md) (udata_dnLoc md))"
    using assms merge_loc_places by (auto simp: item_ok_def loc_ok_def)
  then show "item_block (merge_item md) i = item_block md i" using assms by (simp add: merge_item_def item_block_def item_ok_def)
qed (simp_all add: merge_item_def)

subsection \<open>Segments\<close>

fun items_at :: "nat \<Rightarrow> metaD_item_t list \<Rightarrow> bool" where
  "items_at lb [] \<longleftrightarrow> True"
| "items_at lb (m # ms) \<longleftrightarrow> lbid_s m = lb \<and> 0 < num_hbids m \<and> mdata_stat m = MData_VALID \<and> items_at (lb + num_hbids m) ms"

definition items_blocks :: "metaD_item_t list \<Rightarrow> block_md list" where
  "items_blocks ms = concat (map (\<lambda>m. map (item_block m) [0..<num_hbids m]) ms)"

definition seg_blocks :: "mdata_seg \<Rightarrow> block_md option list" where
  "seg_blocks sg = (if seg_items sg = [] then replicate (seg_lbid_len sg) None else map Some (items_blocks (seg_items sg)))"

text \<open>The buckets of a query, one after the other from a block on: a bucket with items places them from its first block on.\<close>

fun segs_at :: "u32 \<Rightarrow> nat \<Rightarrow> mdata_seg list \<Rightarrow> bool" where
  "segs_at vol lb [] \<longleftrightarrow> True"
| "segs_at vol lb (sg # sgs) \<longleftrightarrow> seg_volumeID sg = vol \<and> unat (seg_lbid_start sg) = lb \<and> 0 < seg_lbid_len sg \<and> items_at lb (seg_items sg) \<and>
     segs_at vol (lb + seg_lbid_len sg) sgs"

lemma cont_DN_spec:
  "cont_DN_loop p xs k = k + length (takeWhile (same_DN p) xs)"
  by (induction xs arbitrary: k) auto

lemma take_takeWhile: "take (length (takeWhile P xs)) xs = takeWhile P xs"
  by (simp add: takeWhile_eq_take [symmetric])

lemma contLen_spec:
  assumes "cs \<noteq> []"
  shows "0 < GetContLenForSameDN cs" "GetContLenForSameDN cs \<le> length cs" "c \<in> set (take (GetContLenForSameDN cs) cs) \<Longrightarrow> same_DN (hd cs) c"
proof -
  obtain x xs where c: "cs = x # xs" using assms by (cases cs) auto
  have g: "GetContLenForSameDN (x # xs) = Suc (length (takeWhile (same_DN x) xs))" by (simp add: GetContLenForSameDN_def cont_DN_spec)
  show "0 < GetContLenForSameDN cs" by (simp add: g c)
  show "GetContLenForSameDN cs \<le> length cs" using g length_takeWhile_le [of "same_DN x" xs] by (simp add: c)
  show "same_DN (hd cs) c" if "c \<in> set (take (GetContLenForSameDN cs) cs)"
  proof -
    have "c = x \<or> c \<in> set (takeWhile (same_DN x) xs)" using that unfolding g c take_Suc_Cons take_takeWhile by simp
    then show ?thesis using set_takeWhileD [of c "same_DN x" xs] by (auto simp: c same_DN_def)
  qed
qed

lemma seg_loop_spec: "seg_len_loop ch xs k = k + length (takeWhile (\<lambda>x. (x \<noteq> None) = ch) xs)"
  by (induction xs arbitrary: k) auto

lemma seg_len_spec:
  assumes "md \<noteq> []" "get_max_seg_len md = (n, ch)"
  shows "0 < n" "n \<le> length md" "ch \<longleftrightarrow> hd md \<noteq> None" "x \<in> set (take n md) \<Longrightarrow> x \<noteq> None \<longleftrightarrow> ch" "n < length md \<Longrightarrow> md ! n \<noteq> None \<longleftrightarrow> \<not> ch"
proof -
  obtain y ys where c: "md = y # ys" using assms by (cases md) auto
  define P where "P = (\<lambda>x :: 'a option. (x \<noteq> None) = ch)"
  have ch: "ch \<longleftrightarrow> y \<noteq> None" and n: "n = Suc (length (takeWhile P ys))"
    using assms(2) by (auto simp: get_max_seg_len_def Let_def c seg_loop_spec P_def)
  show "0 < n" by (simp add: n)
  show "n \<le> length md" unfolding n c using length_takeWhile_le [of P ys] by simp
  show "ch \<longleftrightarrow> hd md \<noteq> None" by (simp add: c ch)
  show "x \<noteq> None \<longleftrightarrow> ch" if "x \<in> set (take n md)"
  proof -
    have "x = y \<or> x \<in> set (takeWhile P ys)" using that unfolding n c take_Suc_Cons take_takeWhile by simp
    then show ?thesis using set_takeWhileD [of x P ys] ch by (auto simp: P_def)
  qed
  show "md ! n \<noteq> None \<longleftrightarrow> \<not> ch" if "n < length md"
    using nth_length_takeWhile [of P ys] that unfolding n c P_def by simp
qed

lemma items_blocks_simps [simp]:
  "items_blocks [] = []" "items_blocks (m # ms) = map (item_block m) [0..<num_hbids m] @ items_blocks ms"
  by (simp_all add: items_blocks_def)

lemma merge_items_at: "items_at lb (merge_lr_triplet ms) \<longleftrightarrow> items_at lb ms"
  by (induction lb ms rule: items_at.induct) (simp_all add: merge_lr_triplet_def merge_item_def)

lemma create_loop_spec:
  assumes "\<And>c. c \<in> set cs \<Longrightarrow> citem_ok c" "length cs \<le> MAX_LBS_PER_IOR" "unat lb + length cs < 2 ^ 64" "create_loop ok lb cs k items = (res, k')"
  shows "k \<le> k' \<and> (case res of None \<Rightarrow> \<exists>j. k \<le> j \<and> j < k' \<and> \<not> ok j
    | Some items' \<Rightarrow> \<exists>new. items' = items @ new \<and> items_blocks (merge_lr_triplet new) = map citem_block cs \<and> items_at (unat lb) new \<and> (cs \<noteq> [] \<longrightarrow> new \<noteq> []))"
  using assms
proof (induction ok lb cs k items rule: create_loop.induct)
  case (1 ok lb k items)
  then show ?case by (auto simp: merge_lr_triplet_def)
next
  case (2 ok lb c cs k items)
  let ?cs = "c # cs" and ?n = "GetContLenForSameDN (c # cs)"
  show ?case
  proof (cases "ok k")
    case True
    let ?m = "create_MDItem lb (take ?n ?cs)"
    note n = contLen_spec [of ?cs, OF list.distinct(2)]
    have t: "length (take ?n ?cs) = ?n" "hd (take ?n ?cs) = hd ?cs" using n(1,2) by (auto simp: min_def)
    have u: "unat (lb + of_nat ?n) = unat lb + ?n" using 2(4) n(2) by (intro unat_add_small) (simp del: list.size)
    have tc: "citem_ok d \<and> same_DN (hd (take ?n ?cs)) d" if "d \<in> set (take ?n ?cs)" for d
      using 2(2) [OF in_set_takeD [OF that]] n(3) [OF that] unfolding t(2) by simp
    have tl: "0 < length (take ?n ?cs)" "length (take ?n ?cs) \<le> MAX_LBS_PER_IOR" unfolding t(1) using n(1,2) 2(3) by auto
    have m: "item_ok ?m" "num_hbids ?m = ?n" "lbid_s ?m = unat lb" "mdata_stat ?m = MData_VALID"
        "\<And>i. i < ?n \<Longrightarrow> item_block ?m i = citem_block (?cs ! i)"
      using create_MDItem_block [OF tl tc, where lb = lb] unfolding t(1) by simp_all
    have run: "create_loop ok (lb + of_nat ?n) (drop ?n ?cs) (k + 1) (items @ [?m]) = (res, k')" using 2(5) True by (simp add: Let_def)
    have IH: "k + 1 \<le> k' \<and> (case res of None \<Rightarrow> \<exists>j. k + 1 \<le> j \<and> j < k' \<and> \<not> ok j
      | Some items' \<Rightarrow> \<exists>new. items' = (items @ [?m]) @ new \<and> items_blocks (merge_lr_triplet new) = map citem_block (drop ?n ?cs) \<and>
          items_at (unat (lb + of_nat ?n)) new \<and> (drop ?n ?cs \<noteq> [] \<longrightarrow> new \<noteq> []))"
      by (rule 2(1) [OF refl]) (use True 2(2,3,4) n(2) u run in \<open>auto dest: in_set_dropD simp del: drop_Suc_Cons\<close>)
    show ?thesis
    proof (cases res)
      case None
      then show ?thesis using IH by (auto intro: Suc_leD)
    next
      case (Some items')
      then obtain new where new: "items' = (items @ [?m]) @ new" "items_blocks (merge_lr_triplet new) = map citem_block (drop ?n ?cs)"
        "items_at (unat (lb + of_nat ?n)) new" using IH by auto
      have "map (item_block (merge_item ?m)) [0..<?n] = map citem_block (take ?n ?cs)"
        using m(5) merge_item_block(1) [OF m(1)] n(2) by (intro nth_equalityI) (auto simp: min_def)
      then have "items_blocks (merge_lr_triplet (?m # new)) = map citem_block (take ?n ?cs @ drop ?n ?cs)"
        using new(2) by (simp add: merge_lr_triplet_def merge_item_block(2) [OF m(1)] m(2) del: append_take_drop_id)
      then have "items_blocks (merge_lr_triplet (?m # new)) = map citem_block ?cs" by (simp only: append_take_drop_id)
      moreover have "items_at (unat lb) (?m # new)" using new(3) m(2-4) n(1) u by simp
      ultimately show ?thesis using IH new(1) Some by (auto intro!: exI [of _ "?m # new"])
    qed
  next
    case False
    then show ?thesis using 2(5) by auto
  qed
qed

lemma create_metadata_spec:
  assumes "\<forall>c \<in> set cs. citem_ok c" "length cs \<le> MAX_LBS_PER_IOR" "cs \<noteq> []" "unat lb + length cs < 2 ^ 64" "create_metadata ok lb cs k = (res, k')"
  shows "k < k'" "res = None \<Longrightarrow> \<exists>j. k \<le> j \<and> j < k' \<and> \<not> ok j"
    "res = Some items \<Longrightarrow> items_blocks (merge_lr_triplet items) = map citem_block cs \<and> items_at (unat lb) (merge_lr_triplet items) \<and> merge_lr_triplet items \<noteq> []"
proof -
  have "k < k' \<and> (case res of None \<Rightarrow> \<exists>j. k \<le> j \<and> j < k' \<and> \<not> ok j
    | Some items \<Rightarrow> items_blocks (merge_lr_triplet items) = map citem_block cs \<and> items_at (unat lb) items \<and> items \<noteq> [])"
  proof (cases "ok k")
    case True
    then have "create_loop ok lb cs (k + 1) [] = (res, k')" using assms(5) by (simp add: create_metadata_def)
    from create_loop_spec [OF bspec [OF assms(1)] assms(2,4) this] assms(3) show ?thesis by (auto split: option.splits intro: Suc_leD)
  next
    case False
    then show ?thesis using assms(5) by (auto simp: create_metadata_def)
  qed
  then show "k < k'" "res = None \<Longrightarrow> \<exists>j. k \<le> j \<and> j < k' \<and> \<not> ok j"
    "res = Some items \<Longrightarrow> items_blocks (merge_lr_triplet items) = map citem_block cs \<and> items_at (unat lb) (merge_lr_triplet items) \<and> merge_lr_triplet items \<noteq> []"
    by (auto simp: merge_items_at) (simp add: merge_lr_triplet_def)
qed

text \<open>The labels are right as long as the blocks fit into 31 bits.\<close>

lemma scast_label: "unat (w :: u32) < 2 ^ 31 \<Longrightarrow> unat (scast w :: u64) = unat w"
proof -
  assume w: "unat w < 2 ^ 31"
  have "sint w = int (unat w)" by (rule sint_small [OF w])
  then have "(scast w :: u64) = of_nat (unat w)" by (metis of_int_of_nat_eq scast_eq)
  then show ?thesis using w by (simp add: unsigned_ucast_eq take_bit_nat_eq_self)
qed

lemma unat32_add_small: "unat (a :: u32) + n < 2 ^ 31 \<Longrightarrow> unat (a + of_nat n) = unat a + n"
proof -
  assume n: "unat a + n < 2 ^ 31"
  then have "unat (of_nat n :: u32) = n" by (simp add: unsigned_of_nat take_bit_nat_eq_self)
  then show ?thesis using n unat_add_lem [of a "of_nat n"] by simp
qed

definition seg_hit :: "mdata_seg \<Rightarrow> bool" where
  "seg_hit sg \<longleftrightarrow> seg_items sg \<noteq> []"

text \<open>
  A list of buckets that describes a range: every block has what is cached under it, the buckets lie side by side, and they alternate
  between hits and misses.
\<close>

definition segs_of :: "u32 \<Rightarrow> nat \<Rightarrow> mcache_item_t option list \<Rightarrow> mdata_seg list \<Rightarrow> bool" where
  "segs_of vol lb md sgs \<longleftrightarrow> concat (map seg_blocks sgs) = map (map_option citem_block) md \<and> segs_at vol lb sgs \<and>
     successively (\<lambda>a b. seg_hit a \<noteq> seg_hit b) sgs \<and> sum_list (map seg_lbid_len sgs) = length md \<and>
     (md \<noteq> [] \<longrightarrow> sgs \<noteq> [] \<and> (seg_hit (hd sgs) \<longleftrightarrow> hd md \<noteq> None))"

lemma segs_of_Cons:
  assumes md: "md \<noteq> []" "get_max_seg_len md = (n, ch)" and rest: "segs_of vol (lb + n) (drop n md) sgs"
    and b: "seg_items b \<noteq> [] \<longleftrightarrow> ch" "seg_blocks b = map (map_option citem_block) (take n md)" "items_at lb (seg_items b)"
      "seg_volumeID b = vol" "unat (seg_lbid_start b) = lb" "seg_lbid_len b = n"
  shows "segs_of vol lb md (b # sgs)"
proof -
  note sl = seg_len_spec [OF md]
  have alt: "successively (\<lambda>a b. seg_hit a \<noteq> seg_hit b) (b # sgs)"
  proof (cases "drop n md = []")
    case True
    then have "sgs = []" using rest by (cases sgs) (auto simp: segs_of_def)
    then show ?thesis by simp
  next
    case False
    then have "hd (drop n md) = md ! n" "n < length md" by (simp_all add: hd_drop_conv_nth)
    then show ?thesis using rest False sl(5) b(1) by (auto simp: successively_Cons segs_of_def seg_hit_def)
  qed
  have "concat (map seg_blocks (b # sgs)) = map (map_option citem_block) (take n md @ drop n md)"
    using rest b(2) by (simp add: segs_of_def del: append_take_drop_id)
  then show ?thesis using alt rest sl(1-3) b by (simp add: segs_of_def seg_hit_def)
qed

text \<open>The loop over the segments returns when the allocator does not fail for ever.\<close>

lemma query_loop_spec:
  assumes "\<And>j. N \<le> j \<Longrightarrow> ok j" "\<And>c. Some c \<in> set md \<Longrightarrow> citem_ok c" "length md \<le> MAX_LBS_PER_IOR" "unat ls + length md < 2 ^ 31"
  shows "\<exists>sgs k'. query_loop ok vol md ls k segs = Some (segs @ sgs, k') \<and> segs_of vol (unat ls) md sgs"
  using assms(2-4)
proof (induction "length md * (N + 1) + (N - k)" arbitrary: md ls k segs rule: less_induct)
  case less
  show ?case
  proof (cases "md = []")
    case True
    then show ?thesis by (simp add: query_loop.simps segs_of_def)
  next
    case False
    obtain n ch where g: "get_max_seg_len md = (n, ch)" by (metis prod.exhaust)
    note sl = seg_len_spec [OF False g]
    have at: "md ! i \<noteq> None \<longleftrightarrow> ch" if "i < n" for i
      using that sl(2) by (intro sl(4)) (auto simp: in_set_conv_nth intro!: exI [of _ i])
    have ls: "unat (ls + of_nat n) = unat ls + n" using less.prems(3) sl(2) by (intro unat32_add_small) simp
    have lab: "unat (scast ls :: u64) = unat ls" using less.prems(3) by (intro scast_label) simp
    have step: "\<exists>sgs k''. query_loop ok vol (drop n md) (ls + of_nat n) k' (segs @ [mdata_bucket vol ls n items]) = Some (segs @ sgs, k'') \<and> segs_of vol (unat ls) md sgs"
      if it: "items \<noteq> [] \<longleftrightarrow> ch" "seg_blocks (mdata_bucket vol ls n items) = map (map_option citem_block) (take n md)" "items_at (unat ls) items" for k' items
    proof -
      have "(length (drop n md) + 1) * (N + 1) \<le> length md * (N + 1)" using sl(1,2) by (intro mult_right_mono) auto
      then have "length (drop n md) * (N + 1) + (N - k') < length md * (N + 1) + (N - k)" by simp
      then have "\<exists>sgs k''. query_loop ok vol (drop n md) (ls + of_nat n) k' (segs @ [mdata_bucket vol ls n items]) =
          Some ((segs @ [mdata_bucket vol ls n items]) @ sgs, k'') \<and> segs_of vol (unat (ls + of_nat n)) (drop n md) sgs"
        by (rule less.hyps) (use less.prems sl(2) ls in \<open>auto dest: in_set_dropD\<close>)
      then obtain sgs k'' where r: "query_loop ok vol (drop n md) (ls + of_nat n) k' (segs @ [mdata_bucket vol ls n items]) = Some ((segs @ [mdata_bucket vol ls n items]) @ sgs, k'')"
        "segs_of vol (unat ls + n) (drop n md) sgs" unfolding ls by auto
      have "segs_of vol (unat ls) md (mdata_bucket vol ls n items # sgs)"
        by (rule segs_of_Cons [OF False g r(2)]) (use it lab in \<open>simp_all add: mdata_bucket_def\<close>)
      then show ?thesis using r(1) by auto
    qed
    show ?thesis
    proof (cases ch)
      case False
      then have "seg_blocks (mdata_bucket vol ls n []) = map (map_option citem_block) (take n md)"
        using sl(2) at by (auto simp: seg_blocks_def mdata_bucket_def intro!: nth_equalityI)
      then show ?thesis using step [of "[]" k] False g \<open>md \<noteq> []\<close> by (simp add: query_loop.simps [of ok vol md ls k segs])
    next
      case True
      let ?cs = "map the (take n md)"
      have cs: "take n md = map Some ?cs" using at True by (intro nth_equalityI) auto
      then have ok: "\<forall>c \<in> set ?cs. citem_ok c" using less.prems(1) by (metis in_set_takeD image_eqI list.set_map)
      obtain res k' where c: "create_metadata ok (scast ls) ?cs k = (res, k')" by (metis prod.exhaust)
      have pre: "length ?cs \<le> MAX_LBS_PER_IOR" "?cs \<noteq> []" "unat (scast ls :: u64) + length ?cs < 2 ^ 64" using less.prems(2,3) sl(1,2) lab by auto
      note C = create_metadata_spec [OF ok pre c]
      show ?thesis
      proof (cases res)
        case None
        have "k < N" using C(2) [OF None] assms(1) by (metis le_trans linorder_not_le)
        then have "length md * (N + 1) + (N - k') < length md * (N + 1) + (N - k)" using C(1) by simp
        from less.hyps [OF this less.prems, of segs] show ?thesis
          using True g c None \<open>md \<noteq> []\<close> by (simp add: query_loop.simps [of ok vol md ls k segs])
      next
        case (Some items)
        note I = C(3) [OF Some]
        have "seg_blocks (mdata_bucket vol ls n (merge_lr_triplet items)) = map (map_option citem_block) (take n md)"
          using I by (subst cs) (simp add: seg_blocks_def mdata_bucket_def)
        then show ?thesis using step [of "merge_lr_triplet items" k'] I lab True g c Some \<open>md \<noteq> []\<close> by (simp add: query_loop.simps [of ok vol md ls k segs])
      qed
    qed
  qed
qed

subsection \<open>From an item to entries\<close>

lemma unat_of_nat32: "n < 2 ^ 32 \<Longrightarrow> unat (of_nat n :: u32) = n"
  by (simp add: unsigned_of_nat take_bit_nat_eq_self)

lemma split_phyLoc_spec:
  assumes "phy_of ts (i - prev) = Some (r, f)" "prev \<le> i" "prev + phy_len ts < 2 ^ 11"
  shows "split_phyLoc i ts (of_nat prev) dn = dn\<lparr>mc_rbid := r, mc_offset := of_nat f\<rparr>"
  using assms
proof (induction ts arbitrary: prev)
  case (Cons t ts)
  have sum: "(of_nat (trip_len t) :: u32) + of_nat prev = of_nat (prev + trip_len t)" "(of_nat prev :: u32) + of_nat (trip_len t) = of_nat (prev + trip_len t)" by simp_all
  have "unat (of_nat (prev + trip_len t) :: u32) = prev + trip_len t" by (rule unat_of_nat32) (use Cons.prems(3) in simp)
  then have s: "sint (of_nat (prev + trip_len t) :: u32) = int (prev + trip_len t)"
    using sint_small [of "of_nat (prev + trip_len t)"] Cons.prems(3) by (simp del: of_nat_add)
  show ?case
  proof (cases "i < prev + trip_len t")
    case True
    then have "i - prev < trip_len t" using Cons.prems(2) by simp
    then have rf: "r = trip_rbid t" "f = trip_off t + (i - prev)" using Cons.prems(1) by simp_all
    have "(of_nat (trip_off t) :: u32) + of_nat i - of_nat prev = of_nat f" using Cons.prems(2) by (simp add: rf(2) of_nat_diff)
    then show ?thesis unfolding split_phyLoc.simps decompose_trip [of t] using True s by (simp add: sum(1) rf(1) del: of_nat_add)
  next
    case False
    then have "\<not> i - prev < trip_len t" by simp
    then have "phy_of ts (i - (prev + trip_len t)) = Some (r, f)" using Cons.prems(1) by simp
    from Cons.IH [OF this] False Cons.prems(3) have "split_phyLoc i ts (of_nat (prev + trip_len t)) dn = dn\<lparr>mc_rbid := r, mc_offset := of_nat f\<rparr>" by simp
    then show ?thesis unfolding split_phyLoc.simps decompose_trip [of t] using False s by (simp add: sum del: of_nat_add)
  qed
qed simp

lemma phy_of_bound:
  "phy_of ts i = Some (r, f) \<Longrightarrow> \<forall>t \<in> set ts. trip_off t + trip_len t \<le> n \<Longrightarrow> f < n"
  by (induction ts arbitrary: i) (auto split: if_splits)

lemma split_dnLoc_spec:
  assumes "loc_ok n loc" "i < n"
  obtains r f where "phy_of (loc_triples loc) i = Some (r, f)" "f < 2 ^ 20"
    "split_dnLoc i loc dn = dn\<lparr>mc_ipaddr := ipaddr loc, mc_port := port loc, mc_rbid := r, mc_offset := of_nat f\<rparr>"
proof -
  have "i < phy_len (loc_triples loc)" using assms by (simp add: loc_ok_def)
  then obtain r f where p: "phy_of (loc_triples loc) i = Some (r, f)" using phy_of_total by fastforce
  have "f < 2 ^ 20" by (rule phy_of_bound [OF p]) (use assms(1) in \<open>simp add: loc_ok_def\<close>)
  moreover have "split_dnLoc i loc dn = dn\<lparr>mc_ipaddr := ipaddr loc, mc_port := port loc, mc_rbid := r, mc_offset := of_nat f\<rparr>"
    using split_phyLoc_spec [of "loc_triples loc" i 0 r f] p assms(1) by (simp add: split_dnLoc_def loc_triples_def loc_ok_def)
  ultimately show ?thesis using that p by blast
qed

lemma split_one_block:
  assumes md: "item_ok md" and i: "i < num_hbids md"
  shows "citem_block (split_one md i mcache_item0) = item_block md i" "citem_ok (split_one md i mcache_item0)"
proof -
  let ?n = "num_dnLoc md" and ?c = "split_one md i mcache_item0"
  let ?locs = "map (\<lambda>m. split_dnLoc i (udata_dnLoc md ! m) (replicate MAX_NUM_REPLICA mcache_dnloc0 ! m)) [0..<?n]"
  have n: "?n \<le> MAX_NUM_REPLICA" "length (udata_dnLoc md) = MAX_NUM_REPLICA" using md by (simp_all add: item_ok_def)
  have tk: "take ?n (mc_udata_dnLoc ?c) = ?locs"
    using write_prefix_take [of ?locs "replicate MAX_NUM_REPLICA mcache_dnloc0"] n(1) by (simp add: split_one_def mcache_item0_def)
  have td: "take ?n (udata_dnLoc md) = map ((!) (udata_dnLoc md)) [0..<?n]" using n by (intro nth_equalityI) auto
  have f: "mc_num_dnLoc ?c = ?n" "HBID ?c = arr_HBID md ! i" "length (mc_udata_dnLoc ?c) = MAX_NUM_REPLICA"
    by (simp_all add: split_one_def mcache_item0_def)
  have loc: "(mc_ipaddr l, mc_port l, Some (mc_rbid l, unat (mc_offset l))) = (ipaddr (udata_dnLoc md ! m), port (udata_dnLoc md ! m), phy_of (loc_triples (udata_dnLoc md ! m)) i) \<and>
      unat (mc_offset l) < 2 ^ 20" if m: "m < ?n" "l = split_dnLoc i (udata_dnLoc md ! m) (replicate MAX_NUM_REPLICA mcache_dnloc0 ! m)" for m l
  proof -
    have "udata_dnLoc md ! m \<in> set (take ?n (udata_dnLoc md))" using m(1) by (simp add: td)
    then have "loc_ok (num_hbids md) (udata_dnLoc md ! m)" using md by (simp add: item_ok_def)
    from split_dnLoc_spec [OF this i, of "replicate MAX_NUM_REPLICA mcache_dnloc0 ! m"] obtain r f where p: "phy_of (loc_triples (udata_dnLoc md ! m)) i = Some (r, f)" "f < 2 ^ 20"
      "l = (replicate MAX_NUM_REPLICA mcache_dnloc0 ! m)\<lparr>mc_ipaddr := ipaddr (udata_dnLoc md ! m), mc_port := port (udata_dnLoc md ! m), mc_rbid := r, mc_offset := of_nat f\<rparr>"
      unfolding m(2) by blast
    have "unat (of_nat f :: u32) = f" using p(2) by (simp add: unsigned_of_nat take_bit_nat_eq_self)
    then show ?thesis using p by simp
  qed
  show "citem_block ?c = item_block md i"
    unfolding citem_block_def item_block_def f(1,2) tk td using loc by simp
  show "citem_ok ?c" unfolding citem_ok_def f(1,3) tk using loc n(1) by auto
qed

lemma alloc_all: "alloc_chItem_arr (map Some ps) arr S = (0, arr @ ps, S\<lparr>mdc_heap := (\<lambda>p. if p \<in> set ps then mcache_item0 else mdc_heap S p)\<rparr>)"
  by (induction ps arbitrary: arr S) (auto simp: fun_eq_iff)

lemma split_metadata_at:
  assumes "distinct arr" "num_hbids md \<le> length arr" "i < num_hbids md"
  shows "split_metadata md arr heap (arr ! i) = split_one md i (heap (arr ! i))"
proof -
  have "fold (\<lambda>i heap. heap(arr ! i := split_one md i (heap (arr ! i)))) [0..<n] heap (arr ! i) =
      (if i < n then split_one md i (heap (arr ! i)) else heap (arr ! i))" if "n \<le> length arr" for n
    using that assms
  proof (induction n)
    case (Suc n)
    then show ?case using nth_eq_iff_index_eq [of arr i n] by auto
  qed simp
  then show ?thesis using assms by (simp add: split_metadata_def)
qed

subsection \<open>Queries against the cache\<close>

text \<open>What the cache says of a block of a volume.\<close>

definition cached_block :: "u32 \<Rightarrow> mdcache_t \<Rightarrow> u64 \<Rightarrow> block_md option" where
  "cached_block vol S lb = map_option (\<lambda>d. citem_block (mdc_heap S d)) (vol_cached (ucast vol) (mdc_mgr S) lb)"

lemma query_reach:
  assumes r: "cm_reach M R G D K" and n: "unat lb + unat len < 2 ^ 64" "length G + unat len < 2 ^ 31"
    and f: "cache_find vid lb len (replicate (unat len) None) M = Some (ret, basket, M')"
    and b: "ret > 0 \<or> basket_leaves basket = []" "ret > 0 \<longrightarrow> fst (find_cache_pool vid M') \<noteq> None"
  shows "cm_reach (if ret > 0 then snd (cache_put vid basket M') else M') R G D K"
proof (cases "ret > 0")
  case True
  then obtain v M1 where v: "find_cache_pool vid M' = (Some v, M1)" using b(2) by (cases "find_cache_pool vid M'") auto
  have "cm_reach M' R (map (\<lambda>l. (l, blkid (leaf_at (cpool_mem M') l), leaf_data (leaf_at (cpool_mem M') l))) (basket_leaves basket) @ G) D K"
    using reach_cache_find [OF r n f] True by (auto simp: ENOENT_def)
  from reach_cache_put [OF this v] True show ?thesis by simp
next
  case False
  then show ?thesis using reach_cache_find [OF r n f] b(1) r by auto
qed

lemma query_cached:
  assumes r: "cm_reach (mdc_mgr S) R G D K" and t: "vol_tree_ok (ucast vol) (mdc_mgr S)"
    and n: "unat len \<le> MAX_LBS_PER_IOR" "unat lb + unat len < 2 ^ 31" "length G + unat len < 2 ^ 31"
    and e: "\<forall>i d. i < unat len \<and> vol_cached (ucast vol) (mdc_mgr S) (lb + of_nat i) = Some d \<longrightarrow> citem_ok (mdc_heap S d)"
    and ok: "\<forall>j \<ge> N. ok j"
  shows "\<exists>sgs S'. query_volume_MDCache ok vol lb len True S = Some (sgs, S') \<and> cm_reach (mdc_mgr S') R G D K \<and> mdc_heap S' = mdc_heap S \<and>
    mdc_freed S' = mdc_freed S \<and> concat (map seg_blocks sgs) = map (\<lambda>i. cached_block vol S (lb + of_nat i)) [0..<unat len] \<and>
    segs_at vol (unat lb) sgs \<and> successively (\<lambda>a b. seg_hit a \<noteq> seg_hit b) sgs \<and> sum_list (map seg_lbid_len sgs) = unat len"
proof -
  let ?vid = "ucast vol :: u64" and ?c = "\<lambda>i. vol_cached (ucast vol) (mdc_mgr S) (lb + of_nat i)"
  have n64: "unat lb + unat len < 2 ^ 64" using n(2) by simp
  obtain ret basket M' where f: "cache_find ?vid lb len (replicate (unat len) None) (mdc_mgr S) = Some (ret, basket, M')"
      "map (map_option (\<lambda>l. leaf_data (leaf_at (cpool_mem M') l))) basket = map ?c [0..<unat len]"
      "ret > 0 \<or> basket_leaves basket = []" "ret > 0 \<longrightarrow> fst (find_cache_pool ?vid M') \<noteq> None"
    using cache_find_cached [OF r t n64 n(3)] by blast
  let ?S1 = "S\<lparr>mdc_mgr := M'\<rparr>"
  have "basket_items basket ?S1 = map (map_option (mdc_heap S)) (map (map_option (\<lambda>l. leaf_data (leaf_at (cpool_mem M') l))) basket)"
    by (simp add: basket_items_def option.map_comp comp_def)
  then have items: "basket_items basket ?S1 = map (\<lambda>i. map_option (mdc_heap S) (?c i)) [0..<unat len]" unfolding f(2) by simp
  have len: "length (basket_items basket ?S1) = unat len" unfolding items by simp
  have lb: "unat (ucast lb :: u32) = unat lb" using n(2) by (intro unat_ucast_small) simp
  have ce: "citem_ok c" if c: "Some c \<in> set (basket_items basket ?S1)" for c
  proof -
    obtain i where "i \<in> set [0..<unat len]" "Some c = map_option (mdc_heap S) (?c i)" using c unfolding items set_map by blast
    then show ?thesis using e by (cases "?c i") auto
  qed
  have "\<exists>sgs k'. query_loop ok vol (basket_items basket ?S1) (ucast lb) 0 [] = Some ([] @ sgs, k') \<and> segs_of vol (unat (ucast lb :: u32)) (basket_items basket ?S1) sgs"
    by (rule query_loop_spec [of N]) (use ok ce n len lb in simp_all)
  then obtain sgs k' where q: "query_loop ok vol (basket_items basket ?S1) (ucast lb) 0 [] = Some (sgs, k')" "segs_of vol (unat lb) (basket_items basket ?S1) sgs"
    unfolding lb by auto
  let ?S' = "if ret > 0 then ?S1\<lparr>mdc_mgr := snd (cache_put ?vid basket M')\<rparr> else ?S1"
  have "query_volume_MDCache ok vol lb len True S = Some (sgs, ?S')" by (simp add: query_volume_MDCache_def f(1) q(1) Let_def)
  moreover have "cm_reach (mdc_mgr ?S') R G D K" using query_reach [OF r n64 n(3) f(1) f(3,4)] by (simp split: if_splits)
  moreover have "map (map_option citem_block) (basket_items basket ?S1) = map (\<lambda>i. cached_block vol S (lb + of_nat i)) [0..<unat len]"
    unfolding items by (simp add: cached_block_def option.map_comp comp_def)
  ultimately show ?thesis using q(2) len by (intro exI [of _ sgs] exI [of _ ?S']) (simp add: segs_of_def)
qed


text \<open>When every block is cached there is one bucket, with metadata.\<close>

lemma all_hits_one_seg:
  assumes "concat (map seg_blocks sgs) = map Some bs" "bs \<noteq> []" "segs_at vol lb sgs" "successively (\<lambda>a b. seg_hit a \<noteq> seg_hit b) sgs"
  shows "\<exists>sg. sgs = [sg] \<and> seg_hit sg \<and> items_blocks (seg_items sg) = bs"
proof -
  have hit: "seg_hit sg" if "sg \<in> set sgs" for sg
  proof (rule ccontr)
    assume "\<not> seg_hit sg"
    moreover have "0 < seg_lbid_len sg" using assms(3) that by (induction vol lb sgs rule: segs_at.induct) auto
    ultimately have "None \<in> set (seg_blocks sg)" by (simp add: seg_blocks_def seg_hit_def)
    then have "None \<in> set (concat (map seg_blocks sgs))" using that by auto
    then show False unfolding assms(1) by simp
  qed
  obtain sg rest where s: "sgs = sg # rest" using assms(1,2) by (cases sgs) auto
  have "rest = []" using assms(4) hit s by (cases rest) auto
  moreover have "seg_hit sg" using hit s by simp
  ultimately show ?thesis using assms(1) s by (auto simp: seg_blocks_def seg_hit_def inj_map_eq_map)
qed

lemma update_item_ok:
  assumes r: "cm_reach (mdc_mgr S) R G D K" and v: "find_cache_pool (ucast vol) (mdc_mgr S) = (Some v, M1)"
    and md: "item_ok md" "mdata_stat md = MData_VALID" "0 < num_hbids md" "num_hbids md \<le> unat (cache_size (cpool_at (mdc_mgr S) v))"
    and lb: "unat lb + num_hbids md \<le> 2 ^ 64" and ptrs: "length ptrs = num_hbids md" "distinct ptrs"
    and al: "allocs_fresh (map Some leaves) lb ptrs (cache_reclaim (of_nat (length ptrs)) (cpool_at M1 v, cpool_mem M1))" "node_ok (cpool_mem (mdc_mgr S))"
    and S1: "S1 = update_mdItem (map Some ptrs, map Some leaves) vol lb md S"
  shows "cm_reach (mdc_mgr S1) R G D K" "vol_tree_ok (ucast vol) (mdc_mgr S1)" "mdc_freed S1 = mdc_freed S"
    "i < num_hbids md \<Longrightarrow> vol_cached (ucast vol) (mdc_mgr S1) (lb + of_nat i) = Some (ptrs ! i) \<and> mdc_heap S1 (ptrs ! i) = split_one md i mcache_item0"
proof -
  obtain ret M where u: "cache_update (map Some leaves) (ucast vol) lb ptrs (mdc_mgr S) = (ret, M)" by (metis prod.exhaust)
  have ne: "ptrs \<noteq> []" and len: "length ptrs \<le> unat (cache_size (cpool_at (mdc_mgr S) v))" "unat lb + length ptrs \<le> 2 ^ 64" using md(3,4) ptrs(1) lb by auto
  note C = cache_update_cached [OF r v len(1) ne al(1) _ al(2) len(2) u]
  have some: "None \<notin> set (map Some leaves)" by simp
  have S1': "S1 = S\<lparr>mdc_mgr := M, mdc_heap := split_metadata md ptrs (\<lambda>p. if p \<in> set ptrs then mcache_item0 else mdc_heap S p)\<rparr>"
    unfolding S1 using md(2) u C(1) [OF some] by (simp add: update_mdItem_def alloc_all Let_def)
  have "cm_reach (snd (cache_update (map Some leaves) (ucast vol) lb ptrs (mdc_mgr S))) R G D K"
    by (rule reach_cache_update [OF r]) (use v al(1) in auto)
  then show "cm_reach (mdc_mgr S1) R G D K" by (simp add: u S1')
  show "vol_tree_ok (ucast vol) (mdc_mgr S1)" "mdc_freed S1 = mdc_freed S" using C(3) [OF some] by (simp_all add: S1')
  show "vol_cached (ucast vol) (mdc_mgr S1) (lb + of_nat i) = Some (ptrs ! i) \<and> mdc_heap S1 (ptrs ! i) = split_one md i mcache_item0" if "i < num_hbids md"
    using that C(2) [OF some, of i] split_metadata_at [OF ptrs(2), of md i] ptrs(1) by (simp add: S1')
qed

text \<open>
  (C11) Metadata that went through the cache comes back.  When the namenode's description of a range of blocks, any number of runs on any
  datanodes, is put into the cache of a volume whose pool is large enough and no allocation fails, then a query of the range
  returns a single bucket whose items have, for every block, the same HBID and for every replica the same datanode and the same place as the
  item that was put in; nothing is freed.
\<close>

theorem mdcache_round_trip:
  assumes "cm_reach (mdc_mgr S) R G D K" "find_cache_pool (ucast vol) (mdc_mgr S) = (Some v, M1)"
    and "item_ok md" "mdata_stat md = MData_VALID" "0 < num_hbids md" "num_hbids md \<le> unat (cache_size (cpool_at (mdc_mgr S) v))"
    and "unat lb + num_hbids md < 2 ^ 31" "length G + num_hbids md < 2 ^ 31" "length ptrs = num_hbids md" "distinct ptrs"
    and "allocs_fresh (map Some leaves) lb ptrs (cache_reclaim (of_nat (length ptrs)) (cpool_at M1 v, cpool_mem M1))" "node_ok (cpool_mem (mdc_mgr S))"
    and "\<forall>j \<ge> N. ok j"
    and "S1 = snd (update_volume_MDCache [(map Some ptrs, map Some leaves)] (Some [md]) vol lb (of_nat (num_hbids md)) True False S)"
  shows "\<exists>sg S2. query_volume_MDCache ok vol lb (of_nat (num_hbids md)) True S1 = Some ([sg], S2) \<and>
    items_blocks (seg_items sg) = map (item_block md) [0..<num_hbids md] \<and> items_at (unat lb) (seg_items sg) \<and>
    seg_volumeID sg = vol \<and> unat (seg_lbid_start sg) = unat lb \<and> seg_lbid_len sg = num_hbids md \<and> mdc_freed S2 = mdc_freed S"
proof -
  have S1: "S1 = update_mdItem (map Some ptrs, map Some leaves) vol lb md S" using assms(14) by (simp add: update_volume_MDCache_def)
  have lb: "unat lb + num_hbids md \<le> 2 ^ 64" using assms(7) by simp
  note U = update_item_ok [OF assms(1-6) lb assms(9-12) S1]
  have n: "unat (of_nat (num_hbids md) :: u32) = num_hbids md" by (rule unat_of_nat32) (use assms(7) in simp)
  have n2: "unat (of_nat (num_hbids md) :: u32) \<le> MAX_LBS_PER_IOR" "unat lb + unat (of_nat (num_hbids md) :: u32) < 2 ^ 31" "length G + unat (of_nat (num_hbids md) :: u32) < 2 ^ 31"
    unfolding n using assms(3,7,8) by (simp_all add: item_ok_def)
  have e: "\<forall>i d. i < unat (of_nat (num_hbids md) :: u32) \<and> vol_cached (ucast vol) (mdc_mgr S1) (lb + of_nat i) = Some d \<longrightarrow> citem_ok (mdc_heap S1 d)"
    unfolding n using U(4) split_one_block(2) [OF assms(3)] by auto
  obtain sgs S2 where q: "query_volume_MDCache ok vol lb (of_nat (num_hbids md)) True S1 = Some (sgs, S2)" "mdc_freed S2 = mdc_freed S1"
      "concat (map seg_blocks sgs) = map (\<lambda>i. cached_block vol S1 (lb + of_nat i)) [0..<num_hbids md]" "segs_at vol (unat lb) sgs"
      "successively (\<lambda>a b. seg_hit a \<noteq> seg_hit b) sgs" "sum_list (map seg_lbid_len sgs) = num_hbids md"
    using query_cached [OF U(1,2) n2 e assms(13)] unfolding n by blast
  have "map (\<lambda>i. cached_block vol S1 (lb + of_nat i)) [0..<num_hbids md] = map Some (map (item_block md) [0..<num_hbids md])"
    using U(4) split_one_block(1) [OF assms(3)] by (auto simp: cached_block_def)
  from all_hits_one_seg [OF q(3) [unfolded this] _ q(4,5)] assms(5) obtain sg where "sgs = [sg]" "items_blocks (seg_items sg) = map (item_block md) [0..<num_hbids md]" by auto
  then show ?thesis using q U(3) by (intro exI [of _ sg] exI [of _ S2]) simp
qed

subsection \<open>An example\<close>

text \<open>Two blocks in one run on one datanode, put into the empty pool of a volume.\<close>

definition mdc_sample :: mdcache_t where
  "mdc_sample = \<lparr>mdc_mgr = cm_sample, mdc_heap = \<lambda>_. mcache_item0, mdc_freed = []\<rparr>"

definition md_sample :: metaD_item_t where
  "md_sample = metaD_item0\<lparr>num_dnLoc := 1, num_hbids := 2, arr_HBID := [101, 102] @ replicate 31 0,
     udata_dnLoc := [metaD_DNLoc0\<lparr>ipaddr := 1, port := 2, num_phyLocs := 1, rbid_len_offset := compose_triple 7 2 40 # replicate 32 0\<rparr>, metaD_DNLoc0, metaD_DNLoc0]\<rparr>"

definition mdc_sample1 :: mdcache_t where
  "mdc_sample1 = update_mdItem (map Some [100, 200], map Some [20, 21]) 5 0 md_sample mdc_sample"

lemma trip_sample: "trip_rbid (compose_triple 7 2 40) = 7" "trip_len (compose_triple 7 2 40) = 2" "trip_off (compose_triple 7 2 40) = 40"
  using trip_compose [of 2 40 7] by simp_all

lemma md_sample_simps [simp]: "num_hbids md_sample = 2" "mdata_stat md_sample = MData_VALID" "num_dnLoc md_sample = 1"
  by (simp_all add: md_sample_def metaD_item0_def)

lemma md_sample_ok: "item_ok md_sample"
  by (simp add: item_ok_def md_sample_def metaD_item0_def MAX_LBS_PER_IOR_def MAX_NUM_REPLICA_def loc_ok_def loc_triples_def trip_sample)

lemma md_sample_blocks: "map (item_block md_sample) [0..<2] = [(101, [(1, 2, Some (7, 40))]), (102, [(1, 2, Some (7, 41))])]"
  by (simp add: item_block_def md_sample_def metaD_item0_def loc_triples_def trip_sample upt_rec)

lemma cm_sample_pool: "cpool_at cm_sample (Suc 0) = cache_pool_new 5 40960 10" "cpool_mem cm_sample = cache_mem0"
  by (simp_all add: cm_sample_def add_to_tbl_def cm_start_def init_cacheMgr_def cpool_new_def cache_pool_new_def cpool_hash_def
      CACHE_POOL_HSIZE_def find_cache_pool_nolock_def Let_def cache_mem0_def BIT_LEN_DMS_LB_SIZE_def)

lemma cm_sample_find: "find_cache_pool 5 cm_sample = (Some 1, cpool_inc 1 cm_sample)"
  by (simp add: find_cache_pool_def find_cache_pool_nolock_def cm_sample_tbl cpool_hash_def CACHE_POOL_HSIZE_def cm_sample_pool cache_pool_new_def)

lemma md_sample_fresh:
  "allocs_fresh (map Some [20, 21]) 0 [100, 200] (cache_reclaim (of_nat (length [100 :: nat, 200])) (cpool_at (cpool_inc 1 cm_sample) 1, cpool_mem (cpool_inc 1 cm_sample)))"
  by (simp add: cpool_inc_def upd_cpool_def cm_sample_pool cache_eval)

lemma node_ok_sample: "node_ok (cpool_mem cm_sample)"
  by (simp add: node_ok_def cm_sample_pool cache_mem0_def)

theorem mdcache_round_trip_witness:
  "\<exists>sg S2. query_volume_MDCache (\<lambda>j. 4 \<le> j) 5 0 2 True (snd (update_volume_MDCache [(map Some [100, 200], map Some [20, 21])] (Some [md_sample]) 5 0 2 True False mdc_sample)) =
     Some ([sg], S2) \<and> items_blocks (seg_items sg) = [(101, [(1, 2, Some (7, 40))]), (102, [(1, 2, Some (7, 41))])]"
  using mdcache_round_trip [of mdc_sample "[]" "[]" "[]" "{}" 5 1 "cpool_inc 1 cm_sample" md_sample 0 "[100, 200]" "[20, 21]" 4 "\<lambda>j. 4 \<le> j", OF _ _ md_sample_ok _ _ _ _ _ _ _ _ _ _ refl]
    cm_sample_reach cm_sample_find md_sample_fresh node_ok_sample md_sample_blocks
  by (auto simp: mdc_sample_def cm_sample_pool cache_pool_new_def)

lemma mdc_sample1_ok:
  shows "cm_reach (mdc_mgr mdc_sample1) [] [] [] {}" "vol_tree_ok 5 (mdc_mgr mdc_sample1)"
    "vol_cached 5 (mdc_mgr mdc_sample1) 0 = Some 100" "mdc_heap mdc_sample1 100 = split_one md_sample 0 mcache_item0"
proof -
  have r: "cm_reach (mdc_mgr mdc_sample) [] [] [] {}" "find_cache_pool (ucast (5 :: u32)) (mdc_mgr mdc_sample) = (Some 1, cpool_inc 1 cm_sample)"
    "node_ok (cpool_mem (mdc_mgr mdc_sample))" using cm_sample_reach cm_sample_find node_ok_sample by (simp_all add: mdc_sample_def)
  have n: "0 < num_hbids md_sample" "num_hbids md_sample \<le> unat (cache_size (cpool_at (mdc_mgr mdc_sample) 1))" "unat (0 :: u64) + num_hbids md_sample \<le> 2 ^ 64"
    "length [100 :: nat, 200] = num_hbids md_sample" "distinct [100 :: nat, 200]" by (simp_all add: mdc_sample_def cm_sample_pool cache_pool_new_def)
  note U = update_item_ok [OF r(1,2) md_sample_ok md_sample_simps(2) n md_sample_fresh r(3) mdc_sample1_def]
  show "cm_reach (mdc_mgr mdc_sample1) [] [] [] {}" "vol_tree_ok 5 (mdc_mgr mdc_sample1)"
    "vol_cached 5 (mdc_mgr mdc_sample1) 0 = Some 100" "mdc_heap mdc_sample1 100 = split_one md_sample 0 mcache_item0"
    using U(1,2) U(4) [of 0] by simp_all
qed


subsection \<open>Corners\<close>

text \<open>
  The first block of a query is kept in a signed 32-bit number: from block $2^{31}$ on the buckets carry the numbers of other blocks.
\<close>

lemma query_label_truncated:
  "query_loop ok vol [None] (ucast (0x80000000 :: u64)) k [] = Some ([\<lparr>seg_volumeID = vol, seg_lbid_start = 0xffffffff80000000, seg_lbid_len = 1, seg_items = []\<rparr>], k)"
proof -
  have "(scast (0x80000000 :: u32) :: u64) = 0xffffffff80000000" by code_simp
  then show ?thesis by (simp add: query_loop.simps [of _ _ "[None]"] query_loop.simps [of _ _ "[]"] get_max_seg_len_def mdata_bucket_def Let_def)
qed

text \<open>When an item cannot be allocated, the loop tries again without end.\<close>

lemma query_never_returns: "query_loop (\<lambda>_. False) vol [Some c] ls k segs = None"
proof (cases "query_loop (\<lambda>_. False) vol [Some c] ls k segs")
  case (Some r)
  let ?P = "\<lambda>ok (vol :: u32) md (ls :: u32) (k :: nat) (segs :: mdata_seg list) (r :: mdata_seg list \<times> nat). \<not> (ok = (\<lambda>_ :: nat. False) \<and> md = [Some c])"
  have "?P (\<lambda>_. False) vol [Some c] ls k segs r"
  proof (rule query_loop.raw_induct [where P = ?P, OF _ Some], rule notI, goal_cases)
    case (1 f ok vol md ls k segs r)
    then have "f ok vol md ls (k + 1) segs = Some r" by (simp add: get_max_seg_len_def create_metadata_def Let_def)
    from 1(1) [OF this] 1(3) show False by blast
  qed
  then show ?thesis by simp
qed simp

text \<open>
  An update whose last entry goes in reports success even when the leaf of an earlier one could not be allocated; under that block
  the cache keeps what it had before, which the update was meant to replace.
\<close>

lemma stale_entry_survives:
  assumes "cp_inv F H st" "node_ok (snd st)" "\<not> leaf_live (snd st) l" "update_loop [None, Some l] key [d, d'] 0 st = (ret, st')"
  shows "ret = 0 \<and> map_of (lru_view st') key = map_of (lru_view st) key"
proof -
  obtain r1 st1 where u1: "update_one None key d st = (r1, st1)" by (metis prod.exhaust)
  obtain r2 st2 where u2: "update_one (Some l) (key + 1) d' st1 = (r2, st2)" by (metis prod.exhaust)
  have s1: "cp_inv F H st1" "lru_view st1 = lru_view st" using update_one_spec [OF assms(1) _ u1] u1 by (auto simp: update_one_def ENOMEM_def)
  have st1: "node_ok (snd st1)" "\<not> leaf_live (snd st1) l" using u1 assms(2,3) by (auto simp: update_one_def node_ok_def)
  have r2: "r2 = 0" using update_one_ok [OF st1(1) u2] by simp
  then have "lru_view st2 = lru_insert (key + 1) d' (lru_view st)" using update_one_spec [OF s1(1) _ u2] st1(2) s1(2) by (auto simp: ENOMEM_def)
  moreover have "map_of (filter (\<lambda>e. fst e \<noteq> key + 1) L) key = map_of L key" for L :: "(u64 \<times> nat) list" by (induction L) auto
  moreover have "ret = r2" "st' = st2" using assms(4) u1 u2 by simp_all
  ultimately show ?thesis using r2 by (simp add: lru_insert_def)
qed

text \<open>
  When the last insertion of an update fails, the cache has freed the entry already; the caller frees it again.
\<close>

definition mdc_sample_nomem :: mdcache_t where
  "mdc_sample_nomem = mdc_sample\<lparr>mdc_mgr := cm_sample\<lparr>cpool_mem := cache_mem0\<lparr>node_mem := \<lparr>kmem_ok = \<lambda>_. False, kmem_calls = 0, dms_node_count = 0\<rparr>\<rparr>\<rparr>\<rparr>"

lemma invalidate_freed: "set (citem_freed (snd st)) \<subseteq> set (citem_freed (snd (invalidate_loop key n st)))"
proof (induction n arbitrary: key st)
  case (Suc n)
  obtain found st1 where d: "tree_delete key st = (found, st1)" by (metis prod.exhaust)
  have f1: "citem_freed (snd st1) = citem_freed (snd st)" using d by (auto simp: tree_delete_def split: prod.splits)
  show ?case
  proof (cases found)
    case None
    then show ?thesis using Suc [of st1 "key + 1"] f1 d by simp
  next
    case (Some l)
    have "set (citem_freed (snd st1)) \<subseteq> set (citem_freed (leaf_drop l (snd st1)))" by (auto simp: leaf_drop_def release_tree_leaf_def upd_leaf_def)
    then show ?thesis using Suc [of "(lru_del l (fst st1), leaf_drop l (snd st1))" "key + 1"] f1 d Some by auto
  qed
qed simp

lemma inval_LBID_freed:
  "mdc_freed (snd (inval_volume_MDCache_LBID vid lb n S)) = mdc_freed S"
  "set (citem_freed (cpool_mem (mdc_mgr S))) \<subseteq> set (citem_freed (cpool_mem (mdc_mgr (snd (inval_volume_MDCache_LBID vid lb n S)))))"
proof -
  obtain f M1 where f: "find_cache_pool vid (mdc_mgr S) = (f, M1)" by (metis prod.exhaust)
  show "mdc_freed (snd (inval_volume_MDCache_LBID vid lb n S)) = mdc_freed S" by (simp add: inval_volume_MDCache_LBID_def split: prod.splits)
  show "set (citem_freed (cpool_mem (mdc_mgr S))) \<subseteq> set (citem_freed (cpool_mem (mdc_mgr (snd (inval_volume_MDCache_LBID vid lb n S)))))"
  proof (cases f)
    case None
    then show ?thesis using find_pool_unchanged [of vid "mdc_mgr S" M1] f by (simp add: inval_volume_MDCache_LBID_def cache_invalidate_def cache_invalidate_volLB_def)
  next
    case (Some v)
    then have "cpool_mem M1 = cpool_mem (mdc_mgr S)" using f pool_inc_view(5) by simp
    then show ?thesis using invalidate_freed [of "(cpool_at M1 v, cpool_mem M1)" lb "unat n"] f Some
      by (simp add: inval_volume_MDCache_LBID_def cache_invalidate_def cache_invalidate_volLB_def on_cpool_eq cpool_dec_def upd_cpool_def)
  qed
qed

lemma failed_insert_frees_twice:
  "let S = update_mdItem ([Some 100], [Some 20]) 5 64 (md_sample\<lparr>num_hbids := 1\<rparr>) mdc_sample_nomem
   in 100 \<in> set (citem_freed (cpool_mem (mdc_mgr S))) \<and> 100 \<in> set (mdc_freed S)"
proof -
  let ?M = "mdc_mgr mdc_sample_nomem"
  have f: "find_cache_pool 5 ?M = (Some 1, cpool_inc 1 ?M)"
    by (simp add: mdc_sample_nomem_def mdc_sample_def find_cache_pool_def find_cache_pool_nolock_def cm_sample_tbl cpool_hash_def CACHE_POOL_HSIZE_def cm_sample_pool cache_pool_new_def)
  let ?p = "cpool_at (cpool_inc 1 ?M) 1"
  have c: "cache_update_pool [Some 20] 64 [100] (?p, cpool_mem ?M) =
      (- ENOMEM, ?p\<lparr>tree := \<lparr>rt_height = 2, rnode = RNull\<rparr>\<rparr>, release_tree_leaf 20 ((cpool_mem ?M)\<lparr>leaf_at := (leaf_at (cpool_mem ?M))(20 := \<lparr>leaf_data = 100, blkid = 64, flag_refcnt = 0\<rparr>),
         leaf_live := (leaf_live (cpool_mem ?M))(20 := True), tree_leaf_cnt := 1, node_mem := \<lparr>kmem_ok = \<lambda>_. False, kmem_calls = 1, dms_node_count = 0\<rparr>\<rparr>))"
    by (simp add: cache_eval cpool_inc_def upd_cpool_def mdc_sample_nomem_def mdc_sample_def cm_sample_pool radix_tree_extend_def extend_height_2 radix_tree_node_alloc_def ENOMEM_def)
  obtain M2 where u: "cache_update [Some 20] 5 64 [100] ?M = (- ENOMEM, M2)" "100 \<in> set (citem_freed (cpool_mem M2))"
  proof -
    have "cpool_mem (cpool_inc 1 ?M) = cpool_mem ?M" by (simp add: cpool_inc_def upd_cpool_def)
    then show ?thesis using that c f by (simp add: cache_update_def on_cpool_def cpool_dec_def upd_cpool_def release_tree_leaf_def tree_leaf_ref_count_def)
  qed
  let ?S3 = "mdc_sample_nomem\<lparr>mdc_heap := split_metadata (md_sample\<lparr>num_hbids := 1\<rparr>) [100] (\<lambda>p. if p \<in> {100} then mcache_item0 else mdc_heap mdc_sample_nomem p), mdc_mgr := M2\<rparr>"
  have "update_mdItem ([Some 100], [Some 20]) 5 64 (md_sample\<lparr>num_hbids := 1\<rparr>) mdc_sample_nomem =
      (let S4 = snd (inval_volume_MDCache_LBID 5 64 1 ?S3) in S4\<lparr>mdc_freed := 100 # mdc_freed S4\<rparr>)"
    using u(1) alloc_all [of "[100]" "[]" mdc_sample_nomem] by (simp add: update_mdItem_def Let_def update_basket_def ENOMEM_def ENOENT_def E2BIG_def)
  then show ?thesis using u(2) inval_LBID_freed(2) [of ?S3 5 64 1] by (auto simp: Let_def)
qed

end
