(* ===== verification/Spec2Isabelle.thy ===== *)
theory Spec2Isabelle
  imports Conn_Fsm Io_Fsm Dn_Fsm Nn_Fsm Pl_Fsm Common_Util Io_Completion Dn_Props Dn_Payload Cache_Mgr_Props Md_Cache_Props
begin

text \<open>
  Verification of the DISCO block-device client under \<^verbatim>\<open>src/BlockDeviceDriver2\<close>.

  \<^bold>\<open>The program.\<close>  The client is a Linux kernel module that offers the volumes of a distributed storage system as block
  devices.  The block layer hands it I/O requests; the I/O manager (\<^verbatim>\<open>io_manager/\<close>) turns sectors into logical blocks,
  makes overlapping requests wait for each other and cuts a request into segments.  For each segment the metadata manager
  (\<^verbatim>\<open>metadata_manager/\<close>) finds out where its blocks are, from its cache (\<^verbatim>\<open>common/cache.c\<close> over \<^verbatim>\<open>lib/dms-radix-tree.c\<close>) or
  from the namenode through the namenode client (\<^verbatim>\<open>discoNN_client/\<close>).  The payload manager (\<^verbatim>\<open>payload_manager/\<close>) then
  reads or writes the replicas through the datanode client (\<^verbatim>\<open>discoDN_client/\<close>), whose sender threads put requests on the
  sockets of the connection manager (\<^verbatim>\<open>connection_manager/\<close>) and whose answer workers match answers with requests.  The
  answers decide, by the commit criteria of the metadata manager, when the user and the namenode are told.  Every request
  carries a state machine that arbitrates between its threads (sender, receiver, timeout, cancel).

  \<^bold>\<open>Theories and sources.\<close>  Pointers are natural numbers into stores (functions from pointers to records); what one thread does
  under one lock is one function on the state; a concurrent run is a sequence of such functions in some order.  The answer of
  an allocator or of a socket is an argument.  Definitions carry the names of the C functions without leading underscores.

  \<^item> \<^verbatim>\<open>Disco_Prelude\<close>: machine words, error numbers, constants, lemmas on lists, maps and words, the \<^verbatim>\<open>fsm_defs\<close> collection.
  \<^item> \<^verbatim>\<open>Fsm_Spec\<close>: the contracts of the state machines as locales (a grant given at most once, a pipeline, a token, a flag, a
    machine that can always be driven to its end, a view of a product machine), with their consequences for all runs.
  \<^item> \<^verbatim>\<open>Conn_Fsm\<close> (\<^verbatim>\<open>drv_fsm.c\<close>, \<^verbatim>\<open>connection_manager/conn_state_fsm.c\<close>), \<^verbatim>\<open>Io_Fsm\<close> (\<^verbatim>\<open>io_manager/discoC_IOReq_fsm.c\<close>,
    \<^verbatim>\<open>discoC_ioSegReq_fsm.c\<close>), \<^verbatim>\<open>Dn_Fsm\<close> (\<^verbatim>\<open>discoDN_client/discoC_DNUDReq_fsm.c\<close>), \<^verbatim>\<open>Nn_Fsm\<close>
    (\<^verbatim>\<open>discoNN_client/discoC_NNMDReq_fsm.c\<close>), \<^verbatim>\<open>Pl_Fsm\<close> (\<^verbatim>\<open>payload_manager/payload_request_fsm.c\<close>): every handler of every machine,
    and the interpretations of the contracts on them.
  \<^item> \<^verbatim>\<open>Common_Util\<close> (\<^verbatim>\<open>common/common_util.c\<close>): packed datanode locations, sector masks, request state bits.
  \<^item> \<^verbatim>\<open>Io_Layout\<close> (\<^verbatim>\<open>io_manager/discoC_IORequest.c\<close>): block range and sector masks of a request.  \<^verbatim>\<open>Io_Overlap\<close>,
    \<^verbatim>\<open>Io_Ordering\<close>, \<^verbatim>\<open>Io_Completion\<close> (\<^verbatim>\<open>io_manager/ioreq_ovlp.c\<close>, \<^verbatim>\<open>discoC_IOReqPool.c\<close>, pool functions of
    \<^verbatim>\<open>discoC_IORequest.c\<close>): overlap check, wait and wake lists, running and waiting pool; reachability and its invariant.
  \<^item> \<^verbatim>\<open>Req_Pool\<close>, \<^verbatim>\<open>Work_Queue\<close>: the contracts of the hash pools and of the work queues of the senders; the queues of
    \<^verbatim>\<open>discoNN_client/discoC_NNC_worker.c\<close> and \<^verbatim>\<open>discoDN_client/discoC_DNC_worker.c\<close> are modelled there.
  \<^item> \<^verbatim>\<open>Md_Manager\<close> (\<^verbatim>\<open>metadata_manager/metadata_manager.c\<close>): metadata items, acknowledgement counters, commit criteria.
  \<^item> \<^verbatim>\<open>Dn_Request\<close>, \<^verbatim>\<open>Dn_Client\<close>, \<^verbatim>\<open>Dn_Safety\<close>, \<^verbatim>\<open>Dn_Props\<close>, \<^verbatim>\<open>Dn_Payload\<close> (\<^verbatim>\<open>discoDN_client/\<close>): request pool, requests,
    sender, answer workers; the interleavings of submitters, sender, answer workers, reconnect thread and cancellers, and the
    invariant over reference counts, feature bits, machines, pool and queue.
  \<^item> \<^verbatim>\<open>Refine_Spec\<close>, \<^verbatim>\<open>Radix_Tree\<close> (\<^verbatim>\<open>lib/dms-radix-tree.c\<close>): the refinement contract, and the radix tree with node
    allocation that can fail as a refinement of a finite map.
  \<^item> \<^verbatim>\<open>Cache_Pool\<close>, \<^verbatim>\<open>Cache_Inv\<close>, \<^verbatim>\<open>Cache_Lru\<close>, \<^verbatim>\<open>Cache_Props\<close> (a pool of \<^verbatim>\<open>common/cache.c\<close>); \<^verbatim>\<open>Cache_Frame\<close>, \<^verbatim>\<open>Cache_Mgr\<close>,
    \<^verbatim>\<open>Cache_Safe\<close>, \<^verbatim>\<open>Cache_Mgr_Props\<close> (the manager of all pools, with the reference counts of pools and leaves);
    \<^verbatim>\<open>Cache_Fill\<close> (what a volume has cached, as the clients of the manager see it).
  \<^item> \<^verbatim>\<open>Md_Triplet\<close>, \<^verbatim>\<open>Md_Cache\<close>, \<^verbatim>\<open>Md_Cache_Props\<close> (\<^verbatim>\<open>metadata_manager/metadata_cache.c\<close>): merging of packed locations in place,
    queries and updates of the metadata cache on top of the cache manager.

  \<^bold>\<open>What is shown.\<close>  No two conflicting I/O requests are ever in flight together, every waiting request is eventually
  submitted, and a completion wakes exactly the requests that waited for it alone.  No thread of the datanode client touches
  a freed request, answers complete a request once, the pool, the queue and the feature bits agree, and cancelling returns.
  A write is reported once to the user and once to the namenode, and success means a disk acknowledgement.  The radix tree
  is a map; a cache pool is an LRU cache within its size; no reader holds a freed leaf and no thread a freed pool, for
  every interleaving.  A query of the metadata cache says of every block exactly what is cached, and a description of blocks that went
  through the cache comes back with the same replicas at the same places.  Each state machine hands out its permissions at most once and in order, whatever the order of events.
  Packed locations, block ranges, masks, payload segments and work queues are exact.  Lemmas beside the properties pin down
  the corners where the code does something else than it means to.

  \<^bold>\<open>Bounds and fuel.\<close>  The radix tree recurses over its height, at most eleven levels of six bits for 64-bit keys.  The
  cancel loop of the datanode client, the loop over its payload segments and the loop of a metadata query may run forever in
  the model as in the code (\<open>None\<close> is not returning); the properties show that they return, the query when its allocator does
  not fail for ever.
  All other loops are structural recursions over lists or counters of the source.  Counters that can wrap are words; the
  acknowledgement counters of a metadata item are eight bits wide, and the properties that need it say that there are
  fewer than 128 replicas.

  \<^bold>\<open>Not modelled.\<close>  Code whose every step is a call into the kernel: block-device registration (\<^verbatim>\<open>vdisk_manager/\<close>,
  \<^verbatim>\<open>drv_*.c\<close>), threads, sockets, timers and memory pools (\<^verbatim>\<open>common/thread_manager.c\<close>, \<^verbatim>\<open>connection_manager/\<close> apart from its
  state machine, \<^verbatim>\<open>flowcontrol/\<close>, \<^verbatim>\<open>common/discoC_mem_manager.c\<close>), copies from and to bio pages; the byte layout of the
  namenode and datanode protocols; the request life cycles of the namenode client and of the payload manager around their state
  machines; the user-space daemon and tools, \<^verbatim>\<open>/proc\<close> printers, hashes, simulators and tests.
\<close>

end
